(* ===== verification/SnF_Prelude.thy ===== *)
theory SnF_Prelude
  imports Main "HOL-Library.Word"
begin

text \<open>
  Shared vocabulary of the development: the fixed-width integers of the C++ sources, the
  \<open>std::chrono\<close> time arithmetic, the standard algorithms the sources call
  (\<open>lower_bound\<close>, \<open>min\<close> on unsigned values), the generic lemmas about them, and the
  interfaces (locales) that several components share.
\<close>

section \<open>Machine integers and time\<close>

type_synonym u8 = "8 word"
type_synonym u16 = "16 word"
type_synonym u32 = "32 word"
type_synonym u64 = "64 word"
type_synonym i32 = "32 word"
type_synonym bytes = "8 word list"

text \<open>
  \<open>std::chrono::steady_clock::time_point\<close> counts nanoseconds, and
  \<open>std::chrono::milliseconds\<close> is converted when it is added to one. Both are
  integers here; the sources never rely on a wrapped time point.
\<close>

type_synonym time_point = int
type_synonym millis = int

definition after_ms :: "time_point \<Rightarrow> millis \<Rightarrow> time_point" where
  "after_ms t d = t + d * 1000000"

abbreviation UINT32_MAX :: u32 where "UINT32_MAX \<equiv> - 1"
abbreviation UINT64_MAX :: u64 where "UINT64_MAX \<equiv> - 1"

text \<open>
  The identifier structs of \<^verbatim>\<open>include/snf/game\<close> wrap one unsigned value each. A position
  in a zone is a pair of signed 32-bit coordinates, kept as words and read with \<^const>\<open>sint\<close>.
\<close>

type_synonym player_id = u64
type_synonym room_id = u64
type_synonym zone_id = u64

record zone_position =
  zpos_x :: i32
  zpos_y :: i32

record player_location =
  loc_zone :: zone_id
  loc_position :: zone_position

text \<open>Facts that move word expressions to \<^typ>\<open>nat\<close>, where linear arithmetic decides them.\<close>

named_theorems unat_simps

lemma unat_min [unat_simps]: "unat (min a b) = min (unat a) (unat (b :: 'a::len word))"
  by (simp add: min_def word_le_nat_alt)

lemma unat_max [unat_simps]: "unat (max a b) = max (unat a) (unat (b :: 'a::len word))"
  by (simp add: max_def word_le_nat_alt)

lemma unat_sub_le: "b \<le> a \<Longrightarrow> unat (a - b) = unat a - unat (b :: 'a::len word)"
  by (simp add: unat_sub)

lemma unat_sub_min [unat_simps]: "unat (a - min a b) = unat a - unat (b :: 'a::len word)"
  by (subst unat_sub_le) (auto simp: unat_min)

lemma unat_sub_min' [unat_simps]: "unat (a - min b a) = unat a - unat (b :: 'a::len word)"
  using unat_sub_min [of a b] by (simp add: min.commute)

lemma unat_add_small:
  "unat a + unat b < 2 ^ LENGTH('a) \<Longrightarrow> unat (a + b) = unat a + unat (b :: 'a::len word)"
  by (simp add: unat_word_ariths)

lemma unat_mult_small:
  "unat a * unat b < 2 ^ LENGTH('a) \<Longrightarrow> unat (a * b) = unat a * unat (b :: 'a::len word)"
  by (simp add: unat_word_ariths)

lemma unat_ucast_mod:
  "unat (ucast (a :: 'a::len word) :: 'b::len word) = unat a mod 2 ^ LENGTH('b)"
  by (simp add: unsigned_ucast_eq take_bit_eq_mod)

lemma unat_u32_lt: "unat (a :: u32) < 4294967296"
  using unsigned_less [of a, where ?'a = nat] by simp

lemma unat_u64_lt: "unat (a :: u64) < 18446744073709551616"
  using unsigned_less [of a, where ?'a = nat] by simp

lemma unat_u32_u64 [unat_simps]: "unat (ucast (a :: u32) :: u64) = unat a"
  using unat_u32_lt [of a] by (simp add: unat_ucast_mod)

lemma unat_u64_max [unat_simps]: "unat UINT64_MAX = 18446744073709551615"
  by (simp add: unsigned_minus_1_eq_mask mask_eq_exp_minus_1)

lemma unat_u32_max [unat_simps]: "unat UINT32_MAX = 4294967295"
  by (simp add: unsigned_minus_1_eq_mask mask_eq_exp_minus_1)

lemma unat_u32_of_u64:
  "unat (a :: u64) < 4294967296 \<Longrightarrow> unat (ucast a :: u32) = unat a"
  by (simp add: unat_ucast_mod)

section \<open>Sorted vectors\<close>

text \<open>
  The sources keep several small tables as vectors sorted by a key and search them with
  \<open>std::ranges::lower_bound\<close>, which returns the first position whose key is not less than
  the one sought. \<open>vec_insert\<close> and \<open>vec_erase\<close> are \<open>vector::insert\<close> and
  \<open>vector::erase\<close> at a position.
\<close>

definition lower_bound :: "('a \<Rightarrow> 'k::linorder) \<Rightarrow> 'a list \<Rightarrow> 'k \<Rightarrow> nat" where
  "lower_bound key xs k = length (takeWhile (\<lambda>a. key a < k) xs)"

definition vec_insert :: "nat \<Rightarrow> 'a \<Rightarrow> 'a list \<Rightarrow> 'a list" where
  "vec_insert i x xs = take i xs @ x # drop i xs"

definition vec_erase :: "nat \<Rightarrow> 'a list \<Rightarrow> 'a list" where
  "vec_erase i xs = take i xs @ drop (Suc i) xs"

text \<open>The idiom \<open>position == end() || position->key != k\<close> around \<open>lower_bound\<close>.\<close>

definition locate :: "('a \<Rightarrow> 'k::linorder) \<Rightarrow> 'a list \<Rightarrow> 'k \<Rightarrow> nat option" where
  "locate key xs k =
     (let position = lower_bound key xs k
      in if position = length xs \<or> key (xs ! position) \<noteq> k then None else Some position)"

definition key_sorted :: "('a \<Rightarrow> 'k::linorder) \<Rightarrow> 'a list \<Rightarrow> bool" where
  "key_sorted key xs \<longleftrightarrow> sorted_wrt (<) (map key xs)"

lemma key_sorted_Nil [simp]: "key_sorted key []"
  by (simp add: key_sorted_def)

lemma key_sorted_Cons [simp]:
  "key_sorted key (x # xs) \<longleftrightarrow> (\<forall>y \<in> set xs. key x < key y) \<and> key_sorted key xs"
  by (auto simp: key_sorted_def)

lemma key_sorted_append:
  "key_sorted key (xs @ ys) \<longleftrightarrow>
     key_sorted key xs \<and> key_sorted key ys \<and> (\<forall>x \<in> set xs. \<forall>y \<in> set ys. key x < key y)"
  by (auto simp: key_sorted_def sorted_wrt_append)

lemma key_sorted_distinct: "key_sorted key xs \<Longrightarrow> distinct (map key xs)"
  by (induction xs) auto

lemma key_sorted_map_key: "map key ys = map key xs \<Longrightarrow> key_sorted key ys = key_sorted key xs"
  by (simp add: key_sorted_def)

lemma key_sorted_update:
  assumes "key_sorted key xs" and "key (f (xs ! i)) = key (xs ! i)"
  shows "key_sorted key (xs[i := f (xs ! i)])"
proof -
  have "map key (xs[i := f (xs ! i)]) = (map key xs)[i := map key xs ! i]"
    using assms(2) by (cases "i < length xs") (simp_all add: map_update list_update_beyond)
  then have "map key (xs[i := f (xs ! i)]) = map key xs" by (simp only: list_update_id)
  then show ?thesis using assms(1) by (simp add: key_sorted_def)
qed

lemma key_sorted_split:
  assumes "key_sorted key xs"
  shows "key_sorted key (take i xs)" and "key_sorted key (drop i xs)"
    and "x \<in> set (take i xs) \<Longrightarrow> y \<in> set (drop i xs) \<Longrightarrow> key x < key y"
  using assms key_sorted_append [of key "take i xs" "drop i xs"] by auto

lemma key_sorted_filter: "key_sorted key xs \<Longrightarrow> key_sorted key (filter P xs)"
  by (induction xs) auto

lemma lower_bound_le: "lower_bound key xs k \<le> length xs"
  by (simp add: lower_bound_def length_takeWhile_le)

lemma take_lower_bound: "x \<in> set (take (lower_bound key xs k) xs) \<Longrightarrow> key x < k"
  unfolding lower_bound_def takeWhile_eq_take [symmetric] by (blast dest: set_takeWhileD)

lemma drop_lower_bound:
  "key_sorted key xs \<Longrightarrow> x \<in> set (drop (lower_bound key xs k) xs) \<Longrightarrow> k \<le> key x"
  unfolding lower_bound_def dropWhile_eq_drop [symmetric]
  by (induction xs) (auto split: if_splits)

lemma locate_Some:
  assumes "locate key xs k = Some i"
  shows "i < length xs" and "key (xs ! i) = k" and "xs ! i \<in> set xs" and "i = lower_bound key xs k"
  using assms lower_bound_le [of key xs k] by (auto simp: locate_def Let_def split: if_splits)

lemma locate_None:
  assumes sorted: "key_sorted key xs"
  shows "locate key xs k = None \<longleftrightarrow> k \<notin> key ` set xs"
proof
  assume none: "locate key xs k = None"
  let ?n = "lower_bound key xs k"
  show "k \<notin> key ` set xs"
  proof
    assume "k \<in> key ` set xs"
    then obtain x where x: "x \<in> set xs" "key x = k" by auto
    then have "x \<in> set (take ?n xs) \<union> set (drop ?n xs)" by (metis append_take_drop_id set_append)
    then have d: "x \<in> set (drop ?n xs)" using take_lower_bound [of x key xs k] x by auto
    then have n: "?n < length xs" by (cases "?n < length xs") auto
    with none have ne: "key (xs ! ?n) \<noteq> k" by (auto simp: locate_def Let_def)
    have split: "drop ?n xs = xs ! ?n # drop (Suc ?n) xs" using n by (simp add: Cons_nth_drop_Suc)
    have ge: "k \<le> key (xs ! ?n)" using drop_lower_bound [OF sorted, of "xs ! ?n" k] split by simp
    have "x \<in> set (drop (Suc ?n) xs)" using x ne d split by auto
    moreover have "key_sorted key (drop ?n xs)" by (rule key_sorted_split(2) [OF sorted])
    ultimately have "key (xs ! ?n) < key x" using split by auto
    then show False using ge x by simp
  qed
next
  assume "k \<notin> key ` set xs"
  then show "locate key xs k = None"
    using lower_bound_le [of key xs k]
    by (auto simp: locate_def Let_def) (metis image_eqI le_neq_implies_less nth_mem)
qed

lemma set_vec_insert: "set (vec_insert i x xs) = insert x (set xs)"
proof -
  have "set xs = set (take i xs) \<union> set (drop i xs)"
    by (metis append_take_drop_id set_append)
  then show ?thesis by (auto simp: vec_insert_def)
qed

lemma length_vec_insert: "length (vec_insert i x xs) = Suc (length xs)"
  by (simp add: vec_insert_def)

lemma vec_insert_sorted:
  assumes sorted: "key_sorted key xs" and fresh: "key x \<notin> key ` set xs"
  shows "key_sorted key (vec_insert (lower_bound key xs (key x)) x xs)"
proof -
  let ?n = "lower_bound key xs (key x)"
  have "key x < key y" if "y \<in> set (drop ?n xs)" for y
    using drop_lower_bound [OF sorted that] fresh in_set_dropD [OF that]
    by (metis image_eqI le_less)
  then show ?thesis
    using key_sorted_split [OF sorted, where i = ?n] take_lower_bound [of _ key xs "key x"]
    by (auto simp: vec_insert_def key_sorted_append)
qed

lemma vec_erase_sorted:
  assumes "key_sorted key xs"
  shows "key_sorted key (vec_erase i xs)"
  using key_sorted_split [OF assms, where i = i] key_sorted_split [OF assms, where i = "Suc i"]
    set_drop_subset_set_drop [of i "Suc i" xs]
  by (auto simp: vec_erase_def key_sorted_append)

lemma set_vec_erase:
  assumes "key_sorted key xs" and "i < length xs"
  shows "set (vec_erase i xs) = {x \<in> set xs. key x \<noteq> key (xs ! i)}"
proof -
  obtain ys y zs where xs: "xs = ys @ y # zs" and i: "i = length ys"
    using id_take_nth_drop [OF assms(2)] assms(2) by (metis length_take less_imp_le min_absorb2)
  then have "\<forall>x \<in> set ys. key x < key y" "\<forall>x \<in> set zs. key y < key x"
    using assms(1) by (auto simp: key_sorted_append)
  then show ?thesis by (auto simp: vec_erase_def xs i)
qed

lemma length_vec_erase: "i < length xs \<Longrightarrow> length (vec_erase i xs) = length xs - 1"
  by (simp add: vec_erase_def)

text \<open>
  The contract of such a table, as its clients use it: a search by key, an insertion of an
  element whose key is absent, an erasure at a position the search returned, and updates that
  keep every key.
\<close>

locale sorted_table =
  fixes key :: "'a \<Rightarrow> 'k::linorder"
    and find :: "'a list \<Rightarrow> 'k \<Rightarrow> nat option"
    and add :: "'a \<Rightarrow> 'a list \<Rightarrow> 'a list"
    and del :: "nat \<Rightarrow> 'a list \<Rightarrow> 'a list"
    and invar :: "'a list \<Rightarrow> bool"
  assumes find_Some: "find xs k = Some i \<Longrightarrow> i < length xs \<and> key (xs ! i) = k"
    and find_None: "invar xs \<Longrightarrow> find xs k = None \<longleftrightarrow> k \<notin> key ` set xs"
    and invar_distinct: "invar xs \<Longrightarrow> distinct (map key xs)"
    and invar_add: "invar xs \<Longrightarrow> find xs (key x) = None \<Longrightarrow> invar (add x xs)"
    and set_add: "set (add x xs) = insert x (set xs)"
    and invar_del: "invar xs \<Longrightarrow> invar (del i xs)"
    and set_del: "invar xs \<Longrightarrow> i < length xs \<Longrightarrow> set (del i xs) = {x \<in> set xs. key x \<noteq> key (xs ! i)}"
    and invar_keys: "invar xs \<Longrightarrow> map key ys = map key xs \<Longrightarrow> invar ys"
begin

lemma key_unique:
  assumes "invar xs" and "x \<in> set xs" and "y \<in> set xs" and "key x = key y"
  shows "x = y"
  using invar_distinct [OF assms(1)] assms(2-4) by (auto simp: distinct_map dest: inj_onD)

lemma find_member:
  assumes "invar xs" and "x \<in> set xs"
  obtains i where "find xs (key x) = Some i" and "i < length xs" and "xs ! i = x"
proof -
  have "find xs (key x) \<noteq> None" using find_None [OF assms(1)] assms(2) by auto
  then obtain i where i: "find xs (key x) = Some i" by auto
  with find_Some have "i < length xs" "key (xs ! i) = key x" by blast+
  with i that show thesis using key_unique [OF assms(1) _ assms(2)] by simp
qed

lemma find_added:
  assumes "invar xs" and "find xs (key x) = None"
  obtains i where "find (add x xs) (key x) = Some i" and "add x xs ! i = x"
  using find_member [OF invar_add [OF assms], of x] by (auto simp: set_add)

lemma find_deleted:
  assumes "invar xs" and "find xs k = Some i"
  shows "find (del i xs) k = None"
  using find_Some [OF assms(2)] find_None [OF invar_del [OF assms(1)]] set_del [OF assms(1)]
  by auto

lemma invar_modify:
  assumes "invar xs" and "key (f (xs ! i)) = key (xs ! i)"
  shows "invar (xs[i := f (xs ! i)])"
proof (cases "i < length xs")
  case True
  then have "map key (xs[i := f (xs ! i)]) = (map key xs)[i := map key xs ! i]"
    using assms(2) by (simp add: map_update)
  also have "\<dots> = map key xs" by (rule list_update_id)
  finally show ?thesis by (rule invar_keys [OF assms(1)])
next
  case False
  then show ?thesis using assms(1) by (simp add: list_update_beyond)
qed

lemma find_modified_other:
  assumes "invar xs" and "key (f (xs ! i)) = key (xs ! i)" and "y \<in> set xs" and "key y \<noteq> key (xs ! i)"
  shows "y \<in> set (xs[i := f (xs ! i)])"
  using assms(3,4) by (metis in_set_conv_nth length_list_update nth_list_update_neq)

end

lemma sorted_table_vec:
  "sorted_table key (locate key) (\<lambda>x xs. vec_insert (lower_bound key xs (key x)) x xs) vec_erase (key_sorted key)"
proof
  show "i < length xs \<and> key (xs ! i) = k" if "locate key xs k = Some i" for xs k i
    using that by (simp add: locate_Some)
  show "key_sorted key (vec_insert (lower_bound key xs (key x)) x xs)"
    if "key_sorted key xs" "locate key xs (key x) = None" for xs x
    using that by (simp add: locate_None vec_insert_sorted)
  show "key_sorted key ys" if "key_sorted key xs" "map key ys = map key xs" for xs ys
    using that key_sorted_map_key by blast
qed (simp_all add: locate_None key_sorted_distinct set_vec_insert vec_erase_sorted set_vec_erase)

section \<open>Command-driven state machines\<close>

text \<open>
  Every actor of the program is driven the same way: a command is applied to the state and
  yields a result and the next state. \<open>run\<close> feeds a sequence of commands.
\<close>

fun run :: "('s \<Rightarrow> 'c \<Rightarrow> 'r \<times> 's) \<Rightarrow> 's \<Rightarrow> 'c list \<Rightarrow> 'r list \<times> 's" where
  "run step s [] = ([], s)"
| "run step s (c # cs) =
     (let (r, s') = step s c; (rs, s'') = run step s' cs in (r # rs, s''))"

lemma run_Nil [simp]: "fst (run step s []) = []" "snd (run step s []) = s"
  by simp_all

lemma run_Cons [simp]:
  "fst (run step s (c # cs)) = fst (step s c) # fst (run step (snd (step s c)) cs)"
  "snd (run step s (c # cs)) = snd (run step (snd (step s c)) cs)"
  by (simp_all add: Let_def split: prod.splits)

declare run.simps [simp del]

lemma run_append:
  "fst (run step s (cs @ ds)) = fst (run step s cs) @ fst (run step (snd (run step s cs)) ds)"
  "snd (run step s (cs @ ds)) = snd (run step (snd (run step s cs)) ds)"
  by (induction cs arbitrary: s) simp_all

lemma length_run: "length (fst (run step s cs)) = length cs"
  by (induction cs arbitrary: s) simp_all

lemma run_all_steps:
  assumes step: "\<And>s c. J s \<Longrightarrow> J (snd (step s c)) \<and> P (fst (step s c))" and "J s"
  shows "list_all P (fst (run step s cs))"
  using assms(2) by (induction cs arbitrary: s) (simp_all add: step)

text \<open>An invariant kept by every admissible command holds after every run of them.\<close>

locale invariant_machine =
  fixes step :: "'s \<Rightarrow> 'c \<Rightarrow> 'r \<times> 's"
    and admissible :: "'c \<Rightarrow> bool"
    and inv :: "'s \<Rightarrow> bool"
  assumes step_inv: "inv s \<Longrightarrow> admissible c \<Longrightarrow> inv (snd (step s c))"
begin

lemma run_inv: "inv s \<Longrightarrow> list_all admissible cs \<Longrightarrow> inv (snd (run step s cs))"
  using step_inv by (induction cs arbitrary: s) simp_all

end

text \<open>
  A machine with a final phase: once it is reached the state no longer changes, and every later
  command is answered with a result that carries no effect.
\<close>

locale absorbing_machine = invariant_machine step admissible inv
  for step :: "'s \<Rightarrow> 'c \<Rightarrow> 'r \<times> 's" and admissible :: "'c \<Rightarrow> bool" and inv :: "'s \<Rightarrow> bool" +
  fixes final :: "'s \<Rightarrow> bool"
    and effect :: "'r \<Rightarrow> bool"
  assumes final_step: "final s \<Longrightarrow> snd (step s c) = s \<and> \<not> effect (fst (step s c))"
    and effect_final: "effect (fst (step s c)) \<Longrightarrow> final (snd (step s c))"
begin

lemma run_final: "final s \<Longrightarrow> snd (run step s cs) = s \<and> list_all (\<lambda>r. \<not> effect r) (fst (run step s cs))"
  using final_step by (induction cs arbitrary: s) simp_all

lemma at_most_one_effect: "length (filter effect (fst (run step s cs))) \<le> 1"
proof (induction cs arbitrary: s)
  case (Cons c cs)
  show ?case
  proof (cases "effect (fst (step s c))")
    case True
    from run_final [OF effect_final [OF True], of cs]
    have "filter effect (fst (run step (snd (step s c)) cs)) = []"
      by (simp add: filter_empty_conv list_all_iff)
    with True show ?thesis by simp
  next
    case False
    with Cons show ?thesis by simp
  qed
qed simp

end

end
