(* ===== verification/Arena.thy ===== *)
theory Arena
  imports SnF_Prelude
begin

text \<open>
  The battle arena of \<^verbatim>\<open>src/game/arena.cpp\<close>: unsigned 32-bit grid positions, the eight
  movement directions, the clamped movement of participants, the homing movement of enemies
  and projectiles, the saturating squared distance, and the spawn formations. The lemmas read
  every word operation as arithmetic on \<^typ>\<open>nat\<close> and show where it cannot wrap.
\<close>

section \<open>Positions and directions\<close>

record arena_position =
  pos_x :: u32
  pos_y :: u32

datatype move_direction =
  Stop | North | NorthEast | East | SouthEast | South | SouthWest | West | NorthWest

primrec move_direction_code :: "move_direction \<Rightarrow> u8" where
  "move_direction_code Stop = 0"
| "move_direction_code North = 1"
| "move_direction_code NorthEast = 2"
| "move_direction_code East = 3"
| "move_direction_code SouthEast = 4"
| "move_direction_code South = 5"
| "move_direction_code SouthWest = 6"
| "move_direction_code West = 7"
| "move_direction_code NorthWest = 8"

definition isValidMoveDirection :: "u8 \<Rightarrow> bool" where
  "isValidMoveDirection v \<longleftrightarrow> v \<le> move_direction_code NorthWest"

section \<open>Scalar steps\<close>

definition decrease :: "u32 \<Rightarrow> u32 \<Rightarrow> u32" where
  "decrease v amount = v - min v amount"

definition increase :: "u32 \<Rightarrow> u32 \<Rightarrow> u32 \<Rightarrow> u32" where
  "increase v amount maximum = v + min amount (maximum - v)"

definition stepToward :: "u32 \<Rightarrow> u32 \<Rightarrow> u32 \<Rightarrow> u32" where
  "stepToward v target amount =
     (if target < v then v - min amount (v - target)
      else v + min amount (target - v))"

definition productQuotient :: "u64 \<Rightarrow> u64 \<Rightarrow> u64 \<Rightarrow> u64" where
  "productQuotient v multiplier divisor =
     (v div divisor) * multiplier + ((v mod divisor) * multiplier) div divisor"

section \<open>Movement\<close>

definition moveInDirection ::
  "arena_position \<Rightarrow> move_direction \<Rightarrow> u32 \<Rightarrow> u32 \<Rightarrow> u32 \<Rightarrow> arena_position" where
  "moveInDirection p direction speed width height =
     (let max_x = width - 1; max_y = height - 1 in
      case direction of
        Stop \<Rightarrow> p
      | North \<Rightarrow> p\<lparr>pos_y := decrease (pos_y p) speed\<rparr>
      | NorthEast \<Rightarrow> p\<lparr>pos_x := increase (pos_x p) speed max_x, pos_y := decrease (pos_y p) speed\<rparr>
      | East \<Rightarrow> p\<lparr>pos_x := increase (pos_x p) speed max_x\<rparr>
      | SouthEast \<Rightarrow>
          p\<lparr>pos_x := increase (pos_x p) speed max_x, pos_y := increase (pos_y p) speed max_y\<rparr>
      | South \<Rightarrow> p\<lparr>pos_y := increase (pos_y p) speed max_y\<rparr>
      | SouthWest \<Rightarrow> p\<lparr>pos_x := decrease (pos_x p) speed, pos_y := increase (pos_y p) speed max_y\<rparr>
      | West \<Rightarrow> p\<lparr>pos_x := decrease (pos_x p) speed\<rparr>
      | NorthWest \<Rightarrow> p\<lparr>pos_x := decrease (pos_x p) speed, pos_y := decrease (pos_y p) speed\<rparr>)"

definition moveToward ::
  "arena_position \<Rightarrow> arena_position \<Rightarrow> u32 \<Rightarrow> u32 \<Rightarrow> u32 \<Rightarrow> arena_position" where
  "moveToward p target speed width height =
     p\<lparr>pos_x := min (stepToward (pos_x p) (pos_x target) speed) (width - 1),
       pos_y := min (stepToward (pos_y p) (pos_y target) speed) (height - 1)\<rparr>"

section \<open>Distances\<close>

definition squaredDistance :: "arena_position \<Rightarrow> arena_position \<Rightarrow> u64" where
  "squaredDistance l r =
     (let delta_x = (if pos_x l < pos_x r then ucast (pos_x r) - ucast (pos_x l)
                     else ucast (pos_x l) - ucast (pos_x r)) :: u64;
          delta_y = (if pos_y l < pos_y r then ucast (pos_y r) - ucast (pos_y l)
                     else ucast (pos_y l) - ucast (pos_y r)) :: u64;
          x_squared = delta_x * delta_x;
          y_squared = delta_y * delta_y
      in if y_squared > UINT64_MAX - x_squared then UINT64_MAX else x_squared + y_squared)"

definition isWithinRange :: "arena_position \<Rightarrow> arena_position \<Rightarrow> u32 \<Rightarrow> bool" where
  "isWithinRange l r rng =
     (let widened_range = ucast rng :: u64
      in squaredDistance l r \<le> widened_range * widened_range)"

section \<open>Spawn formations\<close>

definition centeredParticipantPosition ::
  "u64 \<Rightarrow> u64 \<Rightarrow> u32 \<Rightarrow> u32 \<Rightarrow> u32 \<Rightarrow> arena_position" where
  "centeredParticipantPosition index count width height spacing =
     (let span = ucast spacing * (count - 1);
          start_x = ucast (width div 2) - span div 2
      in \<lparr>pos_x = ucast (start_x + ucast spacing * index), pos_y = height div 2\<rparr>)"

definition squarePerimeterPosition ::
  "u64 \<Rightarrow> u64 \<Rightarrow> u32 \<Rightarrow> u32 \<Rightarrow> u32 \<Rightarrow> arena_position" where
  "squarePerimeterPosition index count width height radius =
     (let center_x = ucast (width div 2) :: u64;
          center_y = ucast (height div 2) :: u64;
          r = ucast radius :: u64;
          perimeter = r * 8;
          offset = productQuotient perimeter index count;
          top = center_y - r;
          right = center_x + r;
          bottom = center_y + r;
          left = center_x - r
      in if offset < r then \<lparr>pos_x = ucast (center_x + offset), pos_y = ucast top\<rparr>
         else if offset < r * 3 then \<lparr>pos_x = ucast right, pos_y = ucast (top + offset - r)\<rparr>
         else if offset < r * 5 then
           \<lparr>pos_x = ucast (right - (offset - r * 3)), pos_y = ucast bottom\<rparr>
         else if offset < r * 7 then
           \<lparr>pos_x = ucast left, pos_y = ucast (bottom - (offset - r * 5))\<rparr>
         else \<lparr>pos_x = ucast (left + offset - r * 7), pos_y = ucast top\<rparr>)"

definition bossSpawnPosition :: "u32 \<Rightarrow> arena_position" where
  "bossSpawnPosition width = \<lparr>pos_x = width div 2, pos_y = 0\<rparr>"

section \<open>Readings on natural numbers\<close>

definition in_arena :: "u32 \<Rightarrow> u32 \<Rightarrow> arena_position \<Rightarrow> bool" where
  "in_arena width height p \<longleftrightarrow> pos_x p < width \<and> pos_y p < height"

definition axis_gap :: "u32 \<Rightarrow> u32 \<Rightarrow> nat" where
  "axis_gap a b = (unat a - unat b) + (unat b - unat a)"

lemma axis_gap_commute: "axis_gap a b = axis_gap b a"
  by (simp add: axis_gap_def)

lemma axis_gap_self [simp]: "axis_gap a a = 0"
  by (simp add: axis_gap_def)

lemma axis_gap_0_iff [simp]: "axis_gap a b = 0 \<longleftrightarrow> a = b"
  by (auto simp: axis_gap_def word_unat_eq_iff)

lemma int_axis_gap: "int (axis_gap a b) = \<bar>uint a - uint b\<bar>"
proof -
  have "int ((m - n) + (n - m)) = \<bar>int m - int n\<bar>" for m n by arith
  then show ?thesis by (simp only: axis_gap_def uint_nat)
qed

lemma unat_decrease [unat_simps]: "unat (decrease v a) = unat v - unat a"
  by (simp add: decrease_def unat_simps)

lemma unat_increase:
  assumes "v \<le> m"
  shows "unat (increase v a m) = min (unat v + unat a) (unat m)"
proof -
  have m: "unat (min a (m - v)) = min (unat a) (unat m - unat v)"
    using assms by (simp add: unat_min unat_sub_le)
  have le: "unat v \<le> unat m" using assms by (simp add: word_le_nat_alt)
  then have "unat v + unat (min a (m - v)) < 2 ^ 32"
    using m unat_u32_lt [of m] by simp
  then show ?thesis using m le by (simp add: increase_def unat_add_small)
qed

lemma unat_stepToward [unat_simps]:
  "unat (stepToward v t a) =
     (if unat t < unat v then max (unat v - unat a) (unat t) else min (unat v + unat a) (unat t))"
proof (cases "t < v")
  case True
  then have lt: "unat t < unat v" and le: "t \<le> v" by (simp_all add: word_less_nat_alt word_le_nat_alt)
  have m: "unat (min a (v - t)) = min (unat a) (unat v - unat t)"
    using le by (simp add: unat_min unat_sub_le)
  then have "min a (v - t) \<le> v" by (simp add: word_le_nat_alt)
  then show ?thesis using True lt m by (simp add: stepToward_def unat_sub_le)
next
  case False
  then have le: "v \<le> t" by simp
  then have nat_le: "unat v \<le> unat t" by (simp add: word_le_nat_alt)
  from False le nat_le show ?thesis
    using unat_increase [OF le, of a] by (simp add: stepToward_def increase_def)
qed

lemma unat_pred: "(w :: u32) \<noteq> 0 \<Longrightarrow> unat (w - 1) = unat w - 1"
  by (simp add: unat_minus_one)

lemma unat_pred_less: "(v :: u32) < w \<Longrightarrow> unat (w - 1) = unat w - 1"
  by (cases "w = 0") (auto simp: unat_pred)

lemma less_imp_le_pred: "(v :: u32) < w \<Longrightarrow> v \<le> w - 1"
  by (cases "w = 0") (auto simp: word_less_nat_alt word_le_nat_alt unat_pred)

lemmas word_nat = word_less_nat_alt word_le_nat_alt

section \<open>Movement lemmas\<close>

lemma increase_bounds:
  assumes "v < w"
  shows "increase v a (w - 1) < w" and "axis_gap (increase v a (w - 1)) v \<le> unat a"
  using assms unat_increase [OF less_imp_le_pred [OF assms], of a] unat_pred_less [OF assms]
  by (auto simp: word_nat axis_gap_def min_less_iff_disj)

lemma decrease_bounds:
  assumes "v < w"
  shows "decrease v a < w" and "axis_gap (decrease v a) v \<le> unat a"
  using assms by (auto simp: word_nat axis_gap_def unat_decrease)

lemma stepToward_gap: "axis_gap (stepToward v t a) t = axis_gap v t - unat a"
  by (auto simp: axis_gap_def unat_stepToward)

lemma stepToward_clamp:
  assumes "v < w" and "t < w"
  shows "min (stepToward v t a) (w - 1) = stepToward v t a"
proof -
  have "unat (stepToward v t a) < unat w"
    using assms by (auto simp: word_nat unat_stepToward)
  then have "stepToward v t a < w" by (simp add: word_less_nat_alt)
  then show ?thesis by (simp add: less_imp_le_pred min_absorb1)
qed

lemma moveToward_gaps:
  assumes "in_arena w h p" and "in_arena w h t"
  shows "axis_gap (pos_x (moveToward p t s w h)) (pos_x t) = axis_gap (pos_x p) (pos_x t) - unat s"
    and "axis_gap (pos_y (moveToward p t s w h)) (pos_y t) = axis_gap (pos_y p) (pos_y t) - unat s"
  using assms by (simp_all add: moveToward_def in_arena_def stepToward_clamp stepToward_gap)

lemma moveToward_in_arena:
  assumes "w \<noteq> 0" and "h \<noteq> 0"
  shows "in_arena w h (moveToward p t s w h)"
  using assms by (auto simp: in_arena_def moveToward_def word_less_nat_alt unat_min unat_pred
      unat_gt_0 min_less_iff_disj)

lemma moveInDirection_in_arena:
  assumes "in_arena w h p"
  shows "in_arena w h (moveInDirection p d s w h)"
  using assms by (cases d) (auto simp: moveInDirection_def in_arena_def increase_bounds decrease_bounds)

section \<open>Distance lemmas\<close>

lemma unat_delta:
  "unat (if a < b then ucast b - ucast a else ucast a - ucast b :: u64) = axis_gap a (b :: u32)"
  by (auto simp: axis_gap_def word_nat unat_sub_le unat_u32_u64)

lemma axis_gap_le: "axis_gap a b \<le> 4294967295"
  using unat_u32_lt [of a] unat_u32_lt [of b] by (simp add: axis_gap_def)

lemma square_le: "(n :: nat) \<le> 4294967295 \<Longrightarrow> n * n \<le> 18446744065119617025"
  using mult_le_mono [of n 4294967295 n 4294967295] by simp

lemma unat_square:
  fixes d :: u64
  assumes "unat d \<le> 4294967295"
  shows "unat (d * d) = unat d * unat d"
  using square_le [OF assms] by (intro unat_mult_small) simp

lemma unat_squaredDistance:
  "unat (squaredDistance l r) =
     min (axis_gap (pos_x l) (pos_x r) ^ 2 + axis_gap (pos_y l) (pos_y r) ^ 2) 18446744073709551615"
proof -
  define dx where "dx = (if pos_x l < pos_x r then ucast (pos_x r) - ucast (pos_x l)
                     else ucast (pos_x l) - ucast (pos_x r) :: u64)"
  define dy where "dy = (if pos_y l < pos_y r then ucast (pos_y r) - ucast (pos_y l)
                     else ucast (pos_y l) - ucast (pos_y r) :: u64)"
  have gx: "unat dx = axis_gap (pos_x l) (pos_x r)" and gy: "unat dy = axis_gap (pos_y l) (pos_y r)"
    by (simp_all add: dx_def dy_def unat_delta)
  have sx: "unat (dx * dx) = unat dx * unat dx" and sy: "unat (dy * dy) = unat dy * unat dy"
    by (simp_all add: unat_square gx gy axis_gap_le)
  have top: "unat (UINT64_MAX - dx * dx) = 18446744073709551615 - unat (dx * dx)"
    by (simp add: unat_sub_le unat_u64_max)
  have cond: "dy * dy > UINT64_MAX - dx * dx \<longleftrightarrow>
      unat dx * unat dx + unat dy * unat dy > 18446744073709551615"
    using unat_u64_lt [of "dx * dx"] by (auto simp: word_less_nat_alt top sx sy)
  have "squaredDistance l r =
      (if dy * dy > UINT64_MAX - dx * dx then UINT64_MAX else dx * dx + dy * dy)"
    by (simp add: squaredDistance_def Let_def dx_def dy_def)
  then show ?thesis
    by (auto simp: cond unat_u64_max unat_add_small sx sy power2_eq_square gx [symmetric] gy [symmetric])
qed

lemma isWithinRange_iff:
  "isWithinRange l r rng \<longleftrightarrow>
     axis_gap (pos_x l) (pos_x r) ^ 2 + axis_gap (pos_y l) (pos_y r) ^ 2 \<le> unat rng ^ 2"
proof -
  have b: "unat rng \<le> 4294967295" using unat_u32_lt [of rng] by simp
  have "unat (ucast rng * ucast rng :: u64) = unat rng * unat rng"
    using unat_square [of "ucast rng"] b by (simp add: unat_u32_u64)
  moreover have "unat rng * unat rng < 18446744073709551615"
    using square_le [OF b] by simp
  ultimately show ?thesis
    by (auto simp: isWithinRange_def word_le_nat_alt unat_squaredDistance power2_eq_square)
qed

section \<open>Formation lemmas\<close>

lemma unat_productQuotient:
  assumes "0 < unat d" and "unat m \<le> unat d" and "unat d < 4294967296"
  shows "unat (productQuotient v m d) = unat v * unat m div unat d"
proof -
  define V M D where "V = unat v" and "M = unat m" and "D = unat d"
  note bounds = assms [folded M_def D_def]
  have v64: "V < 18446744073709551616" by (simp add: V_def unat_u64_lt)
  have "V div D * M \<le> V div D * D" using bounds by simp
  also have "\<dots> \<le> V" by simp
  finally have q: "V div D * M \<le> V" .
  have "V mod D \<le> 4294967295" and "M \<le> 4294967295"
    using bounds mod_less_divisor [of D V] by linarith+
  then have r: "V mod D * M \<le> 18446744065119617025"
    using mult_le_mono [of "V mod D" 4294967295 M 4294967295] by simp
  have split: "V * M div D = V div D * M + V mod D * M div D"
  proof -
    have "V * M = (V div D * D + V mod D) * M" by (simp only: div_mult_mod_eq)
    also have "\<dots> = (V div D * M) * D + V mod D * M"
      by (simp only: add_mult_distrib add_mult_distrib2 ac_simps)
    finally show ?thesis using bounds(1) by simp
  qed
  have "V * M div D \<le> V * D div D" using bounds by (intro div_le_mono) simp
  then have s: "V * M div D \<le> V" using bounds by simp
  have 1: "unat (v div d * m) = V div D * M"
    using q v64 by (subst unat_mult_small) (simp_all add: unat_div_distrib V_def M_def D_def)
  have 2: "unat (v mod d * m) = V mod D * M"
    using r by (subst unat_mult_small) (simp_all add: unat_mod_distrib V_def M_def D_def)
  have "unat (productQuotient v m d) = V div D * M + V mod D * M div D"
    unfolding productQuotient_def using s v64 split
    by (subst unat_add_small) (simp_all add: 1 2 unat_div_distrib D_def [symmetric])
  then show ?thesis using split by (simp add: V_def M_def D_def)
qed

text \<open>
  The two checks of the room constructor that make the formations fit, read on \<^typ>\<open>nat\<close>:
  the minion square lies around the arena centre, and the participants' row is centred in it.
\<close>

definition radius_fits :: "u32 \<Rightarrow> u32 \<Rightarrow> u32 \<Rightarrow> bool" where
  "radius_fits w h r \<longleftrightarrow>
     unat r \<le> unat w div 2 \<and> unat r \<le> unat h div 2 \<and>
     unat w div 2 + unat r < unat w \<and> unat h div 2 + unat r < unat h"

definition formation_fits :: "u32 \<Rightarrow> u32 \<Rightarrow> nat \<Rightarrow> bool" where
  "formation_fits w spacing members \<longleftrightarrow>
     (let span = unat spacing * members
      in span div 2 \<le> unat w div 2 \<and> unat w div 2 + (span - span div 2) < unat w)"

lemma formation_fits_mono:
  assumes "formation_fits w s n" and "m \<le> n"
  shows "formation_fits w s m"
proof -
  define M N where "M = unat s * m" and "N = unat s * n"
  have "M \<le> N" using assms(2) by (simp add: M_def N_def)
  moreover have "N div 2 \<le> unat w div 2 \<and> unat w div 2 + (N - N div 2) < unat w"
    using assms(1) by (simp add: formation_fits_def Let_def N_def)
  ultimately have "M div 2 \<le> unat w div 2 \<and> unat w div 2 + (M - M div 2) < unat w"
    by linarith
  then show ?thesis by (simp add: formation_fits_def Let_def M_def)
qed

lemma pos_x_centered:
  assumes fits: "formation_fits w s (unat n - 1)" and i: "unat i < unat n"
  shows "unat (pos_x (centeredParticipantPosition i n w h s)) =
     unat w div 2 - (unat s * (unat n - 1)) div 2 + unat s * unat i"
proof -
  define S where "S = unat s * (unat n - 1)"
  have f: "S div 2 \<le> unat w div 2" "unat w div 2 + (S - S div 2) < unat w"
    using fits by (simp_all add: formation_fits_def S_def Let_def)
  have w: "unat w < 4294967296" by (rule unat_u32_lt)
  have n1: "unat (n - 1) = unat n - 1" using i by (cases "n = 0") (auto simp: unat_minus_one)
  have S: "S < 4294967296" using f w by linarith
  have "unat i \<le> unat n - 1" using i by simp
  then have si: "unat s * unat i \<le> S" by (simp add: S_def)
  have 1: "unat (ucast s * (n - 1) :: u64) = S"
    using S by (subst unat_mult_small) (simp_all add: unat_u32_u64 n1 S_def)
  have 2: "unat (ucast s * i :: u64) = unat s * unat i"
    using S si by (subst unat_mult_small) (simp_all add: unat_u32_u64)
  have 3: "unat (ucast (w div 2) - ucast s * (n - 1) div 2 :: u64) = unat w div 2 - S div 2"
    using f by (subst unat_sub_le) (simp_all add: word_le_nat_alt unat_div_distrib unat_u32_u64 1)
  have 4: "unat (ucast (w div 2) - ucast s * (n - 1) div 2 + ucast s * i :: u64) =
      unat w div 2 - S div 2 + unat s * unat i"
    using f w si by (subst unat_add_small) (simp_all add: 2 3)
  have 5: "unat w div 2 - S div 2 + unat s * unat i < 4294967296"
    using f w si by linarith
  show ?thesis
    unfolding S_def [symmetric] 4 [symmetric]
    using 4 5 by (simp add: centeredParticipantPosition_def Let_def unat_u32_of_u64)
qed

lemma centered_in_arena:
  assumes fits: "formation_fits w s (unat n - 1)" and i: "unat i < unat n" and h: "h \<noteq> 0"
  shows "in_arena w h (centeredParticipantPosition i n w h s)"
proof -
  define S where "S = unat s * (unat n - 1)"
  have "unat i \<le> unat n - 1" using i by simp
  then have "unat s * unat i \<le> S" by (simp add: S_def)
  moreover have "S div 2 \<le> unat w div 2" "unat w div 2 + (S - S div 2) < unat w"
    using fits by (simp_all add: formation_fits_def S_def Let_def)
  ultimately have "unat (pos_x (centeredParticipantPosition i n w h s)) < unat w"
    unfolding pos_x_centered [OF fits i] S_def [symmetric] by linarith
  moreover have "unat (h div 2) < unat h" using h unat_gt_0 [of h] by (simp add: unat_div_distrib)
  ultimately show ?thesis
    by (simp add: in_arena_def word_less_nat_alt) (simp add: centeredParticipantPosition_def Let_def)
qed

text \<open>
  The five branches of \<^const>\<open>squarePerimeterPosition\<close> as natural-number coordinates relative
  to the centre; \<open>perimeter_point\<close> is the reference walk around the square, clockwise
  from the middle of its upper side.
\<close>

definition perimeter_point :: "nat \<Rightarrow> nat \<Rightarrow> nat \<Rightarrow> nat \<Rightarrow> nat \<times> nat" where
  "perimeter_point cx cy r k =
     (if k < r then (cx + k, cy - r)
      else if k < 3 * r then (cx + r, cy - r + (k - r))
      else if k < 5 * r then (cx + r - (k - 3 * r), cy + r)
      else if k < 7 * r then (cx - r, cy + r - (k - 5 * r))
      else (cx - r + (k - 7 * r), cy - r))"

lemma unat_ucast_eqI: "unat (a :: u64) = n \<Longrightarrow> n < 4294967296 \<Longrightarrow> unat (ucast a :: u32) = n"
  using unat_u32_of_u64 by simp

lemma add_then_sub:
  fixes a b c :: u64
  assumes "unat a + unat b < 18446744073709551616" and "unat c \<le> unat b"
  shows "unat (a + b - c) = unat a + (unat b - unat c)"
proof -
  have s: "unat (a + b) = unat a + unat b" using assms(1) by (simp add: unat_add_small)
  then have "c \<le> a + b" using assms(2) by (simp add: word_le_nat_alt)
  then show ?thesis using s assms(2) by (simp add: unat_sub_le)
qed

lemma sub_then_sub:
  fixes a b c :: u64
  assumes "unat c \<le> unat b" and "unat b - unat c \<le> unat a"
  shows "unat (a - (b - c)) = unat a - (unat b - unat c)"
proof -
  have d: "unat (b - c) = unat b - unat c" using assms(1) by (simp add: unat_sub_le word_le_nat_alt)
  then have "b - c \<le> a" using assms(2) by (simp add: word_le_nat_alt)
  then show ?thesis using d by (simp add: unat_sub_le)
qed

lemma perimeter_words:
  fixes cx cy q k :: u64
  assumes F: "unat q \<le> unat cx" "unat q \<le> unat cy"
      "unat cx + unat q < 4294967296" "unat cy + unat q < 4294967296" and K8: "unat k \<le> 8 * unat q"
    and p: "p = (if k < q then \<lparr>pos_x = ucast (cx + k), pos_y = ucast (cy - q)\<rparr>
      else if k < q * 3 then \<lparr>pos_x = ucast (cx + q), pos_y = ucast (cy - q + k - q)\<rparr>
      else if k < q * 5 then \<lparr>pos_x = ucast (cx + q - (k - q * 3)), pos_y = ucast (cy + q)\<rparr>
      else if k < q * 7 then \<lparr>pos_x = ucast (cx - q), pos_y = ucast (cy + q - (k - q * 5))\<rparr>
      else \<lparr>pos_x = ucast (cx - q + k - q * 7), pos_y = ucast (cy - q)\<rparr>)"
  shows "(unat (pos_x p), unat (pos_y p)) = perimeter_point (unat cx) (unat cy) (unat q) (unat k)"
proof -
  have mul: "unat (q * 3) = 3 * unat q" "unat (q * 5) = 5 * unat q" "unat (q * 7) = 7 * unat q"
    using F by (simp_all add: unat_mult_small)
  have br: "k < q \<longleftrightarrow> unat k < unat q" "k < q * 3 \<longleftrightarrow> unat k < 3 * unat q"
      "k < q * 5 \<longleftrightarrow> unat k < 5 * unat q" "k < q * 7 \<longleftrightarrow> unat k < 7 * unat q"
    by (simp_all add: word_less_nat_alt mul)
  have sums: "unat (cx + q) = unat cx + unat q" "unat (cy + q) = unat cy + unat q"
      "unat (cx - q) = unat cx - unat q" "unat (cy - q) = unat cy - unat q"
    using F by (simp_all add: unat_add_small unat_sub_le word_le_nat_alt)
  have p1: "unat (cx + k) = unat cx + unat k" if "unat k < unat q"
    using that F by (simp add: unat_add_small)
  have p2: "unat (cy - q + k - q) = unat cy - unat q + (unat k - unat q)" if "\<not> unat k < unat q"
    using that F K8 by (subst add_then_sub) (simp_all add: sums)
  have p3: "unat (cx + q - (k - q * 3)) = unat cx + unat q - (unat k - 3 * unat q)"
    if "\<not> unat k < 3 * unat q" "unat k < 5 * unat q"
    using that F by (subst sub_then_sub) (simp_all add: sums mul)
  have p4: "unat (cy + q - (k - q * 5)) = unat cy + unat q - (unat k - 5 * unat q)"
    if "\<not> unat k < 5 * unat q" "unat k < 7 * unat q"
    using that F by (subst sub_then_sub) (simp_all add: sums mul)
  have p5: "unat (cx - q + k - q * 7) = unat cx - unat q + (unat k - 7 * unat q)"
    if "\<not> unat k < 7 * unat q"
    using that F K8 by (subst add_then_sub) (simp_all add: sums mul)
  show ?thesis
    unfolding p br perimeter_point_def
    using F K8 p1 p2 p3 p4 p5 by (auto intro!: unat_ucast_eqI simp: sums)
qed

lemma offset_le_perimeter: "i < n \<Longrightarrow> p * i div n \<le> (p :: nat)"
  by (metis div_le_mono nonzero_mult_div_cancel_right less_imp_le mult_le_mono2 not_less_zero)

lemma squarePerimeterPosition_point:
  assumes fits: "radius_fits w h r" and i: "unat i < unat n" and n: "unat n < 4294967296"
  shows "(unat (pos_x (squarePerimeterPosition i n w h r)), unat (pos_y (squarePerimeterPosition i n w h r)))
    = perimeter_point (unat w div 2) (unat h div 2) (unat r) (8 * unat r * unat i div unat n)"
proof -
  define cx cy q where "cx = (ucast (w div 2) :: u64)" and "cy = (ucast (h div 2) :: u64)"
    and "q = (ucast r :: u64)"
  define k where "k = productQuotient (q * 8) i n"
  have c: "unat cx = unat w div 2" "unat cy = unat h div 2" "unat q = unat r"
    by (simp_all add: cx_def cy_def q_def unat_u32_u64 unat_div_distrib)
  have F: "unat q \<le> unat cx" "unat q \<le> unat cy"
      "unat cx + unat q < 4294967296" "unat cy + unat q < 4294967296"
    using fits unat_u32_lt [of w] unat_u32_lt [of h] by (auto simp: radius_fits_def c)
  have q8: "unat (q * 8) = 8 * unat q" using F by (simp add: unat_mult_small)
  have K: "unat k = 8 * unat q * unat i div unat n"
    using i n unat_productQuotient [of n i "q * 8"] by (simp add: k_def q8)
  then have "unat k \<le> 8 * unat q" using offset_le_perimeter [OF i] by simp
  note point = perimeter_words [OF F this refl]
  show ?thesis
    unfolding squarePerimeterPosition_def Let_def cx_def [symmetric] cy_def [symmetric]
      q_def [symmetric] k_def [symmetric] c [symmetric]
    unfolding K [symmetric] by (rule point)
qed

lemma perimeter_point_on_square:
  assumes "R \<le> X" and "R \<le> Y" and "K \<le> 8 * R" and "perimeter_point X Y R K = (px, py)"
  shows "X - R \<le> px \<and> px \<le> X + R \<and> Y - R \<le> py \<and> py \<le> Y + R \<and>
    (px = X - R \<or> px = X + R \<or> py = Y - R \<or> py = Y + R)"
  using assms by (auto simp: perimeter_point_def split: if_splits)

lemma square_gap:
  assumes "R \<le> X" "R \<le> Y" "X - R \<le> px" "px \<le> X + R" "Y - R \<le> py" "py \<le> Y + R"
    and "px = X - R \<or> px = X + R \<or> py = Y - R \<or> py = Y + (R :: nat)"
  shows "max ((px - X) + (X - px)) ((py - Y) + (Y - py)) = R"
  using assms by (elim disjE) (auto simp: max_def)

section \<open>Properties\<close>

text \<open>
  A participant's step in any direction keeps it inside the arena and moves it by at most
  its speed on each axis, whatever the speed: the clamped word arithmetic never wraps.
\<close>

lemma moveInDirection_clamped:
  assumes "in_arena w h p"
  shows "in_arena w h (moveInDirection p d s w h) \<and>
    axis_gap (pos_x (moveInDirection p d s w h)) (pos_x p) \<le> unat s \<and>
    axis_gap (pos_y (moveInDirection p d s w h)) (pos_y p) \<le> unat s"
  using assms
  by (cases d) (auto simp: moveInDirection_def in_arena_def increase_bounds decrease_bounds)

theorem moveInDirection_clamped_witness:
  "in_arena 100 100 (moveInDirection \<lparr>pos_x = 98, pos_y = 2\<rparr> NorthEast 4 100 100) \<and>
    moveInDirection \<lparr>pos_x = 98, pos_y = 2\<rparr> NorthEast 4 100 100 = \<lparr>pos_x = 99, pos_y = 0\<rparr>"
  using moveInDirection_clamped [of 100 100 "\<lparr>pos_x = 98, pos_y = 2\<rparr>" NorthEast 4]
  by (simp add: in_arena_def moveInDirection_def increase_def decrease_def)

text \<open>
  C14: Homing movement makes progress and does not overshoot: after \<open>k\<close> steps towards a fixed
  target inside the arena each axis gap has shrunk by \<open>k\<close> times the speed, and the mover
  stands exactly on the target once that covers both gaps.
\<close>

theorem moveToward_reaches:
  assumes "in_arena w h p" and "in_arena w h t"
  shows "axis_gap (pos_x (((\<lambda>q. moveToward q t s w h) ^^ k) p)) (pos_x t) =
      axis_gap (pos_x p) (pos_x t) - k * unat s \<and>
    axis_gap (pos_y (((\<lambda>q. moveToward q t s w h) ^^ k) p)) (pos_y t) =
      axis_gap (pos_y p) (pos_y t) - k * unat s \<and>
    (axis_gap (pos_x p) (pos_x t) \<le> k * unat s \<longrightarrow> axis_gap (pos_y p) (pos_y t) \<le> k * unat s \<longrightarrow>
      ((\<lambda>q. moveToward q t s w h) ^^ k) p = t)"
proof -
  let ?f = "\<lambda>q. moveToward q t s w h"
  have wh: "w \<noteq> 0" "h \<noteq> 0" using assms(1) by (auto simp: in_arena_def)
  have inside: "in_arena w h ((?f ^^ n) p)" for n
    by (cases n) (simp_all add: assms(1) moveToward_in_arena [OF wh])
  have gaps: "axis_gap (pos_x ((?f ^^ n) p)) (pos_x t) = axis_gap (pos_x p) (pos_x t) - n * unat s \<and>
      axis_gap (pos_y ((?f ^^ n) p)) (pos_y t) = axis_gap (pos_y p) (pos_y t) - n * unat s" for n
    by (induction n) (simp_all add: moveToward_gaps [OF inside assms(2)] add.commute)
  have "(?f ^^ k) p = t"
    if "axis_gap (pos_x p) (pos_x t) \<le> k * unat s" "axis_gap (pos_y p) (pos_y t) \<le> k * unat s"
    using gaps [of k] that by (intro arena_position.equality) auto
  with gaps [of k] show ?thesis by blast
qed

theorem moveToward_reaches_witness:
  "((\<lambda>q. moveToward q \<lparr>pos_x = 50, pos_y = 50\<rparr> 4 100 100) ^^ 13) \<lparr>pos_x = 50, pos_y = 0\<rparr>
     = \<lparr>pos_x = 50, pos_y = 50\<rparr>"
  using moveToward_reaches [where w = 100 and h = 100 and p = "\<lparr>pos_x = 50, pos_y = 0\<rparr>"
      and t = "\<lparr>pos_x = 50, pos_y = 50\<rparr>" and s = 4 and k = 13]
  by (simp add: in_arena_def axis_gap_def)

text \<open>
  C15: The range test is exact: although the squared distance saturates at the largest 64-bit
  value, \<^const>\<open>isWithinRange\<close> holds exactly when the Euclidean distance of the two positions
  is at most the range, for all 32-bit positions and ranges, and it is symmetric.
\<close>

theorem isWithinRange_exact:
  "(isWithinRange l r rng \<longleftrightarrow>
     (uint (pos_x l) - uint (pos_x r))\<^sup>2 + (uint (pos_y l) - uint (pos_y r))\<^sup>2 \<le> (uint rng)\<^sup>2) \<and>
   isWithinRange l r rng = isWithinRange r l rng \<and>
   unat (squaredDistance l r) =
     min (axis_gap (pos_x l) (pos_x r) ^ 2 + axis_gap (pos_y l) (pos_y r) ^ 2) 18446744073709551615"
proof -
  have "isWithinRange l r rng \<longleftrightarrow>
      int (axis_gap (pos_x l) (pos_x r) ^ 2 + axis_gap (pos_y l) (pos_y r) ^ 2) \<le> int (unat rng ^ 2)"
    unfolding of_nat_le_iff by (rule isWithinRange_iff)
  moreover have "isWithinRange l r rng = isWithinRange r l rng"
    unfolding isWithinRange_iff by (simp add: axis_gap_commute)
  ultimately show ?thesis by (simp add: int_axis_gap unat_squaredDistance)
qed

text \<open>
  A wave's minions stand on the boundary of the square of the configured radius around the
  arena centre, inside the arena, whenever the radius passes the constructor's check: the
  64-bit offset arithmetic is the exact quotient and no coordinate wraps.
\<close>

lemma squarePerimeterPosition_on_square:
  assumes fits: "radius_fits w h r" and i: "unat i < unat n" and n: "unat n < 4294967296"
  shows "in_arena w h (squarePerimeterPosition i n w h r) \<and>
    max (axis_gap (pos_x (squarePerimeterPosition i n w h r)) (w div 2))
        (axis_gap (pos_y (squarePerimeterPosition i n w h r)) (h div 2)) = unat r"
proof -
  obtain px py where pt: "perimeter_point (unat w div 2) (unat h div 2) (unat r)
      (8 * unat r * unat i div unat n) = (px, py)" by force
  have F: "unat r \<le> unat w div 2" "unat r \<le> unat h div 2"
      "unat w div 2 + unat r < unat w" "unat h div 2 + unat r < unat h"
    using fits by (simp_all add: radius_fits_def)
  note on = perimeter_point_on_square [OF F(1,2) offset_le_perimeter [OF i] pt]
  have p: "unat (pos_x (squarePerimeterPosition i n w h r)) = px"
    "unat (pos_y (squarePerimeterPosition i n w h r)) = py"
    using squarePerimeterPosition_point [OF fits i n] pt by simp_all
  have "max ((px - unat w div 2) + (unat w div 2 - px)) ((py - unat h div 2) + (unat h div 2 - py)) = unat r"
    using on F by (intro square_gap) blast+
  moreover have "px < unat w" "py < unat h" using on F by linarith+
  ultimately show ?thesis
    by (simp add: in_arena_def axis_gap_def word_less_nat_alt p unat_div_distrib)
qed

theorem squarePerimeterPosition_on_square_witness:
  "in_arena 100 100 (squarePerimeterPosition 3 10 100 100 25) \<and>
   squarePerimeterPosition 3 10 100 100 25 = \<lparr>pos_x = 75, pos_y = 60\<rparr>"
proof
  show "in_arena 100 100 (squarePerimeterPosition 3 10 100 100 25)"
    using squarePerimeterPosition_on_square [of 100 100 25 3 10] by (simp add: radius_fits_def)
  show "squarePerimeterPosition 3 10 100 100 25 = \<lparr>pos_x = 75, pos_y = 60\<rparr>"
    by (simp add: squarePerimeterPosition_def productQuotient_def)
qed

end
