(* ===== verification/Skills.thy ===== *)
theory Skills
  imports SnF_Prelude
begin

text \<open>
  The skill catalog (\<^verbatim>\<open>src/game/skill_catalog.cppm\<close>), a player's skill loadout
  (\<^verbatim>\<open>src/game/skill_loadout.cpp\<close>), the street progression
  (\<^verbatim>\<open>src/game/street_progression.cpp\<close>) and the product catalog
  (\<^verbatim>\<open>src/game/product_catalog.cpp\<close>).
\<close>

section \<open>The skill catalog\<close>

type_synonym skill_id = u32

definition SLASH_SKILL_ID :: skill_id where "SLASH_SKILL_ID = 1"
definition ARCANE_BOLT_SKILL_ID :: skill_id where "ARCANE_BOLT_SKILL_ID = 2"

datatype attack_behavior =
  AreaAttackBehavior (area_percent: u64) (area_range: u32)
| HomingProjectileAttackBehavior (homing_percent: u64) (acquisition_range: u32)
    (speed_per_tick: u32) (hit_range: u32) (homing_lifetime: millis)

record skill_definition =
  def_skill_id :: skill_id
  def_cooldown :: millis
  def_behavior :: attack_behavior

definition SLASH_ATTACK_PERCENT :: u64 where "SLASH_ATTACK_PERCENT = 100"
definition SLASH_COOLDOWN :: millis where "SLASH_COOLDOWN = 1000"
definition SLASH_RANGE :: u32 where "SLASH_RANGE = 12"
definition ARCANE_BOLT_ATTACK_PERCENT :: u64 where "ARCANE_BOLT_ATTACK_PERCENT = 160"
definition ARCANE_BOLT_COOLDOWN :: millis where "ARCANE_BOLT_COOLDOWN = 1500"
definition ARCANE_BOLT_ACQUISITION_RANGE :: u32 where "ARCANE_BOLT_ACQUISITION_RANGE = 40"
definition ARCANE_BOLT_SPEED_PER_TICK :: u32 where "ARCANE_BOLT_SPEED_PER_TICK = 4"
definition ARCANE_BOLT_HIT_RANGE :: u32 where "ARCANE_BOLT_HIT_RANGE = 1"
definition ARCANE_BOLT_LIFETIME :: millis where "ARCANE_BOLT_LIFETIME = 3000"
definition ATTACK_PERCENT_DENOMINATOR :: u64 where "ATTACK_PERCENT_DENOMINATOR = 100"

lemmas skill_constants =
  SLASH_SKILL_ID_def ARCANE_BOLT_SKILL_ID_def SLASH_ATTACK_PERCENT_def SLASH_COOLDOWN_def
  SLASH_RANGE_def ARCANE_BOLT_ATTACK_PERCENT_def ARCANE_BOLT_COOLDOWN_def
  ARCANE_BOLT_ACQUISITION_RANGE_def ARCANE_BOLT_SPEED_PER_TICK_def ARCANE_BOLT_HIT_RANGE_def
  ARCANE_BOLT_LIFETIME_def ATTACK_PERCENT_DENOMINATOR_def

definition makeSlash :: skill_definition where
  "makeSlash = \<lparr>def_skill_id = SLASH_SKILL_ID, def_cooldown = SLASH_COOLDOWN,
     def_behavior = AreaAttackBehavior SLASH_ATTACK_PERCENT SLASH_RANGE\<rparr>"

definition makeArcaneBolt :: skill_definition where
  "makeArcaneBolt = \<lparr>def_skill_id = ARCANE_BOLT_SKILL_ID, def_cooldown = ARCANE_BOLT_COOLDOWN,
     def_behavior = HomingProjectileAttackBehavior ARCANE_BOLT_ATTACK_PERCENT
       ARCANE_BOLT_ACQUISITION_RANGE ARCANE_BOLT_SPEED_PER_TICK ARCANE_BOLT_HIT_RANGE
       ARCANE_BOLT_LIFETIME\<rparr>"

definition findSkill :: "skill_id \<Rightarrow> skill_definition option" where
  "findSkill skill_id =
     (if skill_id = SLASH_SKILL_ID then Some makeSlash
      else if skill_id = ARCANE_BOLT_SKILL_ID then Some makeArcaneBolt
      else None)"

definition calculateSkillDamage :: "skill_definition \<Rightarrow> u64 \<Rightarrow> u64" where
  "calculateSkillDamage skill attack =
     (case def_behavior skill of
        AreaAttackBehavior attack_percent _ \<Rightarrow> attack * attack_percent div ATTACK_PERCENT_DENOMINATOR
      | HomingProjectileAttackBehavior attack_percent _ _ _ _ \<Rightarrow>
          attack * attack_percent div ATTACK_PERCENT_DENOMINATOR)"

lemma findSkill_Some_iff: "findSkill s \<noteq> None \<longleftrightarrow> s = 1 \<or> s = 2"
  by (simp add: findSkill_def skill_constants)

section \<open>The skill loadout\<close>

datatype add_owned_skill_result = Added | AlreadyOwnedSkill | UnknownOwnedSkill

datatype equip_skill_result =
  SkillEquipped | SkillAlreadyEquipped | EquipSkillNotOwned | EquipUnknownSkill

datatype loadout_error = NoOwnedSkill | UnknownSkillId | DuplicateSkillId | EquippedNotOwned

record skill_loadout =
  owned_skill_ids :: "skill_id list"
  equipped_skill_id :: skill_id

definition default_loadout :: skill_loadout where
  "default_loadout = \<lparr>owned_skill_ids = [SLASH_SKILL_ID], equipped_skill_id = SLASH_SKILL_ID\<rparr>"

definition hasOwnedSkillId :: "skill_loadout \<Rightarrow> skill_id \<Rightarrow> bool" where
  "hasOwnedSkillId l skill_id =
     (let position = lower_bound id (owned_skill_ids l) skill_id
      in position \<noteq> length (owned_skill_ids l) \<and> owned_skill_ids l ! position = skill_id)"

text \<open>The validation loop of the constructor; the first argument is the previous element.\<close>

fun check_owned :: "skill_id option \<Rightarrow> skill_id list \<Rightarrow> loadout_error option" where
  "check_owned previous [] = None"
| "check_owned previous (skill_id # rest) =
     (if findSkill skill_id = None then Some UnknownSkillId
      else if previous = Some skill_id then Some DuplicateSkillId
      else check_owned (Some skill_id) rest)"

definition make_loadout :: "skill_id list \<Rightarrow> skill_id \<Rightarrow> loadout_error + skill_loadout" where
  "make_loadout owned equipped =
     (let l = \<lparr>owned_skill_ids = sort owned, equipped_skill_id = equipped\<rparr>
      in if owned_skill_ids l = [] then Inl NoOwnedSkill
         else case check_owned None (owned_skill_ids l) of
           Some e \<Rightarrow> Inl e
         | None \<Rightarrow> if \<not> hasOwnedSkillId l equipped then Inl EquippedNotOwned else Inr l)"

definition addOwnedSkillId :: "skill_loadout \<Rightarrow> skill_id \<Rightarrow> add_owned_skill_result \<times> skill_loadout" where
  "addOwnedSkillId l skill_id =
     (if findSkill skill_id = None then (UnknownOwnedSkill, l)
      else let position = lower_bound id (owned_skill_ids l) skill_id
           in if position \<noteq> length (owned_skill_ids l) \<and> owned_skill_ids l ! position = skill_id
              then (AlreadyOwnedSkill, l)
              else (Added, l\<lparr>owned_skill_ids := vec_insert position skill_id (owned_skill_ids l)\<rparr>))"

definition equipSkillId :: "skill_loadout \<Rightarrow> skill_id \<Rightarrow> equip_skill_result \<times> skill_loadout" where
  "equipSkillId l skill_id =
     (if findSkill skill_id = None then (EquipUnknownSkill, l)
      else if \<not> hasOwnedSkillId l skill_id then (EquipSkillNotOwned, l)
      else if equipped_skill_id l = skill_id then (SkillAlreadyEquipped, l)
      else (SkillEquipped, l\<lparr>equipped_skill_id := skill_id\<rparr>))"

interpretation owned: sorted_table "id :: skill_id \<Rightarrow> skill_id" "locate id"
  "\<lambda>x xs. vec_insert (lower_bound id xs (id x)) x xs" vec_erase "key_sorted id"
  by (rule sorted_table_vec)

definition loadout_wf :: "skill_loadout \<Rightarrow> bool" where
  "loadout_wf l \<longleftrightarrow>
     key_sorted id (owned_skill_ids l) \<and>
     (\<forall>s \<in> set (owned_skill_ids l). findSkill s \<noteq> None) \<and>
     equipped_skill_id l \<in> set (owned_skill_ids l)"

lemma hasOwnedSkillId_locate: "hasOwnedSkillId l s \<longleftrightarrow> locate id (owned_skill_ids l) s \<noteq> None"
  by (simp add: hasOwnedSkillId_def locate_def Let_def)

lemma hasOwnedSkillId_iff:
  "key_sorted id (owned_skill_ids l) \<Longrightarrow> hasOwnedSkillId l s \<longleftrightarrow> s \<in> set (owned_skill_ids l)"
  by (simp add: hasOwnedSkillId_locate owned.find_None)

lemma addOwnedSkillId_wf: "loadout_wf l \<Longrightarrow> loadout_wf (snd (addOwnedSkillId l s))"
  using owned.invar_add [of "owned_skill_ids l" s]
  by (auto simp: addOwnedSkillId_def loadout_wf_def Let_def locate_def set_vec_insert)

lemma equipSkillId_wf: "loadout_wf l \<Longrightarrow> loadout_wf (snd (equipSkillId l s))"
  by (auto simp: equipSkillId_def loadout_wf_def hasOwnedSkillId_iff)

lemma default_loadout_wf [simp]: "loadout_wf default_loadout"
  by (simp add: loadout_wf_def default_loadout_def findSkill_def)

lemma check_owned_None:
  "sorted xs \<Longrightarrow> (\<forall>p. prev = Some p \<longrightarrow> (\<forall>x \<in> set xs. p \<le> x)) \<Longrightarrow>
   check_owned prev xs = None \<longleftrightarrow>
     (\<forall>x \<in> set xs. findSkill x \<noteq> None) \<and> distinct xs \<and> (\<forall>p. prev = Some p \<longrightarrow> p \<notin> set xs)"
proof (induction xs arbitrary: prev)
  case (Cons x xs)
  have "check_owned (Some x) xs = None \<longleftrightarrow>
      (\<forall>y \<in> set xs. findSkill y \<noteq> None) \<and> distinct xs \<and> x \<notin> set xs"
    using Cons.IH [of "Some x"] Cons.prems(1) by simp
  moreover have "p \<notin> set xs" if "prev = Some p" "p \<noteq> x" for p
    using that Cons.prems by (metis antisym list.set_intros(1) sorted_simps(2))
  ultimately show ?case by auto
qed simp

lemma key_sorted_id_iff: "key_sorted id xs \<longleftrightarrow> sorted xs \<and> distinct xs"
  by (simp add: key_sorted_def strict_sorted_iff)

lemma make_loadout_Inr:
  "make_loadout owned equipped = Inr l \<longleftrightarrow>
     (\<forall>s \<in> set owned. findSkill s \<noteq> None) \<and> distinct owned \<and> equipped \<in> set owned \<and>
     l = \<lparr>owned_skill_ids = sort owned, equipped_skill_id = equipped\<rparr>"
proof -
  let ?l = "\<lparr>owned_skill_ids = sort owned, equipped_skill_id = equipped\<rparr>"
  have has: "hasOwnedSkillId ?l equipped \<longleftrightarrow> equipped \<in> set owned" if "distinct owned"
    using that by (subst hasOwnedSkillId_iff) (auto simp: key_sorted_id_iff)
  have chk: "check_owned None (sort owned) = None \<longleftrightarrow>
      (\<forall>s \<in> set owned. findSkill s \<noteq> None) \<and> distinct owned"
    using check_owned_None [of "sort owned" None] by simp
  have ne: "sort owned = [] \<longleftrightarrow> owned = []" by (metis set_empty set_sort)
  show ?thesis
    unfolding make_loadout_def Let_def using has chk ne by (auto split: option.splits)
qed

section \<open>Street progression\<close>

record combat_stats =
  stat_attack :: u64
  stat_health :: u64

definition EXPERIENCE_PER_STREET_LEVEL :: u64 where "EXPERIENCE_PER_STREET_LEVEL = 1000"
definition MAX_STREET_LEVEL :: u64 where "MAX_STREET_LEVEL = 30"
definition BASE_ATTACK :: u64 where "BASE_ATTACK = 10"
definition BASE_HEALTH :: u64 where "BASE_HEALTH = 100"
definition STAT_GROWTH_NUMERATOR :: u64 where "STAT_GROWTH_NUMERATOR = 1"
definition STAT_GROWTH_DENOMINATOR :: u64 where "STAT_GROWTH_DENOMINATOR = 10"

lemmas progression_constants =
  EXPERIENCE_PER_STREET_LEVEL_def MAX_STREET_LEVEL_def BASE_ATTACK_def BASE_HEALTH_def
  STAT_GROWTH_NUMERATOR_def STAT_GROWTH_DENOMINATOR_def

definition clamp :: "'a::linorder \<Rightarrow> 'a \<Rightarrow> 'a \<Rightarrow> 'a" where
  "clamp v lo hi = (if v < lo then lo else if hi < v then hi else v)"

definition grown :: "u64 \<Rightarrow> u64 \<Rightarrow> u64" where
  "grown base levels_gained =
     base + (levels_gained * base * STAT_GROWTH_NUMERATOR) div STAT_GROWTH_DENOMINATOR"

definition streetLevel :: "u64 \<Rightarrow> u64" where
  "streetLevel experience = min (experience div EXPERIENCE_PER_STREET_LEVEL + 1) MAX_STREET_LEVEL"

definition combatStats :: "u64 \<Rightarrow> combat_stats" where
  "combatStats level =
     (let levels_gained = clamp level 1 MAX_STREET_LEVEL - 1
      in \<lparr>stat_attack = grown BASE_ATTACK levels_gained, stat_health = grown BASE_HEALTH levels_gained\<rparr>)"

lemma unat_streetLevel: "unat (streetLevel e) = min (unat e div 1000 + 1) 30"
proof -
  have "unat e div 1000 + 1 < 2 ^ 64" using unat_u64_lt [of e] by simp
  then have "unat (e div 1000 + 1) = unat e div 1000 + 1"
    by (subst unat_add_small) (simp_all add: unat_div_distrib)
  then show ?thesis by (simp add: streetLevel_def progression_constants unat_min)
qed

lemma unat_clamp: "unat (clamp v lo hi) = clamp (unat v) (unat lo) (unat (hi :: u64))"
  by (simp add: clamp_def word_less_nat_alt)

lemma unat_grown:
  assumes "unat base \<le> 100" and "unat l \<le> 30"
  shows "unat (grown base l) = unat base + (unat l * unat base) div 10"
proof -
  have m: "unat l * unat base \<le> 3000" using mult_le_mono [OF assms(2,1)] by simp
  then have "unat (l * base) = unat l * unat base" by (subst unat_mult_small) simp_all
  then have "unat (l * base div 10) = unat l * unat base div 10" by (simp add: unat_div_distrib)
  then show ?thesis
    using m assms by (simp add: grown_def progression_constants unat_add_small)
qed

lemma combatStats_closed:
  defines "L v \<equiv> clamp (unat v) 1 30"
  shows "unat (stat_attack (combatStats v)) = 10 + (L v - 1)"
    and "unat (stat_health (combatStats v)) = 100 + 10 * (L v - 1)"
proof -
  have c: "unat (clamp v 1 (30 :: u64)) = L v" by (simp add: unat_clamp L_def)
  have L: "1 \<le> L v" "L v \<le> 30" by (simp_all add: L_def clamp_def)
  have g: "unat (clamp v 1 (30 :: u64) - 1) = L v - 1"
    using L c by (subst unat_sub_le) (simp_all add: word_le_nat_alt)
  show "unat (stat_attack (combatStats v)) = 10 + (L v - 1)"
    using L by (simp add: combatStats_def progression_constants unat_grown g Let_def)
  show "unat (stat_health (combatStats v)) = 100 + 10 * (L v - 1)"
    using L by (simp add: combatStats_def progression_constants unat_grown g Let_def)
qed

section \<open>The product catalog\<close>

type_synonym product_id = u32

datatype product_reward =
  AddPurchasedItemCountReward (reward_item_count: u64)
| AddOwnedSkillReward (reward_skill_id: skill_id)

record product_definition =
  def_product :: product_id
  def_price :: u64
  def_reward :: product_reward

definition BASIC_PRODUCT :: product_id where "BASIC_PRODUCT = 1"
definition BASIC_PRODUCT_PRICE :: u64 where "BASIC_PRODUCT_PRICE = 100"
definition BASIC_PRODUCT_GRANT_COUNT :: u64 where "BASIC_PRODUCT_GRANT_COUNT = 1"
definition ARCANE_BOLT_PRODUCT :: product_id where "ARCANE_BOLT_PRODUCT = 2"
definition ARCANE_BOLT_PRODUCT_PRICE :: u64 where "ARCANE_BOLT_PRODUCT_PRICE = 500"
definition INITIAL_CURRENCY_BALANCE :: u64 where "INITIAL_CURRENCY_BALANCE = 1000"

lemmas product_constants =
  BASIC_PRODUCT_def BASIC_PRODUCT_PRICE_def BASIC_PRODUCT_GRANT_COUNT_def
  ARCANE_BOLT_PRODUCT_def ARCANE_BOLT_PRODUCT_PRICE_def INITIAL_CURRENCY_BALANCE_def

definition findProduct :: "product_id \<Rightarrow> product_definition option" where
  "findProduct product =
     (if product = BASIC_PRODUCT then
        Some \<lparr>def_product = BASIC_PRODUCT, def_price = BASIC_PRODUCT_PRICE,
              def_reward = AddPurchasedItemCountReward BASIC_PRODUCT_GRANT_COUNT\<rparr>
      else if product = ARCANE_BOLT_PRODUCT then
        Some \<lparr>def_product = ARCANE_BOLT_PRODUCT, def_price = ARCANE_BOLT_PRODUCT_PRICE,
              def_reward = AddOwnedSkillReward ARCANE_BOLT_SKILL_ID\<rparr>
      else None)"

section \<open>Properties\<close>

text \<open>
  C16: The validating constructor of a loadout accepts exactly the lists of distinct catalog
  skills that contain the equipped one, and stores them sorted; the accepted loadout is
  well-formed, and on a well-formed loadout adding and equipping a skill keep it well-formed
  and the binary search decides ownership.
\<close>

theorem loadout_well_formed:
  "(case make_loadout owned equipped of
      Inr l \<Rightarrow> (\<forall>s \<in> set owned. findSkill s \<noteq> None) \<and> distinct owned \<and> equipped \<in> set owned \<and>
        owned_skill_ids l = sort owned \<and> equipped_skill_id l = equipped \<and> loadout_wf l
    | Inl e \<Rightarrow> \<not> ((\<forall>s \<in> set owned. findSkill s \<noteq> None) \<and> distinct owned \<and> equipped \<in> set owned)) \<and>
   (loadout_wf l \<longrightarrow>
      loadout_wf (snd (addOwnedSkillId l s)) \<and> loadout_wf (snd (equipSkillId l s)) \<and>
      (hasOwnedSkillId l s \<longleftrightarrow> s \<in> set (owned_skill_ids l)))"
proof
  show "case make_loadout owned equipped of
      Inr l \<Rightarrow> (\<forall>s \<in> set owned. findSkill s \<noteq> None) \<and> distinct owned \<and> equipped \<in> set owned \<and>
        owned_skill_ids l = sort owned \<and> equipped_skill_id l = equipped \<and> loadout_wf l
    | Inl e \<Rightarrow> \<not> ((\<forall>s \<in> set owned. findSkill s \<noteq> None) \<and> distinct owned \<and> equipped \<in> set owned)"
  proof (cases "make_loadout owned equipped")
    case (Inl e)
    then show ?thesis using make_loadout_Inr [of owned equipped] by auto
  next
    case (Inr l)
    then show ?thesis using make_loadout_Inr [of owned equipped l]
      by (simp add: loadout_wf_def key_sorted_id_iff)
  qed
  show "loadout_wf l \<longrightarrow>
      loadout_wf (snd (addOwnedSkillId l s)) \<and> loadout_wf (snd (equipSkillId l s)) \<and>
      (hasOwnedSkillId l s \<longleftrightarrow> s \<in> set (owned_skill_ids l))"
    by (auto simp: addOwnedSkillId_wf equipSkillId_wf) (simp_all add: loadout_wf_def hasOwnedSkillId_iff)
qed

theorem loadout_well_formed_witness:
  "make_loadout [2, 1] 2 = Inr \<lparr>owned_skill_ids = [1, 2], equipped_skill_id = 2\<rparr> \<and>
   loadout_wf (snd (addOwnedSkillId default_loadout 2)) \<and>
   addOwnedSkillId default_loadout 2 = (Added, \<lparr>owned_skill_ids = [1, 2], equipped_skill_id = 1\<rparr>)"
proof -
  have "loadout_wf (snd (addOwnedSkillId default_loadout 2))"
    using loadout_well_formed [of "[2, 1]" 2 default_loadout 2] by simp
  moreover have "make_loadout [2, 1] 2 = Inr \<lparr>owned_skill_ids = [1, 2], equipped_skill_id = 2\<rparr>"
    by (simp add: make_loadout_Inr findSkill_def skill_constants word_le_nat_alt)
  ultimately show ?thesis
    by (simp add: addOwnedSkillId_def default_loadout_def findSkill_def skill_constants
        lower_bound_def vec_insert_def)
qed

text \<open>
  C17: For every 64-bit experience value the level lies between 1 and 30, and the derived
  attack and health are exactly the base value plus ten percent per level gained: none of the
  intermediate products wraps. More experience never lowers a stat.
\<close>

theorem combat_stats_exact:
  "1 \<le> unat (streetLevel e) \<and> unat (streetLevel e) \<le> 30 \<and>
   unat (stat_attack (combatStats (streetLevel e))) = 10 + min (unat e div 1000) 29 \<and>
   unat (stat_health (combatStats (streetLevel e))) = 100 + 10 * min (unat e div 1000) 29 \<and>
   (unat e \<le> unat e' \<longrightarrow>
      unat (stat_attack (combatStats (streetLevel e))) \<le> unat (stat_attack (combatStats (streetLevel e'))) \<and>
      unat (stat_health (combatStats (streetLevel e))) \<le> unat (stat_health (combatStats (streetLevel e'))))"
proof -
  have L: "clamp (unat (streetLevel v)) 1 30 - 1 = min (unat v div 1000) 29" for v
    by (auto simp: unat_streetLevel clamp_def)
  have "min (unat e div 1000) 29 \<le> min (unat e' div 1000) (29::nat)" if "unat e \<le> unat e'"
    using div_le_mono [OF that, of 1000] by simp
  then show ?thesis
    unfolding combatStats_closed L by (simp add: unat_streetLevel)
qed

theorem combat_stats_exact_witness:
  "stat_attack (combatStats (streetLevel 5300)) = 15 \<and> stat_health (combatStats (streetLevel 5300)) = 150 \<and>
   unat (stat_attack (combatStats (streetLevel 5300))) \<le> unat (stat_attack (combatStats (streetLevel 999999)))"
  using combat_stats_exact [of 5300 999999]
  by (simp add: word_unat_eq_iff)

end
