(* ===== verification/Player.thy ===== *)
theory Player
  imports Skills
begin

unbundle bit_operations_syntax

text \<open>
  The player actor's domain state (\<^verbatim>\<open>src/game/player.cpp\<close>): identity, economy, progression and
  skills with their dirty bits, the idempotent purchase transaction with its bounded evidence
  table, the snapshot taken for persistence and its restoration.
\<close>

section \<open>State\<close>

datatype player_state_component = SessionComponent | EconomyComponent | ProgressionComponent | SkillsComponent

primrec componentMask :: "player_state_component \<Rightarrow> u8" where
  "componentMask SessionComponent = 1"
| "componentMask EconomyComponent = 2"
| "componentMask ProgressionComponent = 4"
| "componentMask SkillsComponent = 8"

datatype purchase_status =
  Committed | InsufficientFunds | ProductNotFound | InventoryCapacityExceeded | IdempotencyConflict
| IdempotencyCapacityExceeded | Unavailable | AlreadyOwned

record purchase_transaction_result =
  tx_status :: purchase_status
  tx_player :: player_id
  tx_idempotency_key :: u64
  tx_product :: product_id
  tx_currency_balance :: u64
  tx_purchased_item_count :: u64
  tx_replayed :: bool

record purchase_evidence =
  evidence_product :: product_id
  evidence_result :: purchase_transaction_result

record player_state =
  identity :: "player_id option"
  handled_command_count :: u64
  last_location :: "player_location option"
  currency_balance :: u64
  purchased_item_count :: u64
  street_experience :: u64
  state_loadout :: skill_loadout
  dirty_components :: u8

text \<open>
  The evidence table is an \<open>unordered_map\<close> that is only searched, sized, extended and cleared;
  an association list with one entry per key carries the same information.
\<close>

record player =
  pl_state :: player_state
  max_purchase_idempotency_records :: u64
  evidence :: "(u64 \<times> purchase_evidence) list"

record player_record =
  rec_player :: player_id
  rec_handled_command_count :: u64
  rec_last_location :: "player_location option"
  rec_currency_balance :: u64
  rec_purchased_item_count :: u64
  rec_street_experience :: u64
  rec_skill_loadout :: skill_loadout

section \<open>Commands and results\<close>

datatype player_command =
  PingCommand (ping_payload: bytes)
| AuthenticateCommand (auth_player: player_id)
| PurchaseCommand (purchase_key: u64) (purchase_product: product_id)
| JoinRoomRequest (join_room: room_id)
| EquipSkillCommand (equip_skill: skill_id)

datatype equip_skill_status = Equipped | AlreadyEquipped | SkillNotOwned | UnknownSkillStatus

record room_join_request =
  rj_room :: room_id
  rj_stats :: combat_stats
  rj_equipped_skill_id :: skill_id

datatype player_response =
  PongResponse bytes
| AuthenticatedResponse player_id
| PurchaseResponse purchase_transaction_result
| EquipSkillResponse equip_skill_status skill_id

record player_result =
  responses :: "player_response list"
  room_join :: "room_join_request option"

datatype player_error =
  RecordIdentityMismatch | ZeroIdempotencyCapacity | ProvisionalSnapshot | AuthenticateOtherActor
| ProvisionalJoinRoom | ProvisionalEquipSkill | ProvisionalPurchase

section \<open>Construction, persistence and dirty tracking\<close>

definition DEFAULT_PURCHASE_IDEMPOTENCY_CAPACITY :: u64 where
  "DEFAULT_PURCHASE_IDEMPOTENCY_CAPACITY = 1024"

definition initial_state :: "player_id option \<Rightarrow> player_state" where
  "initial_state who = \<lparr>identity = who, handled_command_count = 0, last_location = None,
     currency_balance = INITIAL_CURRENCY_BALANCE, purchased_item_count = 0, street_experience = 0,
     state_loadout = default_loadout, dirty_components = 0\<rparr>"

definition new_player :: "player_id option \<Rightarrow> player" where
  "new_player who = \<lparr>pl_state = initial_state who,
     max_purchase_idempotency_records = DEFAULT_PURCHASE_IDEMPOTENCY_CAPACITY, evidence = []\<rparr>"

definition new_player_with :: "player_id option \<Rightarrow> u64 \<Rightarrow> player_error + player" where
  "new_player_with who capacity =
     (if capacity = 0 then Inl ZeroIdempotencyCapacity
      else Inr \<lparr>pl_state = initial_state who, max_purchase_idempotency_records = capacity, evidence = []\<rparr>)"

definition mark_dirty :: "u8 \<Rightarrow> player_state \<Rightarrow> player_state" where
  "mark_dirty components s = s\<lparr>dirty_components := dirty_components s OR components\<rparr>"

definition restore :: "player \<Rightarrow> player_record \<Rightarrow> player_error + player" where
  "restore p r =
     (if identity (pl_state p) \<noteq> Some (rec_player r) then Inl RecordIdentityMismatch
      else Inr (p\<lparr>pl_state := (pl_state p)\<lparr>
             handled_command_count := rec_handled_command_count r,
             last_location := rec_last_location r,
             currency_balance := rec_currency_balance r,
             purchased_item_count := rec_purchased_item_count r,
             street_experience := rec_street_experience r,
             state_loadout := rec_skill_loadout r,
             dirty_components := 0\<rparr>,
           evidence := []\<rparr>))"

definition setLastLocation :: "player \<Rightarrow> player_location option \<Rightarrow> player" where
  "setLastLocation p location =
     p\<lparr>pl_state := mark_dirty (componentMask SessionComponent) ((pl_state p)\<lparr>last_location := location\<rparr>)\<rparr>"

definition grantStreetExperience :: "player \<Rightarrow> u64 \<Rightarrow> player" where
  "grantStreetExperience p experience =
     (let total = street_experience (pl_state p);
          total' = (if experience > UINT64_MAX - total then UINT64_MAX else total + experience)
      in p\<lparr>pl_state := mark_dirty (componentMask ProgressionComponent)
             ((pl_state p)\<lparr>street_experience := total'\<rparr>)\<rparr>)"

definition flushable :: u8 where
  "flushable = componentMask EconomyComponent OR componentMask ProgressionComponent OR
     componentMask SkillsComponent"

definition hasFlushableDirtyState :: "player \<Rightarrow> bool" where
  "hasFlushableDirtyState p \<longleftrightarrow> dirty_components (pl_state p) AND flushable \<noteq> 0"

definition snapshot :: "player \<Rightarrow> player_error + player_record" where
  "snapshot p =
     (case identity (pl_state p) of
        None \<Rightarrow> Inl ProvisionalSnapshot
      | Some who \<Rightarrow> Inr \<lparr>rec_player = who,
          rec_handled_command_count = handled_command_count (pl_state p),
          rec_last_location = last_location (pl_state p),
          rec_currency_balance = currency_balance (pl_state p),
          rec_purchased_item_count = purchased_item_count (pl_state p),
          rec_street_experience = street_experience (pl_state p),
          rec_skill_loadout = state_loadout (pl_state p)\<rparr>)"

text \<open>The snapshot, the mask of the components it cleared, and the player afterwards.\<close>

definition takeDirtySnapshot :: "player \<Rightarrow> player_error + (player_record option \<times> u8 \<times> player)" where
  "takeDirtySnapshot p =
     (if \<not> hasFlushableDirtyState p then Inr (None, 0, p)
      else let components = dirty_components (pl_state p)
           in case snapshot p of
                Inl e \<Rightarrow> Inl e
              | Inr r \<Rightarrow> Inr (Some r, components, p\<lparr>pl_state := (pl_state p)\<lparr>dirty_components := 0\<rparr>\<rparr>))"

definition restoreDirtyComponents :: "player \<Rightarrow> u8 \<Rightarrow> player" where
  "restoreDirtyComponents p components = p\<lparr>pl_state := mark_dirty components (pl_state p)\<rparr>"

section \<open>Command handlers\<close>

definition one_response :: "player_response \<Rightarrow> player_result" where
  "one_response r = \<lparr>responses = [r], room_join = None\<rparr>"

definition handlePing :: "player \<Rightarrow> bytes \<Rightarrow> player_error + (player_result \<times> player)" where
  "handlePing p payload = Inr (one_response (PongResponse payload), p)"

definition handleAuthenticate :: "player \<Rightarrow> player_id \<Rightarrow> player_error + (player_result \<times> player)" where
  "handleAuthenticate p who =
     (if identity (pl_state p) \<noteq> Some who then Inl AuthenticateOtherActor
      else Inr (one_response (AuthenticatedResponse who), p))"

definition handleJoinRoom :: "player \<Rightarrow> room_id \<Rightarrow> player_error + (player_result \<times> player)" where
  "handleJoinRoom p room =
     (if identity (pl_state p) = None then Inl ProvisionalJoinRoom
      else Inr (\<lparr>responses = [], room_join = Some \<lparr>rj_room = room,
                  rj_stats = combatStats (streetLevel (street_experience (pl_state p))),
                  rj_equipped_skill_id = equipped_skill_id (state_loadout (pl_state p))\<rparr>\<rparr>, p))"

definition handleEquipSkill :: "player \<Rightarrow> skill_id \<Rightarrow> player_error + (player_result \<times> player)" where
  "handleEquipSkill p skill =
     (if identity (pl_state p) = None then Inl ProvisionalEquipSkill
      else let (outcome, loadout) = equipSkillId (state_loadout (pl_state p)) skill;
               s = (pl_state p)\<lparr>state_loadout := loadout\<rparr>;
               (status, s') = (case outcome of
                   SkillEquipped \<Rightarrow> (Equipped, mark_dirty (componentMask SkillsComponent) s)
                 | SkillAlreadyEquipped \<Rightarrow> (AlreadyEquipped, s)
                 | EquipSkillNotOwned \<Rightarrow> (SkillNotOwned, s)
                 | EquipUnknownSkill \<Rightarrow> (UnknownSkillStatus, s))
           in Inr (one_response (EquipSkillResponse status (equipped_skill_id (state_loadout s'))),
                   p\<lparr>pl_state := s'\<rparr>))"

text \<open>
  The reward visitor of a purchase: the status and the next balance, item count and loadout,
  and whether the loadout changed. A refused reward leaves balance and item count as they were.
\<close>

definition apply_reward ::
  "product_definition \<Rightarrow> u64 \<Rightarrow> u64 \<Rightarrow> skill_loadout \<Rightarrow>
     purchase_status \<times> u64 \<times> u64 \<times> skill_loadout \<times> bool" where
  "apply_reward d balance items loadout =
     (case def_reward d of
        AddPurchasedItemCountReward item_count \<Rightarrow>
          if balance < def_price d then (InsufficientFunds, balance, items, loadout, False)
          else if items > UINT64_MAX - item_count then (InventoryCapacityExceeded, balance, items, loadout, False)
          else (Committed, balance - def_price d, items + item_count, loadout, False)
      | AddOwnedSkillReward skill \<Rightarrow>
          (let (add_result, loadout') = addOwnedSkillId loadout skill
           in case add_result of
                AlreadyOwnedSkill \<Rightarrow> (AlreadyOwned, balance, items, loadout', False)
              | UnknownOwnedSkill \<Rightarrow> (ProductNotFound, balance, items, loadout', False)
              | Added \<Rightarrow>
                  if balance < def_price d then (InsufficientFunds, balance, items, loadout', False)
                  else (Committed, balance - def_price d, items, loadout', True)))"

definition handlePurchase :: "player \<Rightarrow> u64 \<Rightarrow> product_id \<Rightarrow> player_error + (player_result \<times> player)" where
  "handlePurchase p idempotency_key product =
     (let s = pl_state p in
      case identity s of
        None \<Rightarrow> Inl ProvisionalPurchase
      | Some who \<Rightarrow>
          let base = \<lparr>tx_status = ProductNotFound, tx_player = who, tx_idempotency_key = idempotency_key,
                tx_product = product, tx_currency_balance = currency_balance s,
                tx_purchased_item_count = purchased_item_count s, tx_replayed = False\<rparr>
          in case map_of (evidence p) idempotency_key of
               Some existing \<Rightarrow>
                 let result =
                   (if evidence_product existing \<noteq> product then base\<lparr>tx_status := IdempotencyConflict\<rparr>
                    else (evidence_result existing)\<lparr>tx_currency_balance := currency_balance s,
                           tx_purchased_item_count := purchased_item_count s, tx_replayed := True\<rparr>)
                 in Inr (one_response (PurchaseResponse result), p)
             | None \<Rightarrow>
                 (case findProduct product of
                    None \<Rightarrow> Inr (one_response (PurchaseResponse (base\<lparr>tx_status := ProductNotFound\<rparr>)), p)
                  | Some definition_of \<Rightarrow>
                      if length (evidence p) \<ge> unat (max_purchase_idempotency_records p)
                      then Inr (one_response (PurchaseResponse (base\<lparr>tx_status := IdempotencyCapacityExceeded\<rparr>)), p)
                      else
                        let (status, next_balance, next_items, next_loadout, skills_changed) =
                              apply_reward definition_of (currency_balance s) (purchased_item_count s) (state_loadout s);
                            result = base\<lparr>tx_status := status, tx_currency_balance := next_balance,
                              tx_purchased_item_count := next_items\<rparr>;
                            evidence' = (idempotency_key, \<lparr>evidence_product = product, evidence_result = result\<rparr>) # evidence p;
                            s' = (if status = Committed then
                                    let paid = mark_dirty (componentMask EconomyComponent)
                                          (s\<lparr>currency_balance := next_balance, purchased_item_count := next_items\<rparr>)
                                    in if skills_changed
                                       then mark_dirty (componentMask SkillsComponent) (paid\<lparr>state_loadout := next_loadout\<rparr>)
                                       else paid
                                  else s)
                        in Inr (one_response (PurchaseResponse result), p\<lparr>pl_state := s', evidence := evidence'\<rparr>)))"

primrec handleCommand :: "player \<Rightarrow> player_command \<Rightarrow> player_error + (player_result \<times> player)" where
  "handleCommand p (PingCommand payload) = handlePing p payload"
| "handleCommand p (AuthenticateCommand who) = handleAuthenticate p who"
| "handleCommand p (PurchaseCommand k product) = handlePurchase p k product"
| "handleCommand p (JoinRoomRequest room) = handleJoinRoom p room"
| "handleCommand p (EquipSkillCommand skill) = handleEquipSkill p skill"

definition handle :: "player \<Rightarrow> player_command \<Rightarrow> player_error + (player_result \<times> player)" where
  "handle p command =
     (case handleCommand p command of
        Inl e \<Rightarrow> Inl e
      | Inr (result, p') \<Rightarrow>
          Inr (result, p'\<lparr>pl_state := (pl_state p')\<lparr>handled_command_count := handled_command_count (pl_state p') + 1\<rparr>\<rparr>))"

text \<open>A command that throws leaves the player as it was; the machine step records the error.\<close>

definition player_step :: "player \<Rightarrow> player_command \<Rightarrow> (player_error + player_result) \<times> player" where
  "player_step p command =
     (case handle p command of Inl e \<Rightarrow> (Inl e, p) | Inr (result, p') \<Rightarrow> (Inr result, p'))"

section \<open>Lemmas on the handlers\<close>

lemma mark_dirty_simps [simp]:
  "identity (mark_dirty m s) = identity s" "currency_balance (mark_dirty m s) = currency_balance s"
  "purchased_item_count (mark_dirty m s) = purchased_item_count s"
  "street_experience (mark_dirty m s) = street_experience s" "state_loadout (mark_dirty m s) = state_loadout s"
  "handled_command_count (mark_dirty m s) = handled_command_count s" "last_location (mark_dirty m s) = last_location s"
  "dirty_components (mark_dirty m s) = dirty_components s OR m"
  by (simp_all add: mark_dirty_def)

lemma one_response_inject [simp]: "one_response a = one_response b \<longleftrightarrow> a = b"
  by (simp add: one_response_def)

text \<open>What the reward visitor may return: a full payment, or nothing changed but a reason.\<close>

lemma apply_reward_paid:
  assumes "apply_reward d b i l = (Committed, b', i', l', ch)"
  shows "unat b' + unat (def_price d) = unat b" and "loadout_wf l \<Longrightarrow> loadout_wf l'"
    and "ch \<or> l' = l"
  using assms addOwnedSkillId_wf [of l "reward_skill_id (def_reward d)"]
  by (auto simp: apply_reward_def word_less_nat_alt unat_sub_le word_le_nat_alt
      split: product_reward.splits if_splits prod.splits add_owned_skill_result.splits)

lemma apply_reward_refused:
  assumes "apply_reward d b i l = (st, b', i', l', ch)" and "st \<noteq> Committed"
  shows "b' = b" and "i' = i"
  using assms
  by (auto simp: apply_reward_def Let_def
      split: product_reward.splits if_splits prod.splits add_owned_skill_result.splits)

text \<open>
  The five ways a purchase ends, as one elimination rule; every property of purchases is read
  off it.
\<close>

lemma handlePurchase_elim:
  assumes "handlePurchase p k product = Inr (r, p')"
  obtains (Replayed) e who where
      "identity (pl_state p) = Some who" "map_of (evidence p) k = Some e" "evidence_product e = product" "p' = p"
      "r = one_response (PurchaseResponse ((evidence_result e)\<lparr>
         tx_currency_balance := currency_balance (pl_state p),
         tx_purchased_item_count := purchased_item_count (pl_state p), tx_replayed := True\<rparr>))"
  | (Refused) t where
      "p' = p" "r = one_response (PurchaseResponse t)" "tx_status t \<noteq> Committed" "\<not> tx_replayed t"
      "tx_product t = product" "tx_idempotency_key t = k" "tx_currency_balance t = currency_balance (pl_state p)"
      "tx_purchased_item_count t = purchased_item_count (pl_state p)"
      "map_of (evidence p) k = None \<longrightarrow> tx_status t \<in> {ProductNotFound, IdempotencyCapacityExceeded}"
      "map_of (evidence p) k \<noteq> None \<longrightarrow> tx_status t = IdempotencyConflict"
      "map_of (evidence p) k = None \<longrightarrow>
         findProduct product = None \<or> length (evidence p) \<ge> unat (max_purchase_idempotency_records p)"
  | (Recorded) d who st b' i' l' ch t where
      "identity (pl_state p) = Some who" "map_of (evidence p) k = None" "findProduct product = Some d"
      "length (evidence p) < unat (max_purchase_idempotency_records p)"
      "apply_reward d (currency_balance (pl_state p)) (purchased_item_count (pl_state p))
         (state_loadout (pl_state p)) = (st, b', i', l', ch)"
      "t = \<lparr>tx_status = st, tx_player = who, tx_idempotency_key = k, tx_product = product,
         tx_currency_balance = b', tx_purchased_item_count = i', tx_replayed = False\<rparr>"
      "r = one_response (PurchaseResponse t)"
      "p' = p\<lparr>evidence := (k, \<lparr>evidence_product = product, evidence_result = t\<rparr>) # evidence p,
         pl_state := (if st = Committed then
             let paid = mark_dirty 2 ((pl_state p)\<lparr>currency_balance := b', purchased_item_count := i'\<rparr>)
             in if ch then mark_dirty 8 (paid\<lparr>state_loadout := l'\<rparr>) else paid
           else pl_state p)\<rparr>"
proof (cases "identity (pl_state p)")
  case None
  then show thesis using assms by (simp add: handlePurchase_def Let_def)
next
  case (Some who)
  note known = Some
  show thesis
  proof (cases "map_of (evidence p) k")
    case (Some e)
    show thesis
    proof (cases "evidence_product e = product")
      case True
      with Some known assms show thesis by (intro Replayed) (auto simp: handlePurchase_def Let_def)
    next
      case False
      with Some known assms show thesis by (intro Refused) (auto simp: handlePurchase_def Let_def)
    qed
  next
    case None
    show thesis
    proof (cases "findProduct product")
      case None': None
      with None known assms show thesis by (intro Refused) (auto simp: handlePurchase_def Let_def)
    next
      case (Some d)
      obtain st b' i' l' ch where rw: "apply_reward d (currency_balance (pl_state p))
          (purchased_item_count (pl_state p)) (state_loadout (pl_state p)) = (st, b', i', l', ch)"
        by (metis prod_cases5)
      show thesis
      proof (cases "length (evidence p) < unat (max_purchase_idempotency_records p)")
        case True
        with Some None known assms rw show thesis
          by (intro Recorded [of who d st b' i' l' ch]) (auto simp: handlePurchase_def Let_def)
      next
        case False
        with Some None known assms show thesis by (intro Refused) (auto simp: handlePurchase_def Let_def)
      qed
    qed
  qed
qed

text \<open>The same for a whole step: only equipping and purchasing write the state.\<close>

lemma handle_Inr:
  assumes "handle p c = Inr (r, p')"
  obtains p1 where "handleCommand p c = Inr (r, p1)"
    and "p' = p1\<lparr>pl_state := (pl_state p1)\<lparr>handled_command_count := handled_command_count (pl_state p1) + 1\<rparr>\<rparr>"
  using assms by (auto simp: handle_def split: sum.splits prod.splits)

lemma player_step_cases:
  obtains (Thrown) e where "handle p c = Inl e" "player_step p c = (Inl e, p)"
  | (Handled) r p' where "handle p c = Inr (r, p')" "player_step p c = (Inr r, p')"
  by (cases "handle p c") (auto simp: player_step_def split: prod.splits)

definition player_wf :: "player \<Rightarrow> bool" where
  "player_wf p \<longleftrightarrow>
     loadout_wf (state_loadout (pl_state p)) \<and>
     distinct (map fst (evidence p)) \<and>
     length (evidence p) \<le> unat (max_purchase_idempotency_records p) \<and>
     (\<forall>(k, e) \<in> set (evidence p). tx_idempotency_key (evidence_result e) = k \<and>
        tx_product (evidence_result e) = evidence_product e)"

lemma new_player_wf: "player_wf (new_player who)"
  by (simp add: player_wf_def new_player_def initial_state_def)

lemma handlePurchase_wf:
  assumes "handlePurchase p k product = Inr (r, p')" and "player_wf p"
  shows "player_wf p'"
  using assms(1)
proof (cases rule: handlePurchase_elim)
  case (Recorded d who st b' i' l' ch t)
  have "k \<notin> fst ` set (evidence p)" using Recorded(2) by (simp add: map_of_eq_None_iff)
  moreover have "loadout_wf (state_loadout (pl_state p'))"
    using Recorded apply_reward_paid(2) assms(2) by (auto simp: player_wf_def Let_def)
  ultimately show ?thesis
    using Recorded(4,6,8) assms(2) by (auto simp: player_wf_def)
qed (use assms(2) in simp_all)

lemma handleEquipSkill_wf:
  assumes "handleEquipSkill p sk = Inr (r, p')" and "player_wf p"
  shows "player_wf p'"
proof -
  have "loadout_wf (snd (equipSkillId (state_loadout (pl_state p)) sk))"
    using assms(2) equipSkillId_wf by (simp add: player_wf_def)
  then show ?thesis
    using assms by (auto simp: handleEquipSkill_def player_wf_def Let_def
        split: if_splits prod.splits equip_skill_result.splits)
qed

lemma handle_wf:
  assumes "handle p c = Inr (r, p')" and "player_wf p"
  shows "player_wf p'"
proof -
  from assms(1) obtain p1 where h: "handleCommand p c = Inr (r, p1)"
    and p': "p' = p1\<lparr>pl_state := (pl_state p1)\<lparr>handled_command_count := handled_command_count (pl_state p1) + 1\<rparr>\<rparr>"
    by (rule handle_Inr)
  have "player_wf p1"
    using h assms(2) handlePurchase_wf handleEquipSkill_wf
    by (cases c) (auto simp: handlePing_def handleAuthenticate_def handleJoinRoom_def split: if_splits)
  then show ?thesis by (simp add: p' player_wf_def)
qed

interpretation player: invariant_machine player_step "\<lambda>_. True" player_wf
proof
  show "player_wf (snd (player_step p c))" if "player_wf p" for p c
    using that by (cases rule: player_step_cases [of p c]) (simp_all add: handle_wf)
qed

section \<open>Purchase accounting\<close>

definition charged :: "player_error + player_result \<Rightarrow> (u64 \<times> product_id) option" where
  "charged outcome =
     (case outcome of
        Inr r \<Rightarrow>
          (case responses r of
             [PurchaseResponse t] \<Rightarrow>
               if tx_status t = Committed \<and> \<not> tx_replayed t
               then Some (tx_idempotency_key t, tx_product t) else None
           | _ \<Rightarrow> None)
      | Inl _ \<Rightarrow> None)"

definition charge :: "player_error + player_result \<Rightarrow> nat" where
  "charge outcome =
     (case charged outcome of
        Some (_, product) \<Rightarrow> (case findProduct product of Some d \<Rightarrow> unat (def_price d) | None \<Rightarrow> 0)
      | None \<Rightarrow> 0)"

definition balance_of :: "player \<Rightarrow> nat" where
  "balance_of p = unat (currency_balance (pl_state p))"

lemma charged_one_response:
  "charged (Inr (one_response (PurchaseResponse t))) =
     (if tx_status t = Committed \<and> \<not> tx_replayed t then Some (tx_idempotency_key t, tx_product t) else None)"
  "charged (Inl e) = None"
  by (simp_all add: charged_def one_response_def)

lemma handlePurchase_charge:
  assumes "handlePurchase p k product = Inr (r, p')"
  shows "balance_of p' + charge (Inr r) = balance_of p"
    and "charged (Inr r) = Some (k', q) \<Longrightarrow> k' = k \<and> map_of (evidence p) k = None \<and> map_of (evidence p') k \<noteq> None"
    and "map_of (evidence p) j = Some e \<Longrightarrow> map_of (evidence p') j = Some e"
proof -
  have "balance_of p' + charge (Inr r) = balance_of p \<and>
    (charged (Inr r) = Some (k', q) \<longrightarrow> k' = k \<and> map_of (evidence p) k = None \<and> map_of (evidence p') k \<noteq> None) \<and>
    (map_of (evidence p) j = Some e \<longrightarrow> map_of (evidence p') j = Some e)"
    using assms
  proof (cases rule: handlePurchase_elim)
    case (Recorded d who st b' i' l' ch t)
    then show ?thesis
      using apply_reward_paid(1) [of d "currency_balance (pl_state p)" "purchased_item_count (pl_state p)"
          "state_loadout (pl_state p)" b' i' l' ch]
      by (cases "st = Committed") (auto simp: charge_def charged_one_response balance_of_def Let_def)
  qed (auto simp: charge_def charged_one_response)
  then show "balance_of p' + charge (Inr r) = balance_of p"
    and "charged (Inr r) = Some (k', q) \<Longrightarrow> k' = k \<and> map_of (evidence p) k = None \<and> map_of (evidence p') k \<noteq> None"
    and "map_of (evidence p) j = Some e \<Longrightarrow> map_of (evidence p') j = Some e" by blast+
qed

lemma other_commands_charge:
  assumes "handleCommand p c = Inr (r, p')" and "\<forall>k product. c \<noteq> PurchaseCommand k product"
  shows "balance_of p' = balance_of p" and "charged (Inr r) = None" and "evidence p' = evidence p"
  using assms
  by (cases c; auto simp: handlePing_def handleAuthenticate_def handleJoinRoom_def handleEquipSkill_def
      charged_def one_response_def balance_of_def Let_def
      split: if_splits prod.splits equip_skill_result.splits)+

lemma player_step_charge:
  "balance_of (snd (player_step p c)) + charge (fst (player_step p c)) = balance_of p"
  "charged (fst (player_step p c)) = Some (k, q) \<Longrightarrow>
     map_of (evidence p) k = None \<and> map_of (evidence (snd (player_step p c))) k \<noteq> None"
  "map_of (evidence p) j = Some e \<Longrightarrow> map_of (evidence (snd (player_step p c))) j = Some e"
proof -
  have "balance_of (snd (player_step p c)) + charge (fst (player_step p c)) = balance_of p \<and>
    (charged (fst (player_step p c)) = Some (k, q) \<longrightarrow>
       map_of (evidence p) k = None \<and> map_of (evidence (snd (player_step p c))) k \<noteq> None) \<and>
    (map_of (evidence p) j = Some e \<longrightarrow> map_of (evidence (snd (player_step p c))) j = Some e)"
  proof (cases rule: player_step_cases [of p c])
    case (Handled r p')
    then obtain p1 where h: "handleCommand p c = Inr (r, p1)" and p': "balance_of p' = balance_of p1" "evidence p' = evidence p1"
      by (elim handle_Inr) (simp add: balance_of_def)
    show ?thesis
    proof (cases "\<exists>k product. c = PurchaseCommand k product")
      case True
      then show ?thesis using Handled h p' handlePurchase_charge [of p _ _ r p1] by fastforce
    next
      case False
      then show ?thesis using Handled h p' other_commands_charge [OF h] by (simp add: charge_def)
    qed
  qed (simp add: charge_def charged_one_response)
  then show "balance_of (snd (player_step p c)) + charge (fst (player_step p c)) = balance_of p"
    "charged (fst (player_step p c)) = Some (k, q) \<Longrightarrow>
     map_of (evidence p) k = None \<and> map_of (evidence (snd (player_step p c))) k \<noteq> None"
    "map_of (evidence p) j = Some e \<Longrightarrow> map_of (evidence (snd (player_step p c))) j = Some e" by blast+
qed

lemma run_evidence_kept:
  "map_of (evidence p) j = Some e \<Longrightarrow> map_of (evidence (snd (run player_step p cs))) j = Some e"
  by (induction cs arbitrary: p) (simp_all add: player_step_charge(3))

lemma run_charged_keys:
  "distinct (map fst (List.map_filter charged (fst (run player_step p cs)))) \<and>
   (\<forall>kq \<in> set (List.map_filter charged (fst (run player_step p cs))). map_of (evidence p) (fst kq) = None)"
proof (induction cs arbitrary: p)
  case (Cons c cs)
  let ?p = "snd (player_step p c)"
  have fresh: "map_of (evidence p) (fst kq) = None"
    if "kq \<in> set (List.map_filter charged (fst (run player_step ?p cs)))" for kq
    using that Cons.IH [of ?p] player_step_charge(3) [of p "fst kq" _ c] by (cases "map_of (evidence p) (fst kq)") force+
  show ?case
  proof (cases "charged (fst (player_step p c))")
    case None
    then show ?thesis using Cons.IH [of ?p] fresh by (auto simp: map_filter_simps)
  next
    case (Some kq)
    obtain k q where kq: "kq = (k, q)" by force
    with Some player_step_charge(2) [of p c k q]
    have "map_of (evidence p) k = None" "map_of (evidence ?p) k \<noteq> None" by simp_all
    then have "k \<notin> fst ` set (List.map_filter charged (fst (run player_step ?p cs)))"
      using Cons.IH [of ?p] by force
    then show ?thesis
      using Some kq \<open>map_of (evidence p) k = None\<close> Cons.IH [of ?p] fresh by (auto simp: map_filter_simps)
  qed
qed (simp add: map_filter_simps)

text \<open>
  C10: Over any sequence of commands the money a player loses is exactly the catalog price of
  the purchases answered as newly committed, and no idempotency key is charged twice: the final
  balance plus the charges is the initial balance, with no 64-bit wrap.
\<close>

theorem purchase_accounting:
  "balance_of (snd (run player_step p cs)) + sum_list (map charge (fst (run player_step p cs))) = balance_of p \<and>
   distinct (map fst (List.map_filter charged (fst (run player_step p cs))))"
proof
  show "balance_of (snd (run player_step p cs)) + sum_list (map charge (fst (run player_step p cs))) = balance_of p"
  proof (induction cs arbitrary: p)
    case (Cons c cs)
    show ?case using Cons [of "snd (player_step p c)"] player_step_charge(1) [of p c] by simp
  qed simp
  show "distinct (map fst (List.map_filter charged (fst (run player_step p cs))))"
    using run_charged_keys by blast
qed

section \<open>Idempotent replay\<close>

lemma handle_identity:
  assumes "handle p c = Inr (r, p')"
  shows "identity (pl_state p') = identity (pl_state p)"
proof -
  from assms obtain p1 where h: "handleCommand p c = Inr (r, p1)"
    and p': "identity (pl_state p') = identity (pl_state p1)" by (elim handle_Inr) simp
  have "identity (pl_state p1) = identity (pl_state p)"
  proof (cases c)
    case (PurchaseCommand k product)
    then have "handlePurchase p k product = Inr (r, p1)" using h by simp
    then show ?thesis by (cases rule: handlePurchase_elim) (auto simp: Let_def)
  qed (use h in \<open>auto simp: handlePing_def handleAuthenticate_def handleJoinRoom_def handleEquipSkill_def
      Let_def split: if_splits prod.splits equip_skill_result.splits\<close>)
  with p' show ?thesis by simp
qed

lemma run_identity: "identity (pl_state (snd (run player_step p cs))) = identity (pl_state p)"
proof (induction cs arbitrary: p)
  case (Cons c cs)
  have "identity (pl_state (snd (player_step p c))) = identity (pl_state p)"
    by (cases rule: player_step_cases [of p c]) (simp_all add: handle_identity)
  with Cons show ?case by simp
qed simp

definition counted :: "player \<Rightarrow> player" where
  "counted p = p\<lparr>pl_state := (pl_state p)\<lparr>handled_command_count := handled_command_count (pl_state p) + 1\<rparr>\<rparr>"

lemma handle_replay:
  assumes "identity (pl_state q) = Some who" and "map_of (evidence q) k = Some e"
  shows "evidence_product e = product \<Longrightarrow>
      handle q (PurchaseCommand k product) = Inr (one_response (PurchaseResponse ((evidence_result e)\<lparr>
        tx_currency_balance := currency_balance (pl_state q),
        tx_purchased_item_count := purchased_item_count (pl_state q), tx_replayed := True\<rparr>)), counted q)"
    and "evidence_product e \<noteq> product \<Longrightarrow>
      \<exists>t. handle q (PurchaseCommand k product) = Inr (one_response (PurchaseResponse t), counted q) \<and>
        tx_status t = IdempotencyConflict"
  using assms by (simp_all add: handle_def handlePurchase_def counted_def Let_def)

text \<open>
  C11: A purchase that was recorded once is never executed again. After any further commands,
  the same key and product answer with the first outcome, marked as a replay and carrying the
  current balance, and the same key with another product is refused as a conflict; in both
  cases the player changes only in its command count.
\<close>

theorem purchase_replay:
  assumes first: "handle p (PurchaseCommand k product) = Inr (one_response (PurchaseResponse t), p1)"
    and fresh: "map_of (evidence p) k = None" "findProduct product \<noteq> None"
      "length (evidence p) < unat (max_purchase_idempotency_records p)"
    and q: "q = snd (run player_step p1 cs)"
  shows "handle q (PurchaseCommand k product) = Inr (one_response (PurchaseResponse (t\<lparr>
        tx_currency_balance := currency_balance (pl_state q),
        tx_purchased_item_count := purchased_item_count (pl_state q), tx_replayed := True\<rparr>)), counted q) \<and>
    (product' \<noteq> product \<longrightarrow>
      (\<exists>t'. handle q (PurchaseCommand k product') = Inr (one_response (PurchaseResponse t'), counted q) \<and>
        tx_status t' = IdempotencyConflict))"
proof -
  from first obtain p0 where h: "handlePurchase p k product = Inr (one_response (PurchaseResponse t), p0)"
    and p1: "evidence p1 = evidence p0" by (elim handle_Inr) simp
  from h have "map_of (evidence p0) k = Some \<lparr>evidence_product = product, evidence_result = t\<rparr> \<and>
      (\<exists>who. identity (pl_state p) = Some who)"
  proof (cases rule: handlePurchase_elim)
    case (Refused t')
    then show ?thesis using fresh by simp
  qed (use fresh in auto)
  then obtain who where ev: "map_of (evidence q) k = Some \<lparr>evidence_product = product, evidence_result = t\<rparr>"
    and who: "identity (pl_state q) = Some who"
    using run_evidence_kept [of p1 k] run_identity [of p1 cs] handle_identity [OF first] by (auto simp: q p1)
  then show ?thesis using handle_replay [OF who ev, of product] handle_replay [OF who ev, of product'] by auto
qed

theorem purchase_replay_witness:
  "\<exists>t p1. handle (new_player (Some 7)) (PurchaseCommand 5 1) = Inr (one_response (PurchaseResponse t), p1) \<and>
     tx_status t = Committed \<and>
     handle (snd (run player_step p1 [PurchaseCommand 6 2, PingCommand []])) (PurchaseCommand 5 1) =
       Inr (one_response (PurchaseResponse (t\<lparr>tx_currency_balance := 400, tx_purchased_item_count := 1,
         tx_replayed := True\<rparr>)), counted (snd (run player_step p1 [PurchaseCommand 6 2, PingCommand []])))"
proof -
  let ?p = "new_player (Some 7)"
  obtain t p1 where h: "handle ?p (PurchaseCommand 5 1) = Inr (one_response (PurchaseResponse t), p1)"
    and t: "tx_status t = Committed"
    and p1: "currency_balance (pl_state p1) = 900" "purchased_item_count (pl_state p1) = 1"
      "identity (pl_state p1) = Some 7" "map_of (evidence p1) 6 = None" "length (evidence p1) = 1"
      "max_purchase_idempotency_records p1 = 1024" "state_loadout (pl_state p1) = default_loadout"
    by (simp add: handle_def handlePurchase_def new_player_def initial_state_def product_constants
        findProduct_def apply_reward_def DEFAULT_PURCHASE_IDEMPOTENCY_CAPACITY_def Let_def)
  let ?q = "snd (run player_step p1 [PurchaseCommand 6 2, PingCommand []])"
  have q: "currency_balance (pl_state ?q) = 400" "purchased_item_count (pl_state ?q) = 1"
    using p1 by (simp_all add: player_step_def handle_def handlePurchase_def handlePing_def product_constants
        findProduct_def apply_reward_def addOwnedSkillId_def default_loadout_def findSkill_def
        skill_constants lower_bound_def Let_def)
  have "map_of (evidence ?p) 5 = None" "findProduct 1 \<noteq> None"
      "length (evidence ?p) < unat (max_purchase_idempotency_records ?p)"
    by (simp_all add: new_player_def findProduct_def product_constants DEFAULT_PURCHASE_IDEMPOTENCY_CAPACITY_def)
  from purchase_replay [OF h this refl, of "[PurchaseCommand 6 2, PingCommand []]"] h t q show ?thesis
    by (intro exI [of _ t] exI [of _ p1]) simp
qed

section \<open>Dirty tracking\<close>

text \<open>
  The calls the player actor makes on its domain object between two flushes; the output says whether
  a command was handled.
\<close>

datatype player_call =
  CallHandle player_command
| CallSetLastLocation "player_location option"
| CallGrantStreetExperience u64
| CallRestoreDirtyComponents u8

primrec player_call_step :: "player \<Rightarrow> player_call \<Rightarrow> bool \<times> player" where
  "player_call_step p (CallHandle c) =
     (case handle p c of Inl e \<Rightarrow> (False, p) | Inr (result, p') \<Rightarrow> (True, p'))"
| "player_call_step p (CallSetLastLocation l) = (False, setLastLocation p l)"
| "player_call_step p (CallGrantStreetExperience e) = (False, grantStreetExperience p e)"
| "player_call_step p (CallRestoreDirtyComponents m) = (False, restoreDirtyComponents p m)"

text \<open>The columns a save writes, and those among them that each dirty bit stands for.\<close>

definition persisted :: "player \<Rightarrow> u64 \<times> player_location option \<times> u64 \<times> u64 \<times> u64 \<times> skill_loadout" where
  "persisted p = (handled_command_count (pl_state p), last_location (pl_state p), currency_balance (pl_state p),
     purchased_item_count (pl_state p), street_experience (pl_state p), state_loadout (pl_state p))"

primrec component_kept :: "player_state_component \<Rightarrow> player_state \<Rightarrow> player_state \<Rightarrow> bool" where
  "component_kept SessionComponent s s' \<longleftrightarrow> last_location s' = last_location s"
| "component_kept EconomyComponent s s' \<longleftrightarrow> currency_balance s' = currency_balance s \<and>
     purchased_item_count s' = purchased_item_count s"
| "component_kept ProgressionComponent s s' \<longleftrightarrow> street_experience s' = street_experience s"
| "component_kept SkillsComponent s s' \<longleftrightarrow> state_loadout s' = state_loadout s"

lemma component_kept_refl [simp]: "component_kept c s s"
  by (cases c) simp_all

lemma component_kept_trans: "component_kept c s s' \<Longrightarrow> component_kept c s' s'' \<Longrightarrow> component_kept c s s''"
  by (cases c) simp_all

text \<open>A call that handles \<open>n\<close> commands only adds dirty bits, among them those of every component it changes.\<close>

definition tracks :: "u64 \<Rightarrow> player_state \<Rightarrow> player_state \<Rightarrow> bool" where
  "tracks n s s' \<longleftrightarrow> identity s' = identity s \<and> handled_command_count s' = handled_command_count s + n \<and>
     (\<exists>m. dirty_components s' = dirty_components s OR m \<and>
       (\<forall>c. m AND componentMask c = 0 \<longrightarrow> component_kept c s s'))"

lemma all_components: "(\<forall>c. P c) \<longleftrightarrow>
    P SessionComponent \<and> P EconomyComponent \<and> P ProgressionComponent \<and> P SkillsComponent"
  by (metis player_state_component.exhaust)

lemma tracksI:
  assumes "identity s' = identity s" and "handled_command_count s' = handled_command_count s + n"
    and "dirty_components s' = dirty_components s OR m"
    and "\<forall>c. m AND componentMask c = 0 \<longrightarrow> component_kept c s s'"
  shows "tracks n s s'"
  using assms by (auto simp: tracks_def)

lemma tracks_refl [simp]: "tracks 0 s s"
  by (rule tracksI [where m = 0]) simp_all

lemma tracks_trans:
  assumes "tracks n s s'" and "tracks k s' s''"
  shows "tracks (n + k) s s''"
proof -
  from assms obtain m m' where m: "dirty_components s' = dirty_components s OR m" "dirty_components s'' = dirty_components s' OR m'"
    and kept: "\<And>c. m AND componentMask c = 0 \<Longrightarrow> component_kept c s s'"
      "\<And>c. m' AND componentMask c = 0 \<Longrightarrow> component_kept c s' s''"
    by (auto simp: tracks_def)
  have "component_kept c s s''" if "(m OR m') AND componentMask c = 0" for c
  proof -
    have "m AND componentMask c = 0" "m' AND componentMask c = 0"
      using that by (simp_all add: and.commute [of _ "componentMask c"] bit.conj_disj_distrib or_eq_0_iff)
    with kept show ?thesis using component_kept_trans by blast
  qed
  then show ?thesis using assms m by (intro tracksI [where m = "m OR m'"]) (auto simp: tracks_def or.assoc)
qed

lemma flushable_value: "flushable = 14"
  by (simp add: flushable_def)

lemma handlePurchase_tracks:
  assumes "handlePurchase p k product = Inr (r, p')"
  shows "tracks 0 (pl_state p) (pl_state p')"
  using assms
proof (cases rule: handlePurchase_elim)
  case (Recorded d who st b' i' l' ch t)
  show ?thesis
  proof (cases "st = Committed")
    case True
    then show ?thesis using Recorded
      by (intro tracksI [where m = "if ch then 10 else 2"]) (auto simp: Let_def or.assoc all_components)
  next
    case False
    then show ?thesis using Recorded by (intro tracksI [where m = 0]) (auto simp: all_components)
  qed
qed simp_all

lemma handleEquipSkill_tracks:
  assumes "handleEquipSkill p sk = Inr (r, p')"
  shows "tracks 0 (pl_state p) (pl_state p')"
proof -
  obtain outcome l where e: "equipSkillId (state_loadout (pl_state p)) sk = (outcome, l)" by force
  show ?thesis
  proof (cases "outcome = SkillEquipped")
    case True
    then show ?thesis using assms e
      by (intro tracksI [where m = 8]) (auto simp: handleEquipSkill_def Let_def all_components split: if_splits)
  next
    case False
    then have "l = state_loadout (pl_state p)" using e by (auto simp: equipSkillId_def split: if_splits)
    then show ?thesis using assms e False
      by (intro tracksI [where m = 0])
        (auto simp: handleEquipSkill_def Let_def all_components split: if_splits equip_skill_result.splits)
  qed
qed

lemma handle_tracks:
  assumes "handle p command = Inr (r, p')"
  shows "tracks 1 (pl_state p) (pl_state p')"
proof -
  obtain p1 where h: "handleCommand p command = Inr (r, p1)"
    and p': "pl_state p' = (pl_state p1)\<lparr>handled_command_count := handled_command_count (pl_state p1) + 1\<rparr>"
    using assms by (elim handle_Inr) simp
  have "tracks 0 (pl_state p) (pl_state p1)"
    using h handlePurchase_tracks handleEquipSkill_tracks
    by (cases command) (auto simp: handlePing_def handleAuthenticate_def handleJoinRoom_def split: if_splits)
  moreover have "tracks 1 (pl_state p1) (pl_state p')"
    by (rule tracksI [where m = 0]) (simp_all add: p' all_components)
  ultimately show ?thesis using tracks_trans by fastforce
qed

lemma player_call_tracks:
  "tracks (of_bool (fst (player_call_step p c))) (pl_state p) (pl_state (snd (player_call_step p c)))"
proof (cases c)
  case (CallHandle command)
  then show ?thesis using handle_tracks [of p command] by (auto split: sum.splits)
next
  case (CallSetLastLocation l)
  then show ?thesis by (intro tracksI [where m = 1]) (simp_all add: setLastLocation_def all_components)
next
  case (CallGrantStreetExperience e)
  then show ?thesis by (intro tracksI [where m = 4]) (simp_all add: grantStreetExperience_def Let_def all_components)
next
  case (CallRestoreDirtyComponents m)
  then show ?thesis by (intro tracksI [where m = m]) (simp_all add: restoreDirtyComponents_def all_components)
qed

lemma run_tracks:
  "tracks (of_nat (length (filter id (fst (run player_call_step p calls))))) (pl_state p)
     (pl_state (snd (run player_call_step p calls)))"
proof (induction calls arbitrary: p)
  case (Cons c calls)
  show ?case
    using tracks_trans [OF player_call_tracks [of p c] Cons [of "snd (player_call_step p c)"]]
    by (cases "fst (player_call_step p c)") (simp_all add: add.commute)
qed simp

lemma flushable_clean:
  assumes "\<not> hasFlushableDirtyState p" and "c \<noteq> SessionComponent"
  shows "dirty_components (pl_state p) AND componentMask c = 0"
proof -
  have "dirty_components (pl_state p) AND componentMask c = (dirty_components (pl_state p) AND flushable) AND componentMask c"
    using assms(2) by (cases c) (simp_all add: flushable_value and.assoc)
  then show ?thesis using assms(1) by (simp add: hasFlushableDirtyState_def)
qed

lemma tracks_kept:
  assumes "tracks n s s'" and "dirty_components s' AND componentMask c = 0"
  shows "component_kept c s s'" and "dirty_components s AND componentMask c = 0"
proof -
  from assms(1) obtain m where m: "dirty_components s' = dirty_components s OR m"
    "\<And>c. m AND componentMask c = 0 \<Longrightarrow> component_kept c s s'" by (auto simp: tracks_def)
  have "dirty_components s AND componentMask c = 0 \<and> m AND componentMask c = 0"
    using assms(2) by (simp add: m(1) and.commute [of _ "componentMask c"] bit.conj_disj_distrib or_eq_0_iff)
  with m(2) show "component_kept c s s'" "dirty_components s AND componentMask c = 0" by auto
qed

text \<open>
  C12: What the dirty bits record of the saved columns. After any sequence of calls, a component whose bit is
  clear had a clear bit at the start and is unchanged: the location for the session bit, balance and item count
  for economy, experience for progression, the loadout for skills. The command count is the one column that
  changes with no bit: it grows by the number of commands handled. So when the player reports no flushable
  state, and a flush would write nothing, the record it would save differs from the one at the start in the
  location and the command count alone.
\<close>

theorem no_untracked_change:
  assumes "q = snd (run player_call_step p calls)"
    and "handled = of_nat (length (filter id (fst (run player_call_step p calls))))"
  shows "(\<forall>c. dirty_components (pl_state q) AND componentMask c = 0 \<longrightarrow>
       dirty_components (pl_state p) AND componentMask c = 0 \<and> component_kept c (pl_state p) (pl_state q)) \<and>
     handled_command_count (pl_state q) = handled_command_count (pl_state p) + handled \<and>
     (\<not> hasFlushableDirtyState q \<longrightarrow> snapshot q = map_sum id (\<lambda>r. r\<lparr>
        rec_handled_command_count := rec_handled_command_count r + handled,
        rec_last_location := last_location (pl_state q)\<rparr>) (snapshot p))"
proof -
  have t: "tracks handled (pl_state p) (pl_state q)" using run_tracks assms by simp
  have "component_kept c (pl_state p) (pl_state q)" if "\<not> hasFlushableDirtyState q" "c \<noteq> SessionComponent" for c
    using tracks_kept(1) [OF t] flushable_clean [OF that] by blast
  from this [of EconomyComponent] this [of ProgressionComponent] this [of SkillsComponent]
  have "snapshot q = map_sum id (\<lambda>r. r\<lparr>
        rec_handled_command_count := rec_handled_command_count r + handled,
        rec_last_location := last_location (pl_state q)\<rparr>) (snapshot p)" if "\<not> hasFlushableDirtyState q"
    using that t by (simp add: snapshot_def tracks_def split: option.splits)
  then show ?thesis using tracks_kept [OF t] t by (auto simp: tracks_def)
qed

theorem no_untracked_change_witness:
  "\<exists>q. q = snd (run player_call_step (new_player (Some 7))
       [CallHandle (PingCommand [1]), CallSetLastLocation None, CallHandle (PurchaseCommand 1 9)]) \<and>
     \<not> hasFlushableDirtyState q \<and> snapshot q = map_sum id (\<lambda>r. r\<lparr>
        rec_handled_command_count := 2, rec_last_location := None\<rparr>) (snapshot (new_player (Some 7)))"
proof -
  let ?p = "new_player (Some 7)"
  let ?calls = "[CallHandle (PingCommand [1]), CallSetLastLocation None, CallHandle (PurchaseCommand 1 9)]"
  let ?q = "snd (run player_call_step ?p ?calls)"
  have "\<not> hasFlushableDirtyState ?q" "last_location (pl_state ?q) = None"
      "length (filter id (fst (run player_call_step ?p ?calls))) = 2"
    by (simp_all add: hasFlushableDirtyState_def handle_def handlePing_def handlePurchase_def
        setLastLocation_def findProduct_def product_constants new_player_def initial_state_def flushable_value Let_def)
  with no_untracked_change [of ?q ?p ?calls] show ?thesis
    by (auto simp: snapshot_def new_player_def initial_state_def)
qed

text \<open>
  C13: A flush loses nothing. When a dirty snapshot is taken it is the player's full snapshot,
  the cleared bits are exactly what a failed write puts back to obtain the previous player,
  and restoring the record into a player with the same identity reproduces the snapshot and
  leaves it clean. A clean player yields no snapshot and stays as it is; only a provisional
  player fails.
\<close>

theorem snapshot_roundtrip:
  "case takeDirtySnapshot p of
     Inr (Some r, m, p') \<Rightarrow> snapshot p = Inr r \<and> restoreDirtyComponents p' m = p \<and>
       \<not> hasFlushableDirtyState p' \<and>
       (case restore q r of
          Inr q' \<Rightarrow> identity (pl_state q) = identity (pl_state p) \<and> snapshot q' = Inr r \<and>
            persisted q' = persisted p \<and> \<not> hasFlushableDirtyState q'
        | Inl e \<Rightarrow> identity (pl_state q) \<noteq> identity (pl_state p))
   | Inr (None, m, p') \<Rightarrow> p' = p \<and> m = 0 \<and> \<not> hasFlushableDirtyState p
   | Inl e \<Rightarrow> identity (pl_state p) = None"
proof (cases "hasFlushableDirtyState p \<and> identity (pl_state p) \<noteq> None")
  case True
  then show ?thesis
    by (auto simp: takeDirtySnapshot_def snapshot_def restoreDirtyComponents_def restore_def
        mark_dirty_def hasFlushableDirtyState_def persisted_def Let_def)
next
  case False
  then show ?thesis
    by (auto simp: takeDirtySnapshot_def snapshot_def Let_def)
qed

end
