(* ===== verification/Room_Model.thy ===== *)
theory Room_Model
  imports Arena Skills
begin

text \<open>
  The battle room of \<^verbatim>\<open>src/game/room.cpp\<close>: its configuration and validating constructor, the
  battle state, and every method as a function on that state. Times are \<open>steady_clock\<close> points
  in nanoseconds, durations milliseconds. Pointers into a vector are positions in a list.
\<close>

section \<open>Data\<close>

type_synonym enemy_id = u32
type_synonym projectile_id = u32

datatype enemy_kind = Minion | Boss

record enemy =
  en_id :: enemy_id
  en_kind :: enemy_kind
  en_health :: u64
  en_position :: arena_position
  attack_ready_at :: time_point

record projectile =
  pr_id :: projectile_id
  pr_owner :: player_id
  pr_skill_id :: skill_id
  pr_target :: enemy_id
  pr_position :: arena_position
  pr_speed_per_tick :: u32
  pr_hit_range :: u32
  pr_damage :: u64
  pr_expires_at :: time_point

datatype room_phase = Waiting | Running | Cleared | Failed

datatype room_command_status =
  Applied | AlreadyJoined | RoomFull | WrongPhase | NotJoined | EntryFailed | DuplicateRequest
| SkillOnCooldown | UnknownSkill | BattleExpired | ParticipantDead | RuntimeOverloaded
| ProjectileCapacityExceeded | SkillNotEquipped

datatype battle_outcome = BattleWon | BattleLost

datatype battle_failure_reason = Deadline | ParticipantsDefeated

datatype projectile_removal_reason = Hit | TargetLost | Expired

datatype battle_event =
  EnemySpawned enemy_id enemy_kind u64
| EnemyDamaged enemy_id player_id skill_id u64 u64
| EnemyDied enemy_id
| SkillWhiffed player_id skill_id
| ArenaStarted u32 u32
| ParticipantSpawned player_id arena_position u64
| ParticipantMoved player_id arena_position
| EnemyPositioned enemy_id arena_position
| ParticipantDamaged player_id enemy_id u64 u64
| ParticipantDied player_id
| ParticipantLeft player_id
| ProjectileSpawned projectile_id player_id skill_id enemy_id arena_position
| ProjectileMoved projectile_id arena_position
| ProjectileRemoved projectile_id projectile_removal_reason

record battle_digest =
  digest_sequence :: u64
  digest_events :: "battle_event list"

record street_experience_grant =
  grant_player :: player_id
  grant_experience :: u64

record room_result =
  rr_status :: room_command_status
  rr_phase :: room_phase
  rr_player :: "player_id option"
  rr_deadline_after :: "millis option"
  rr_tick_after :: "millis option"
  rr_boss_health :: u64
  rr_boss_spawned :: bool
  rr_digest :: "battle_digest option"
  rr_outcome :: "battle_outcome option"
  rr_failure_reason :: "battle_failure_reason option"
  rr_audience :: "player_id list"
  rr_grants :: "street_experience_grant list"

datatype room_command =
  JoinRoom player_id combat_stats skill_id
| LeaveRoom player_id
| StartBattle
| UseSkill player_id skill_id u64
| BattleDeadline
| RoomSimulationTick
| SetMoveIntent player_id move_direction u64

record room_config =
  battle_duration :: millis
  max_participants :: u64
  clear_experience :: u64
  boss_health :: u64
  tick_interval :: millis
  wave_interval :: millis
  wave_count :: u64
  minions_per_wave :: u64
  minion_health :: u64
  boss_spawn_after :: millis
  max_spawned_enemies :: u64
  digest_flush_threshold :: u64
  max_active_projectiles :: u64
  arena_width :: u32
  arena_height :: u32
  player_move_speed :: u32
  participant_spawn_spacing :: u32
  minion_spawn_radius :: u32
  minion_move_speed :: u32
  boss_move_speed :: u32
  minion_attack_damage :: u64
  boss_attack_damage :: u64
  minion_attack_range :: u32
  boss_attack_range :: u32
  minion_attack_cooldown :: millis
  boss_attack_cooldown :: millis

definition default_room_config :: room_config where
  "default_room_config = \<lparr>battle_duration = 90000, max_participants = 4, clear_experience = 300,
     boss_health = 500, tick_interval = 100, wave_interval = 20000, wave_count = 2,
     minions_per_wave = 10, minion_health = 60, boss_spawn_after = 40000, max_spawned_enemies = 64,
     digest_flush_threshold = 512, max_active_projectiles = 128, arena_width = 100,
     arena_height = 100, player_move_speed = 4, participant_spawn_spacing = 4,
     minion_spawn_radius = 25, minion_move_speed = 1, boss_move_speed = 1,
     minion_attack_damage = 3, boss_attack_damage = 10, minion_attack_range = 3,
     boss_attack_range = 5, minion_attack_cooldown = 1000, boss_attack_cooldown = 2000\<rparr>"

record skill_cooldown =
  cd_skill_id :: skill_id
  cd_ready_at :: time_point

record participant =
  pa_player_id :: player_id
  pa_stats :: combat_stats
  pa_equipped_skill_id :: skill_id
  current_health :: u64
  pa_position :: arena_position
  move_intent :: move_direction
  applied_skill_sequence :: u64
  applied_movement_sequence :: u64
  cooldowns :: "skill_cooldown list"

record room =
  room_ident :: room_id
  config :: room_config
  phase :: room_phase
  battle_deadline_at :: time_point
  next_wave_at :: time_point
  boss_spawn_at :: time_point
  spawned_wave_count :: u64
  next_enemy_id :: enemy_id
  next_projectile_id :: projectile_id
  digest_counter :: u64
  boss_spawned :: bool
  participants :: "participant list"
  enemies :: "enemy list"
  projectiles :: "projectile list"
  pending_events :: "battle_event list"

section \<open>The constructor\<close>

datatype room_error =
  RoomIdZero | BattleDurationNotPositive | NoParticipantAdmitted | BossHealthZero
| TickIntervalNotPositive | WaveIntervalNotPositive | MinionHealthZero | BossSpawnTimeInvalid
| EnemyCapacityInvalid | ProjectileCapacityInvalid | DigestThresholdZero | WaveMinionMismatch
| EnemyCountOverflow | EnemyCountExceedsCapacity | BossBeforeWaves | ArenaExtentInvalid
| MovementSpeedZero | SpawnSpacingZero | EnemyAttackZero | AttackCooldownNotPositive
| SpawnRadiusDoesNotFit | FormationOverflow | FormationDoesNotFit | EventReserveOverflow

text \<open>The constructor's checks in order: each is the condition under which it throws.\<close>

fun first_error :: "(bool \<times> 'e) list \<Rightarrow> 'e option" where
  "first_error [] = None"
| "first_error ((bad, e) # rest) = (if bad then Some e else first_error rest)"

definition MAX_EVENTS_PER_ENEMY :: u64 where "MAX_EVENTS_PER_ENEMY = 3"
definition MAX_EVENTS_PER_PROJECTILE :: u64 where "MAX_EVENTS_PER_PROJECTILE = 4"
definition MAX_ARENA_EXTENT :: u32 where "MAX_ARENA_EXTENT = 2147483647"

definition total_enemies :: "room_config \<Rightarrow> u64" where
  "total_enemies c = wave_count c * minions_per_wave c + 1"

definition room_scalar_checks :: "room_id \<Rightarrow> room_config \<Rightarrow> (bool \<times> room_error) list" where
  "room_scalar_checks room c =
     [(room = 0, RoomIdZero),
      (battle_duration c \<le> 0, BattleDurationNotPositive),
      (max_participants c = 0, NoParticipantAdmitted),
      (boss_health c = 0, BossHealthZero),
      (tick_interval c \<le> 0, TickIntervalNotPositive),
      (wave_interval c \<le> 0, WaveIntervalNotPositive),
      (minion_health c = 0, MinionHealthZero),
      (boss_spawn_after c \<le> 0 \<or> boss_spawn_after c \<ge> battle_duration c, BossSpawnTimeInvalid),
      (max_spawned_enemies c = 0 \<or> max_spawned_enemies c > ucast UINT32_MAX, EnemyCapacityInvalid),
      (max_active_projectiles c = 0 \<or> max_active_projectiles c > ucast UINT32_MAX, ProjectileCapacityInvalid),
      (digest_flush_threshold c = 0, DigestThresholdZero),
      ((wave_count c = 0) \<noteq> (minions_per_wave c = 0), WaveMinionMismatch),
      (wave_count c \<noteq> 0 \<and> minions_per_wave c > (UINT64_MAX - 1) div wave_count c, EnemyCountOverflow),
      (total_enemies c > max_spawned_enemies c, EnemyCountExceedsCapacity),
      (wave_count c > 1 \<and> wave_count c - 1 > word_of_int (boss_spawn_after c div wave_interval c), BossBeforeWaves)]"

definition room_arena_checks :: "room_config \<Rightarrow> (bool \<times> room_error) list" where
  "room_arena_checks c =
     (let center_x = ucast (arena_width c div 2) :: u64;
          center_y = ucast (arena_height c div 2) :: u64;
          right_space = ucast (arena_width c - 1) - center_x;
          bottom_space = ucast (arena_height c - 1) - center_y;
          radius = ucast (minion_spawn_radius c);
          formation_members = max_participants c - 1;
          formation_span = ucast (participant_spawn_spacing c) * formation_members
      in [(arena_width c = 0 \<or> arena_height c = 0 \<or> arena_width c > MAX_ARENA_EXTENT \<or>
             arena_height c > MAX_ARENA_EXTENT, ArenaExtentInvalid),
          (player_move_speed c = 0 \<or> minion_move_speed c = 0 \<or> boss_move_speed c = 0, MovementSpeedZero),
          (participant_spawn_spacing c = 0 \<or> minion_spawn_radius c = 0, SpawnSpacingZero),
          (minion_attack_damage c = 0 \<or> boss_attack_damage c = 0 \<or> minion_attack_range c = 0 \<or>
             boss_attack_range c = 0, EnemyAttackZero),
          (minion_attack_cooldown c \<le> 0 \<or> boss_attack_cooldown c \<le> 0, AttackCooldownNotPositive),
          (radius > center_x \<or> radius > center_y \<or> radius > right_space \<or> radius > bottom_space,
             SpawnRadiusDoesNotFit),
          (formation_members > UINT64_MAX div ucast (participant_spawn_spacing c), FormationOverflow),
          (formation_span div 2 > center_x \<or>
             center_x - formation_span div 2 + formation_span \<ge> ucast (arena_width c), FormationDoesNotFit)])"

definition room_reserve_checks :: "room_config \<Rightarrow> (bool \<times> room_error) list" where
  "room_reserve_checks c =
     (let max_size = UINT64_MAX;
          reserve_base = digest_flush_threshold c + max_participants c;
          enemy_event_reserve = MAX_EVENTS_PER_ENEMY * max_spawned_enemies c;
          remaining_event_capacity = max_size - reserve_base - enemy_event_reserve
      in [(max_participants c > max_size - digest_flush_threshold c, EventReserveOverflow),
          (max_spawned_enemies c > (max_size - reserve_base) div MAX_EVENTS_PER_ENEMY, EventReserveOverflow),
          (max_active_projectiles c > remaining_event_capacity div MAX_EVENTS_PER_PROJECTILE, EventReserveOverflow)])"

definition event_reserve :: "room_config \<Rightarrow> u64" where
  "event_reserve c = digest_flush_threshold c + max_participants c +
     MAX_EVENTS_PER_ENEMY * max_spawned_enemies c + MAX_EVENTS_PER_PROJECTILE * max_active_projectiles c"

definition room_config_error :: "room_id \<Rightarrow> room_config \<Rightarrow> room_error option" where
  "room_config_error room c =
     first_error (room_scalar_checks room c @ room_arena_checks c @ room_reserve_checks c)"

definition make_room :: "room_id \<Rightarrow> room_config \<Rightarrow> room_error + room" where
  "make_room room c =
     (case room_config_error room c of
        Some e \<Rightarrow> Inl e
      | None \<Rightarrow> Inr \<lparr>room_ident = room, config = c, phase = Waiting, battle_deadline_at = 0,
          next_wave_at = 0, boss_spawn_at = 0, spawned_wave_count = 0, next_enemy_id = 1,
          next_projectile_id = 1, digest_counter = 0, boss_spawned = False, participants = [],
          enemies = [], projectiles = [], pending_events = []\<rparr>)"

section \<open>Queries\<close>

definition canStartBattle :: "room \<Rightarrow> bool" where
  "canStartBattle r \<longleftrightarrow> phase r = Waiting \<and> participants r \<noteq> []"

definition boss :: "room \<Rightarrow> enemy option" where
  "boss r = find (\<lambda>e. en_kind e = Boss) (enemies r)"

definition bossHealth :: "room \<Rightarrow> u64" where
  "bossHealth r = (case boss r of None \<Rightarrow> 0 | Some e \<Rightarrow> en_health e)"

definition findParticipant :: "room \<Rightarrow> player_id \<Rightarrow> nat option" where
  "findParticipant r player = locate pa_player_id (participants r) player"

definition statsOf :: "room \<Rightarrow> player_id \<Rightarrow> combat_stats option" where
  "statsOf r player = map_option (\<lambda>i. pa_stats (participants r ! i)) (locate pa_player_id (participants r) player)"

definition healthOf :: "room \<Rightarrow> player_id \<Rightarrow> u64 option" where
  "healthOf r player = map_option (\<lambda>i. current_health (participants r ! i)) (locate pa_player_id (participants r) player)"

definition positionOf :: "room \<Rightarrow> player_id \<Rightarrow> arena_position option" where
  "positionOf r player = map_option (\<lambda>i. pa_position (participants r ! i)) (locate pa_player_id (participants r) player)"

definition projectileById :: "room \<Rightarrow> projectile_id \<Rightarrow> projectile option" where
  "projectileById r i = find (\<lambda>p. pr_id p = i) (projectiles r)"

text \<open>
  The two nearest-candidate loops share their shape: candidates that fail the filter are
  skipped, and a candidate replaces the current best when there is none, when it is strictly
  nearer, or when it is as near and has the smaller identifier.
\<close>

fun nearest_scan ::
  "('a \<Rightarrow> bool) \<Rightarrow> ('a \<Rightarrow> u64) \<Rightarrow> ('a \<Rightarrow> 'i::linorder) \<Rightarrow> nat \<Rightarrow> 'a list \<Rightarrow> (nat \<times> 'a) option \<Rightarrow> u64 \<Rightarrow> (nat \<times> 'a) option" where
  "nearest_scan eligible distance_to ident i [] nearest nearest_distance = nearest"
| "nearest_scan eligible distance_to ident i (c # cs) nearest nearest_distance =
     (if \<not> eligible c then nearest_scan eligible distance_to ident (Suc i) cs nearest nearest_distance
      else let distance = distance_to c
           in if (case nearest of
                    None \<Rightarrow> True
                  | Some (_, n) \<Rightarrow> distance < nearest_distance \<or> distance = nearest_distance \<and> ident c < ident n)
              then nearest_scan eligible distance_to ident (Suc i) cs (Some (i, c)) distance
              else nearest_scan eligible distance_to ident (Suc i) cs nearest nearest_distance)"

definition nearestLivingParticipant :: "participant list \<Rightarrow> arena_position \<Rightarrow> nat option" where
  "nearestLivingParticipant ps origin =
     map_option fst (nearest_scan (\<lambda>p. current_health p \<noteq> 0) (\<lambda>p. squaredDistance origin (pa_position p))
       pa_player_id 0 ps None UINT64_MAX)"

definition findTargetEnemy :: "room \<Rightarrow> arena_position \<Rightarrow> u32 \<Rightarrow> enemy option" where
  "findTargetEnemy r origin acquisition =
     map_option snd (nearest_scan (\<lambda>e. en_health e \<noteq> 0 \<and> isWithinRange origin (en_position e) acquisition)
       (\<lambda>e. squaredDistance origin (en_position e)) en_id 0 (enemies r) None UINT64_MAX)"

fun find_index :: "('a \<Rightarrow> bool) \<Rightarrow> 'a list \<Rightarrow> nat option" where
  "find_index P [] = None"
| "find_index P (x # xs) = (if P x then Some 0 else map_option Suc (find_index P xs))"

definition findLivingEnemy :: "enemy list \<Rightarrow> enemy_id \<Rightarrow> nat option" where
  "findLivingEnemy es target =
     (case find_index (\<lambda>e. en_id e = target) es of
        None \<Rightarrow> None
      | Some i \<Rightarrow> if en_health (es ! i) = 0 then None else Some i)"

definition allParticipantsDead :: "participant list \<Rightarrow> bool" where
  "allParticipantsDead ps \<longleftrightarrow> ps \<noteq> [] \<and> \<not> list_ex (\<lambda>p. current_health p > 0) ps"

definition enemyMoveSpeed :: "room_config \<Rightarrow> enemy_kind \<Rightarrow> u32" where
  "enemyMoveSpeed c k = (if k = Minion then minion_move_speed c else boss_move_speed c)"

definition enemyAttackRange :: "room_config \<Rightarrow> enemy_kind \<Rightarrow> u32" where
  "enemyAttackRange c k = (if k = Minion then minion_attack_range c else boss_attack_range c)"

definition enemyAttackDamage :: "room_config \<Rightarrow> enemy_kind \<Rightarrow> u64" where
  "enemyAttackDamage c k = (if k = Minion then minion_attack_damage c else boss_attack_damage c)"

definition enemyAttackCooldown :: "room_config \<Rightarrow> enemy_kind \<Rightarrow> millis" where
  "enemyAttackCooldown c k = (if k = Minion then minion_attack_cooldown c else boss_attack_cooldown c)"

definition audience :: "room \<Rightarrow> player_id list" where
  "audience r = map pa_player_id (participants r)"

definition baseResult :: "room \<Rightarrow> room_command_status \<Rightarrow> player_id option \<Rightarrow> room_result" where
  "baseResult r status player =
     \<lparr>rr_status = status, rr_phase = phase r, rr_player = player, rr_deadline_after = None,
      rr_tick_after = None, rr_boss_health = bossHealth r, rr_boss_spawned = boss_spawned r,
      rr_digest = None, rr_outcome = None, rr_failure_reason = None, rr_audience = [], rr_grants = []\<rparr>"

end
