(* ===== verification/Room_Steps.thy ===== *)
theory Room_Steps
  imports Room_Model
begin

text \<open>
  The battle operations and the seven command handlers of \<^verbatim>\<open>src/game/room.cpp\<close>. A handler maps the
  room and the observation time to the result and the next room. Loops that mutate a vector in
  place are recursions that rebuild it.
\<close>

section \<open>Digests and the end of a battle\<close>

definition takeDigest :: "room \<Rightarrow> battle_digest option \<times> room" where
  "takeDigest r =
     (if pending_events r = [] then (None, r)
      else (Some \<lparr>digest_sequence = digest_counter r + 1, digest_events = pending_events r\<rparr>,
            r\<lparr>digest_counter := digest_counter r + 1, pending_events := []\<rparr>))"

definition failBattle ::
  "room \<Rightarrow> room_command_status \<Rightarrow> player_id option \<Rightarrow> battle_failure_reason \<Rightarrow> room_result \<times> room" where
  "failBattle r status player reason =
     (let r1 = r\<lparr>phase := Failed, projectiles := []\<rparr>;
          result = baseResult r1 status player;
          (digest, r2) = takeDigest r1
      in (result\<lparr>rr_digest := digest, rr_outcome := Some BattleLost, rr_failure_reason := Some reason,
                 rr_audience := audience r2\<rparr>, r2))"

definition rewardClear :: "room \<Rightarrow> street_experience_grant list" where
  "rewardClear r =
     map (\<lambda>p. \<lparr>grant_player = pa_player_id p, grant_experience = clear_experience (config r)\<rparr>) (participants r)"

definition clearBattle :: "room \<Rightarrow> player_id option \<Rightarrow> room_result \<times> room" where
  "clearBattle r player =
     (let r1 = r\<lparr>phase := Cleared, projectiles := []\<rparr>;
          result = baseResult r1 Applied player;
          (digest, r2) = takeDigest r1
      in (result\<lparr>rr_digest := digest, rr_outcome := Some BattleWon, rr_audience := audience r2,
                 rr_grants := rewardClear r2\<rparr>, r2))"

section \<open>The arena at the start and participant movement\<close>

definition place_participant :: "room_config \<Rightarrow> nat \<Rightarrow> nat \<Rightarrow> participant \<Rightarrow> participant" where
  "place_participant c count index p =
     p\<lparr>current_health := stat_health (pa_stats p),
       pa_position := centeredParticipantPosition (of_nat index) (of_nat count) (arena_width c)
         (arena_height c) (participant_spawn_spacing c),
       move_intent := Stop\<rparr>"

definition spawned_event :: "participant \<Rightarrow> battle_event" where
  "spawned_event p = ParticipantSpawned (pa_player_id p) (pa_position p) (current_health p)"

definition initializeArena :: "room \<Rightarrow> room" where
  "initializeArena r =
     (let c = config r;
          placed = map (\<lambda>(index, p). place_participant c (length (participants r)) index p)
                     (enumerate 0 (participants r))
      in r\<lparr>participants := placed,
           pending_events := pending_events r @ ArenaStarted (arena_width c) (arena_height c) #
             map spawned_event placed\<rparr>)"

definition move_participant :: "room_config \<Rightarrow> participant \<Rightarrow> participant \<times> battle_event list" where
  "move_participant c p =
     (if current_health p = 0 then (p, [])
      else let moved = moveInDirection (pa_position p) (move_intent p) (player_move_speed c)
                         (arena_width c) (arena_height c)
           in if moved = pa_position p then (p, [])
              else (p\<lparr>pa_position := moved\<rparr>, [ParticipantMoved (pa_player_id p) moved]))"

definition moveParticipants :: "room \<Rightarrow> room" where
  "moveParticipants r =
     (let moves = map (move_participant (config r)) (participants r)
      in r\<lparr>participants := map fst moves,
           pending_events := pending_events r @ concat (map snd moves)\<rparr>)"

section \<open>Enemies\<close>

definition enemy_approach ::
  "room_config \<Rightarrow> enemy \<Rightarrow> arena_position \<Rightarrow> enemy \<times> battle_event list" where
  "enemy_approach c e target_position =
     (if isWithinRange (en_position e) target_position (enemyAttackRange c (en_kind e)) then (e, [])
      else let moved = moveToward (en_position e) target_position (enemyMoveSpeed c (en_kind e))
                         (arena_width c) (arena_height c)
           in if moved = en_position e then (e, [])
              else (e\<lparr>en_position := moved\<rparr>, [EnemyPositioned (en_id e) moved]))"

definition enemy_strike ::
  "room_config \<Rightarrow> time_point \<Rightarrow> enemy \<Rightarrow> participant \<Rightarrow> enemy \<times> participant \<times> battle_event list" where
  "enemy_strike c observed_at e target =
     (let damage = min (enemyAttackDamage c (en_kind e)) (current_health target);
          health = current_health target - damage;
          struck = target\<lparr>current_health := health\<rparr>;
          e' = e\<lparr>attack_ready_at := after_ms observed_at (enemyAttackCooldown c (en_kind e))\<rparr>;
          damaged = ParticipantDamaged (pa_player_id target) (en_id e) damage health
      in if health = 0
         then (e', struck\<lparr>move_intent := Stop\<rparr>, [damaged, ParticipantDied (pa_player_id target)])
         else (e', struck, [damaged]))"

text \<open>One iteration of the enemy loop: the enemy, the participants, the events it appends, and
  the value the loop returns right away, if any.\<close>

definition act_enemy ::
  "room_config \<Rightarrow> time_point \<Rightarrow> enemy \<Rightarrow> participant list \<Rightarrow>
   enemy \<times> participant list \<times> battle_event list \<times> bool option" where
  "act_enemy c observed_at e ps =
     (if en_health e = 0 then (e, ps, [], None)
      else case nearestLivingParticipant ps (en_position e) of
        None \<Rightarrow> (e, ps, [], Some (\<not> allParticipantsDead ps))
      | Some i \<Rightarrow>
          let (e1, approach) = enemy_approach c e (pa_position (ps ! i))
          in if observed_at < attack_ready_at e1 \<or>
                \<not> isWithinRange (en_position e1) (pa_position (ps ! i)) (enemyAttackRange c (en_kind e1))
             then (e1, ps, approach, None)
             else let (e2, target, strike) = enemy_strike c observed_at e1 (ps ! i);
                      ps' = ps[i := target]
                  in (e2, ps', approach @ strike,
                      if current_health target = 0 \<and> allParticipantsDead ps' then Some False else None))"

fun act_enemies ::
  "room_config \<Rightarrow> time_point \<Rightarrow> enemy list \<Rightarrow> participant list \<Rightarrow>
   enemy list \<times> participant list \<times> battle_event list \<times> bool" where
  "act_enemies c observed_at [] ps = ([], ps, [], True)"
| "act_enemies c observed_at (e # es) ps =
     (let (e', ps', events, returned) = act_enemy c observed_at e ps
      in case returned of
           Some value \<Rightarrow> (e' # es, ps', events, value)
         | None \<Rightarrow> let (es', ps'', events', value) = act_enemies c observed_at es ps'
                   in (e' # es', ps'', events @ events', value))"

definition actEnemies :: "room \<Rightarrow> time_point \<Rightarrow> bool \<times> room" where
  "actEnemies r observed_at =
     (let (es, ps, events, value) = act_enemies (config r) observed_at (enemies r) (participants r)
      in (value, r\<lparr>enemies := es, participants := ps, pending_events := pending_events r @ events\<rparr>))"

definition enemy_spawn_events :: "enemy \<Rightarrow> battle_event list" where
  "enemy_spawn_events e =
     [EnemySpawned (en_id e) (en_kind e) (en_health e), EnemyPositioned (en_id e) (en_position e)]"

definition new_minion :: "room_config \<Rightarrow> time_point \<Rightarrow> enemy_id \<Rightarrow> nat \<Rightarrow> enemy" where
  "new_minion c observed_at first index =
     \<lparr>en_id = first + of_nat index, en_kind = Minion, en_health = minion_health c,
      en_position = squarePerimeterPosition (of_nat index) (minions_per_wave c) (arena_width c)
        (arena_height c) (minion_spawn_radius c),
      attack_ready_at = after_ms observed_at (minion_attack_cooldown c)\<rparr>"

definition spawnWave :: "room \<Rightarrow> time_point \<Rightarrow> room" where
  "spawnWave r observed_at =
     (if spawned_wave_count r \<ge> wave_count (config r) then r
      else let c = config r;
               wave = map (new_minion c observed_at (next_enemy_id r)) [0 ..< unat (minions_per_wave c)]
           in r\<lparr>enemies := enemies r @ wave,
                next_enemy_id := next_enemy_id r + of_nat (length wave),
                pending_events := pending_events r @ concat (map enemy_spawn_events wave),
                spawned_wave_count := spawned_wave_count r + 1\<rparr>)"

definition new_boss :: "room_config \<Rightarrow> time_point \<Rightarrow> enemy_id \<Rightarrow> enemy" where
  "new_boss c observed_at ident =
     \<lparr>en_id = ident, en_kind = Boss, en_health = boss_health c,
      en_position = bossSpawnPosition (arena_width c),
      attack_ready_at = after_ms observed_at (boss_attack_cooldown c)\<rparr>"

definition spawnBoss :: "room \<Rightarrow> time_point \<Rightarrow> room" where
  "spawnBoss r observed_at =
     (if boss_spawned r then r
      else let e = new_boss (config r) observed_at (next_enemy_id r)
           in r\<lparr>enemies := enemies r @ [e], next_enemy_id := next_enemy_id r + 1,
                pending_events := pending_events r @ enemy_spawn_events e, boss_spawned := True\<rparr>)"

section \<open>Skills\<close>

record skill_cast_context =
  cast_index :: nat
  cast_player :: player_id
  cast_skill_id :: skill_id
  cast_sequence :: u64
  cast_at :: time_point
  cast_cooldown :: millis
  cast_damage :: u64

definition track_cooldown :: "skill_cooldown list \<Rightarrow> skill_id \<Rightarrow> time_point \<Rightarrow> skill_cooldown list" where
  "track_cooldown cds skill ready =
     (case locate cd_skill_id cds skill of
        Some i \<Rightarrow> cds[i := (cds ! i)\<lparr>cd_ready_at := ready\<rparr>]
      | None \<Rightarrow> vec_insert (lower_bound cd_skill_id cds skill) \<lparr>cd_skill_id = skill, cd_ready_at = ready\<rparr> cds)"

definition commitSkillUse :: "room \<Rightarrow> skill_cast_context \<Rightarrow> room" where
  "commitSkillUse r ctx =
     (let p = participants r ! cast_index ctx
      in r\<lparr>participants := (participants r)[cast_index ctx :=
             p\<lparr>cooldowns := track_cooldown (cooldowns p) (cast_skill_id ctx)
                  (after_ms (cast_at ctx) (cast_cooldown ctx)),
               applied_skill_sequence := cast_sequence ctx\<rparr>]\<rparr>)"

definition finishSkillUse :: "room \<Rightarrow> player_id \<Rightarrow> room_result \<times> room" where
  "finishSkillUse r player =
     (let result = baseResult r Applied (Some player)
      in if length (pending_events r) \<ge> unat (digest_flush_threshold (config r))
         then let (digest, r1) = takeDigest r
              in (result\<lparr>rr_digest := digest, rr_audience := audience r1\<rparr>, r1)
         else (result, r))"

definition damage_enemy :: "player_id \<Rightarrow> skill_id \<Rightarrow> u64 \<Rightarrow> enemy \<Rightarrow> enemy \<times> battle_event list" where
  "damage_enemy actor skill amount target =
     (let damage = min amount (en_health target);
          health = en_health target - damage
      in (target\<lparr>en_health := health\<rparr>,
          EnemyDamaged (en_id target) actor skill damage health #
            (if health = 0 then [EnemyDied (en_id target)] else [])))"

definition in_area :: "arena_position \<Rightarrow> u32 \<Rightarrow> enemy \<Rightarrow> bool" where
  "in_area origin rng e \<longleftrightarrow> \<not> (en_health e = 0 \<or> \<not> isWithinRange origin (en_position e) rng)"

definition area_hit ::
  "player_id \<Rightarrow> skill_id \<Rightarrow> u64 \<Rightarrow> arena_position \<Rightarrow> u32 \<Rightarrow> enemy \<Rightarrow> enemy \<times> battle_event list" where
  "area_hit actor skill amount origin rng e =
     (if in_area origin rng e then damage_enemy actor skill amount e else (e, []))"

definition applyAreaAttack :: "room \<Rightarrow> skill_cast_context \<Rightarrow> u32 \<Rightarrow> room_result \<times> room" where
  "applyAreaAttack r ctx rng =
     (let r1 = commitSkillUse r ctx;
          origin = pa_position (participants r1 ! cast_index ctx);
          hits = map (area_hit (cast_player ctx) (cast_skill_id ctx) (cast_damage ctx) origin rng) (enemies r1);
          any_enemy_hit = list_ex (in_area origin rng) (enemies r1);
          boss_killed = list_ex (\<lambda>e. in_area origin rng e \<and> en_kind e = Boss \<and>
             en_health e - min (cast_damage ctx) (en_health e) = 0) (enemies r1);
          r2 = r1\<lparr>enemies := map fst hits, pending_events := pending_events r1 @ concat (map snd hits)\<rparr>
      in if \<not> any_enemy_hit
         then finishSkillUse (r2\<lparr>pending_events := pending_events r2 @
                [SkillWhiffed (cast_player ctx) (cast_skill_id ctx)]\<rparr>) (cast_player ctx)
         else if boss_killed then clearBattle r2 (Some (cast_player ctx))
         else finishSkillUse r2 (cast_player ctx))"

definition next_projectile :: "projectile_id \<Rightarrow> projectile_id" where
  "next_projectile i = (if i = UINT32_MAX then 0 else i + 1)"

definition new_projectile ::
  "room \<Rightarrow> skill_cast_context \<Rightarrow> enemy \<Rightarrow> u32 \<Rightarrow> u32 \<Rightarrow> millis \<Rightarrow> projectile" where
  "new_projectile r ctx target speed hit lifetime =
     \<lparr>pr_id = next_projectile_id r, pr_owner = cast_player ctx, pr_skill_id = cast_skill_id ctx,
      pr_target = en_id target, pr_position = pa_position (participants r ! cast_index ctx),
      pr_speed_per_tick = speed, pr_hit_range = hit, pr_damage = cast_damage ctx,
      pr_expires_at = after_ms (cast_at ctx) lifetime\<rparr>"

definition projectile_spawn_event :: "projectile \<Rightarrow> battle_event" where
  "projectile_spawn_event p =
     ProjectileSpawned (pr_id p) (pr_owner p) (pr_skill_id p) (pr_target p) (pr_position p)"

definition spawnHomingProjectile ::
  "room \<Rightarrow> skill_cast_context \<Rightarrow> u32 \<Rightarrow> u32 \<Rightarrow> u32 \<Rightarrow> millis \<Rightarrow> room_result \<times> room" where
  "spawnHomingProjectile r ctx acquisition speed hit lifetime =
     (case findTargetEnemy r (pa_position (participants r ! cast_index ctx)) acquisition of
        None \<Rightarrow>
          let r1 = commitSkillUse r ctx
          in finishSkillUse (r1\<lparr>pending_events := pending_events r1 @
               [SkillWhiffed (cast_player ctx) (cast_skill_id ctx)]\<rparr>) (cast_player ctx)
      | Some target \<Rightarrow>
          if length (projectiles r) \<ge> unat (max_active_projectiles (config r)) \<or> next_projectile_id r = 0
          then (baseResult r ProjectileCapacityExceeded (Some (cast_player ctx)), r)
          else let r1 = commitSkillUse r ctx;
                   p = new_projectile r1 ctx target speed hit lifetime
               in finishSkillUse (r1\<lparr>next_projectile_id := next_projectile (next_projectile_id r1),
                    projectiles := projectiles r1 @ [p],
                    pending_events := pending_events r1 @ [projectile_spawn_event p]\<rparr>) (cast_player ctx))"

section \<open>Projectiles in flight\<close>

datatype projectile_advance_result = Active | Removed | BossKilled

definition projectile_approach ::
  "room_config \<Rightarrow> projectile \<Rightarrow> arena_position \<Rightarrow> projectile \<times> battle_event list" where
  "projectile_approach c p target_position =
     (if isWithinRange (pr_position p) target_position (pr_hit_range p) then (p, [])
      else let moved = moveToward (pr_position p) target_position (pr_speed_per_tick p)
                         (arena_width c) (arena_height c)
           in if moved = pr_position p then (p, [])
              else (p\<lparr>pr_position := moved\<rparr>, [ProjectileMoved (pr_id p) moved]))"

definition advanceProjectile ::
  "room_config \<Rightarrow> time_point \<Rightarrow> projectile \<Rightarrow> enemy list \<Rightarrow>
   projectile_advance_result \<times> projectile \<times> enemy list \<times> battle_event list" where
  "advanceProjectile c observed_at p es =
     (if pr_expires_at p \<le> observed_at then (Removed, p, es, [ProjectileRemoved (pr_id p) Expired])
      else case findLivingEnemy es (pr_target p) of
        None \<Rightarrow> (Removed, p, es, [ProjectileRemoved (pr_id p) TargetLost])
      | Some i \<Rightarrow>
          let (p1, approach) = projectile_approach c p (en_position (es ! i))
          in if \<not> isWithinRange (pr_position p1) (en_position (es ! i)) (pr_hit_range p1)
             then (Active, p1, es, approach)
             else let (target, events) = damage_enemy (pr_owner p1) (pr_skill_id p1) (pr_damage p1) (es ! i)
                  in (if en_health target = 0 \<and> en_kind target = Boss then BossKilled else Removed,
                      p1, es[i := target], approach @ events @ [ProjectileRemoved (pr_id p1) Hit]))"

fun advance_projectiles ::
  "room_config \<Rightarrow> time_point \<Rightarrow> projectile list \<Rightarrow> enemy list \<Rightarrow>
   projectile list \<times> enemy list \<times> battle_event list \<times> bool" where
  "advance_projectiles c observed_at [] es = ([], es, [], False)"
| "advance_projectiles c observed_at (p # ps) es =
     (let (outcome, p', es', events) = advanceProjectile c observed_at p es
      in case outcome of
           BossKilled \<Rightarrow> (p' # ps, es', events, True)
         | Removed \<Rightarrow> let (ps', es'', events', killed) = advance_projectiles c observed_at ps es'
                      in (ps', es'', events @ events', killed)
         | Active \<Rightarrow> let (ps', es'', events', killed) = advance_projectiles c observed_at ps es'
                     in (p' # ps', es'', events @ events', killed))"

definition advanceProjectiles :: "room \<Rightarrow> time_point \<Rightarrow> bool \<times> room" where
  "advanceProjectiles r observed_at =
     (let (ps, es, events, killed) = advance_projectiles (config r) observed_at (projectiles r) (enemies r)
      in (killed, r\<lparr>projectiles := ps, enemies := es, pending_events := pending_events r @ events\<rparr>))"

section \<open>Command handlers\<close>

definition new_participant :: "player_id \<Rightarrow> combat_stats \<Rightarrow> skill_id \<Rightarrow> participant" where
  "new_participant player stats skill =
     \<lparr>pa_player_id = player, pa_stats = stats, pa_equipped_skill_id = skill,
      current_health = stat_health stats, pa_position = \<lparr>pos_x = 0, pos_y = 0\<rparr>, move_intent = Stop,
      applied_skill_sequence = 0, applied_movement_sequence = 0, cooldowns = []\<rparr>"

definition handleJoin :: "room \<Rightarrow> player_id \<Rightarrow> combat_stats \<Rightarrow> skill_id \<Rightarrow> room_result \<times> room" where
  "handleJoin r player stats skill =
     (if phase r \<noteq> Waiting then (baseResult r WrongPhase (Some player), r)
      else if findParticipant r player \<noteq> None then (baseResult r AlreadyJoined (Some player), r)
      else if length (participants r) \<ge> unat (max_participants (config r))
      then (baseResult r RoomFull (Some player), r)
      else let r1 = r\<lparr>participants := vec_insert (lower_bound pa_player_id (participants r) player)
                        (new_participant player stats skill) (participants r)\<rparr>
           in (baseResult r1 Applied (Some player), r1))"

definition handleLeave :: "room \<Rightarrow> player_id \<Rightarrow> room_result \<times> room" where
  "handleLeave r player =
     (if phase r = Cleared \<or> phase r = Failed then (baseResult r WrongPhase (Some player), r)
      else case findParticipant r player of
        None \<Rightarrow> (baseResult r NotJoined (Some player), r)
      | Some position \<Rightarrow>
           let r1 = r\<lparr>participants := vec_erase position (participants r)\<rparr>
           in if phase r \<noteq> Running then (baseResult r1 Applied (Some player), r1)
              else if participants r1 = []
              then let r2 = r1\<lparr>pending_events := [], projectiles := []\<rparr>
                   in (baseResult r2 Applied (Some player), r2)
              else let r2 = r1\<lparr>pending_events := pending_events r1 @ [ParticipantLeft player]\<rparr>
                   in if allParticipantsDead (participants r2)
                      then failBattle r2 Applied (Some player) ParticipantsDefeated
                      else let result = baseResult r2 Applied (Some player);
                               (digest, r3) = takeDigest r2
                           in (result\<lparr>rr_digest := digest, rr_audience := audience r3\<rparr>, r3))"

definition handleStart :: "room \<Rightarrow> time_point \<Rightarrow> room_result \<times> room" where
  "handleStart r observed_at =
     (if \<not> canStartBattle r then (baseResult r WrongPhase None, r)
      else let c = config r;
               r1 = r\<lparr>phase := Running, battle_deadline_at := after_ms observed_at (battle_duration c),
                      next_wave_at := after_ms observed_at (wave_interval c),
                      boss_spawn_at := after_ms observed_at (boss_spawn_after c)\<rparr>;
               r2 = spawnWave (initializeArena r1) observed_at;
               result = baseResult r2 Applied None;
               (digest, r3) = takeDigest r2
           in (result\<lparr>rr_deadline_after := Some (battle_duration c), rr_tick_after := Some (tick_interval c),
                      rr_digest := digest, rr_audience := (if digest = None then [] else audience r3)\<rparr>, r3))"

definition on_cooldown :: "participant \<Rightarrow> skill_id \<Rightarrow> time_point \<Rightarrow> bool" where
  "on_cooldown p skill observed_at =
     (case locate cd_skill_id (cooldowns p) skill of
        None \<Rightarrow> False
      | Some i \<Rightarrow> observed_at < cd_ready_at (cooldowns p ! i))"

definition cast_skill :: "room \<Rightarrow> skill_cast_context \<Rightarrow> attack_behavior \<Rightarrow> room_result \<times> room" where
  "cast_skill r ctx behavior =
     (case behavior of
        AreaAttackBehavior _ rng \<Rightarrow> applyAreaAttack r ctx rng
      | HomingProjectileAttackBehavior _ acquisition speed hit lifetime \<Rightarrow>
          spawnHomingProjectile r ctx acquisition speed hit lifetime)"

definition handleUseSkill ::
  "room \<Rightarrow> player_id \<Rightarrow> skill_id \<Rightarrow> u64 \<Rightarrow> time_point \<Rightarrow> room_result \<times> room" where
  "handleUseSkill r player skill sequence observed_at =
     (if phase r \<noteq> Running then (baseResult r WrongPhase (Some player), r)
      else if observed_at \<ge> battle_deadline_at r
      then failBattle r BattleExpired (Some player) Deadline
      else case findParticipant r player of
        None \<Rightarrow> (baseResult r NotJoined (Some player), r)
      | Some i \<Rightarrow>
          let p = participants r ! i
          in if sequence \<le> applied_skill_sequence p then (baseResult r DuplicateRequest (Some player), r)
             else if current_health p = 0 then (baseResult r ParticipantDead (Some player), r)
             else case findSkill skill of
               None \<Rightarrow> (baseResult r UnknownSkill (Some player), r)
             | Some d \<Rightarrow>
                 if skill \<noteq> pa_equipped_skill_id p then (baseResult r SkillNotEquipped (Some player), r)
                 else if on_cooldown p skill observed_at then (baseResult r SkillOnCooldown (Some player), r)
                 else cast_skill r
                   \<lparr>cast_index = i, cast_player = player, cast_skill_id = skill, cast_sequence = sequence,
                    cast_at = observed_at, cast_cooldown = def_cooldown d,
                    cast_damage = calculateSkillDamage d (stat_attack (pa_stats p))\<rparr> (def_behavior d))"

definition handleSetMoveIntent ::
  "room \<Rightarrow> player_id \<Rightarrow> move_direction \<Rightarrow> u64 \<Rightarrow> time_point \<Rightarrow> room_result \<times> room" where
  "handleSetMoveIntent r player direction sequence observed_at =
     (if phase r \<noteq> Running then (baseResult r WrongPhase (Some player), r)
      else if observed_at \<ge> battle_deadline_at r
      then failBattle r BattleExpired (Some player) Deadline
      else case findParticipant r player of
        None \<Rightarrow> (baseResult r NotJoined (Some player), r)
      | Some i \<Rightarrow>
          let p = participants r ! i
          in if sequence \<le> applied_movement_sequence p then (baseResult r DuplicateRequest (Some player), r)
             else if current_health p = 0 then (baseResult r ParticipantDead (Some player), r)
             else let r1 = r\<lparr>participants := (participants r)[i :=
                         p\<lparr>applied_movement_sequence := sequence, move_intent := direction\<rparr>]\<rparr>
                  in (baseResult r1 Applied (Some player), r1))"

definition handleDeadline :: "room \<Rightarrow> time_point \<Rightarrow> room_result \<times> room" where
  "handleDeadline r observed_at =
     (if phase r \<noteq> Running \<or> observed_at < battle_deadline_at r then (baseResult r WrongPhase None, r)
      else failBattle r Applied None Deadline)"

text \<open>The wave loop of the tick: every turn raises the number of spawned waves.\<close>

function spawn_due_waves :: "room \<Rightarrow> time_point \<Rightarrow> room" where
  "spawn_due_waves r observed_at =
     (if spawned_wave_count r < wave_count (config r) \<and> observed_at \<ge> next_wave_at r
      then let r1 = spawnWave r observed_at
           in spawn_due_waves (r1\<lparr>next_wave_at := after_ms (next_wave_at r1) (wave_interval (config r))\<rparr>) observed_at
      else r)"
  by pat_completeness auto

termination
proof (relation "measure (\<lambda>(r, t). unat (wave_count (config r)) - unat (spawned_wave_count r))", goal_cases)
  case (2 r t x)
  then have "unat (spawned_wave_count r) < unat (wave_count (config r))"
    by (simp add: word_less_nat_alt)
  moreover from this have "unat (spawned_wave_count r + 1) = Suc (unat (spawned_wave_count r))"
    using unat_u64_lt [of "wave_count (config r)"] by (simp add: unat_add_small)
  ultimately show ?case
    using 2 by (auto simp: spawnWave_def Let_def word_less_nat_alt word_le_nat_alt)
qed simp

declare spawn_due_waves.simps [simp del]

definition spawn_due_boss :: "room \<Rightarrow> time_point \<Rightarrow> room" where
  "spawn_due_boss r observed_at =
     (if \<not> boss_spawned r \<and> observed_at \<ge> boss_spawn_at r then spawnBoss r observed_at else r)"

definition erase_dead :: "room \<Rightarrow> room" where
  "erase_dead r = r\<lparr>enemies := filter (\<lambda>e. en_health e \<noteq> 0) (enemies r)\<rparr>"

definition handleTick :: "room \<Rightarrow> time_point \<Rightarrow> room_result \<times> room" where
  "handleTick r observed_at =
     (if phase r \<noteq> Running then (baseResult r WrongPhase None, r)
      else if observed_at \<ge> battle_deadline_at r then failBattle r Applied None Deadline
      else let (boss_killed, r1) = advanceProjectiles (moveParticipants (erase_dead r)) observed_at
           in if boss_killed then clearBattle r1 None
              else let (fighting, r2) = actEnemies r1 observed_at
                   in if \<not> fighting then failBattle r2 Applied None ParticipantsDefeated
                      else let r3 = spawn_due_boss (spawn_due_waves r2 observed_at) observed_at;
                               result = baseResult r3 Applied None;
                               (digest, r4) = takeDigest r3
                           in (result\<lparr>rr_digest := digest,
                                 rr_audience := (if digest = None then [] else audience r4),
                                 rr_tick_after := Some (tick_interval (config r))\<rparr>, r4))"

definition room_handle :: "room \<Rightarrow> room_command \<Rightarrow> time_point \<Rightarrow> room_result \<times> room" where
  "room_handle r command observed_at =
     (case command of
        JoinRoom player stats skill \<Rightarrow> handleJoin r player stats skill
      | LeaveRoom player \<Rightarrow> handleLeave r player
      | StartBattle \<Rightarrow> handleStart r observed_at
      | UseSkill player skill sequence \<Rightarrow> handleUseSkill r player skill sequence observed_at
      | BattleDeadline \<Rightarrow> handleDeadline r observed_at
      | RoomSimulationTick \<Rightarrow> handleTick r observed_at
      | SetMoveIntent player direction sequence \<Rightarrow>
          handleSetMoveIntent r player direction sequence observed_at)"

definition room_step :: "room \<Rightarrow> room_command \<times> time_point \<Rightarrow> room_result \<times> room" where
  "room_step r c = room_handle r (fst c) (snd c)"

end
