(* ===== verification/Room_Inv.thy ===== *)
theory Room_Inv
  imports Room_Steps "HOL-Library.Sublist"
begin

text \<open>
  What a constructed room keeps: the facts its validated configuration guarantees, the
  invariants of the roster, the enemies, the projectiles and the schedule, and that every
  battle operation of \<^verbatim>\<open>src/game/room.cpp\<close> preserves them.
\<close>

section \<open>What the constructor validates\<close>

lemma first_error_None: "first_error checks = None \<longleftrightarrow> list_all (\<lambda>(bad, e). \<not> bad) checks"
  by (induction checks rule: first_error.induct) auto

definition config_ok :: "room_config \<Rightarrow> bool" where
  "config_ok c \<longleftrightarrow> room_config_error 1 c = None"

lemma config_checked:
  assumes "config_ok c"
  shows "list_all (\<lambda>(bad, e). \<not> bad) (room_scalar_checks 1 c)"
    and "list_all (\<lambda>(bad, e). \<not> bad) (room_arena_checks c)"
    and "list_all (\<lambda>(bad, e). \<not> bad) (room_reserve_checks c)"
  using assms by (simp_all only: config_ok_def room_config_error_def first_error_None list_all_append)

lemma config_ok_of_room: "room_config_error room c = None \<Longrightarrow> config_ok c"
  unfolding config_ok_def room_config_error_def first_error_None list_all_append
  by (auto simp: room_scalar_checks_def)

lemmas scalar_checks = config_checked(1) [unfolded room_scalar_checks_def]
lemmas arena_checks = config_checked(2) [unfolded room_arena_checks_def Let_def]
lemmas reserve_checks = config_checked(3) [unfolded room_reserve_checks_def Let_def]

lemma config_scalars:
  assumes "config_ok c"
  shows "0 < battle_duration c" "max_participants c \<noteq> 0" "boss_health c \<noteq> 0" "0 < wave_interval c"
    "0 < boss_spawn_after c" "boss_spawn_after c < battle_duration c" "digest_flush_threshold c \<noteq> 0"
    "wave_count c = 0 \<longleftrightarrow> minions_per_wave c = 0" "minion_health c \<noteq> 0"
    "0 < tick_interval c"
  using scalar_checks [OF assms] by auto

lemma config_arena:
  assumes "config_ok c"
  shows "arena_width c \<noteq> 0" "arena_height c \<noteq> 0"
  using arena_checks [OF assms] by auto

lemma product_fits:
  fixes a b k :: u64
  assumes "b \<noteq> 0" and "a \<le> (UINT64_MAX - k) div b"
  shows "unat b * unat a \<le> 18446744073709551615 - unat k"
proof -
  have k: "unat (UINT64_MAX - k) = 18446744073709551615 - unat k"
    by (subst unat_sub_le) (simp_all add: unat_u64_max)
  have "unat a \<le> (18446744073709551615 - unat k) div unat b"
    using assms(2) by (simp add: word_le_nat_alt unat_div k)
  moreover have "0 < unat b" using assms(1) by (simp add: unat_gt_0)
  ultimately have "unat a * unat b \<le> 18446744073709551615 - unat k"
    by (simp add: less_eq_div_iff_mult_less_eq)
  then show ?thesis by (simp add: mult.commute)
qed

lemma config_enemies:
  assumes "config_ok c"
  shows "unat (wave_count c) * unat (minions_per_wave c) + 1 \<le> unat (max_spawned_enemies c)"
    and "unat (max_spawned_enemies c) < 4294967296"
proof -
  let ?w = "wave_count c" and ?m = "minions_per_wave c"
  have "unat ?w * unat ?m \<le> 18446744073709551615 - unat (1 :: u64)"
  proof (cases "?w = 0")
    case False
    moreover have "?m \<le> (UINT64_MAX - 1) div ?w"
      using scalar_checks [OF assms] False by auto
    ultimately show ?thesis by (rule product_fits)
  qed simp
  then have p: "unat (?w * ?m) = unat ?w * unat ?m" and "unat ?w * unat ?m + 1 < 18446744073709551616"
    by (simp_all add: unat_mult_small)
  then have "unat (total_enemies c) = unat ?w * unat ?m + 1"
    by (simp add: total_enemies_def unat_add_small)
  moreover have "total_enemies c \<le> max_spawned_enemies c"
    using scalar_checks [OF assms] by auto
  ultimately show "unat ?w * unat ?m + 1 \<le> unat (max_spawned_enemies c)"
    by (simp add: word_le_nat_alt)
  have "max_spawned_enemies c \<le> ucast UINT32_MAX"
    using scalar_checks [OF assms] by (auto simp: not_less)
  then show "unat (max_spawned_enemies c) < 4294967296"
    by (simp only: word_le_nat_alt unat_u32_u64 unat_u32_max)
qed

lemma config_wave_schedule:
  assumes "config_ok c"
  shows "int (unat (wave_count c) - 1) * wave_interval c \<le> boss_spawn_after c"
proof (cases "wave_count c > 1")
  case True
  let ?q = "boss_spawn_after c div wave_interval c"
  have pos: "0 < wave_interval c" "0 < boss_spawn_after c" using config_scalars [OF assms] by simp_all
  have "\<not> wave_count c - 1 > word_of_int ?q"
    using scalar_checks [OF assms] True by auto
  then have "uint (wave_count c - 1) \<le> uint (word_of_int ?q :: u64)"
    by (simp add: word_le_def not_less)
  also have "\<dots> \<le> ?q" using pos by (simp add: uint_word_of_int pos_imp_zdiv_nonneg_iff zmod_le_nonneg_dividend)
  finally have "uint (wave_count c - 1) \<le> ?q" .
  moreover have "unat (wave_count c - 1) = unat (wave_count c) - 1"
    using True by (subst unat_sub_le) (auto simp: word_le_nat_alt word_less_nat_alt)
  ultimately have "int (unat (wave_count c) - 1) \<le> ?q" by (metis uint_nat)
  then have "int (unat (wave_count c) - 1) * wave_interval c \<le> ?q * wave_interval c"
    using pos by (simp add: mult_right_mono)
  also have "\<dots> \<le> boss_spawn_after c" using pos by (simp add: minus_mod_eq_div_mult [symmetric])
  finally show ?thesis .
next
  case False
  then have "unat (wave_count c) \<le> 1" by (simp add: word_less_nat_alt)
  then show ?thesis using config_scalars(5) [OF assms] by simp
qed

lemma config_radius:
  assumes "config_ok c"
  shows "radius_fits (arena_width c) (arena_height c) (minion_spawn_radius c)"
proof -
  have side: "unat (ucast (w - 1) - ucast (w div 2) :: u64) = unat w - 1 - unat w div 2"
    if "w \<noteq> 0" for w :: u32
    using that by (subst unat_sub_le)
      (auto simp: word_le_nat_alt unat_u32_u64 unat_pred unat_div)
  have half: "m div 2 + r < m" if "m \<noteq> 0" "\<not> m - Suc (m div 2) < r" for m r :: nat
    using that by linarith
  show ?thesis
    using arena_checks [OF assms] config_arena [OF assms]
    by (auto simp: radius_fits_def word_less_nat_alt unat_u32_u64 side unat_div unat_gt_0 intro!: half)
qed

lemma config_formation:
  assumes "config_ok c"
  shows "formation_fits (arena_width c) (participant_spawn_spacing c) (unat (max_participants c) - 1)"
proof -
  define s where "s = (ucast (participant_spawn_spacing c) :: u64)"
  define n where "n = max_participants c - 1"
  define x where "x = (ucast (arena_width c div 2) :: u64)"
  have s0: "s \<noteq> 0" using arena_checks [OF assms] unat_u32_u64 [of "participant_spawn_spacing c"]
    by (auto simp: s_def word_unat_eq_iff)
  have "n \<le> UINT64_MAX div s" using arena_checks [OF assms] by (auto simp: s_def n_def)
  then have sn: "unat (s * n) = unat s * unat n"
    using product_fits [OF s0, of n 0] by (intro unat_mult_small) simp
  have fit: "\<not> (s * n) div 2 > x" "\<not> x - (s * n) div 2 + s * n \<ge> ucast (arena_width c)"
    using arena_checks [OF assms] by (auto simp: s_def n_def x_def)
  define M where "M = unat s * unat n"
  have half: "unat ((s * n) div 2) = M div 2" by (simp add: unat_div sn M_def)
  have le: "M div 2 \<le> unat x" using fit(1) by (simp add: word_less_nat_alt half)
  have start: "unat (x - (s * n) div 2) = unat x - M div 2"
    using fit(1) by (simp add: unat_sub_le half not_less)
  have xw: "unat x = unat (arena_width c) div 2" by (simp add: x_def unat_u32_u64 unat_div)
  have "unat x < 2147483648" using unat_u32_lt [of "arena_width c"] xw by simp
  then have "unat (x - (s * n) div 2) + unat (s * n) < 18446744073709551616"
    using le sn start by (simp add: M_def)
  then have "unat (x - (s * n) div 2 + s * n) = unat x - M div 2 + M"
    by (subst unat_add_small) (simp_all add: start sn M_def)
  then have "unat x - M div 2 + M < unat (arena_width c)"
    using fit(2) by (simp add: word_le_nat_alt not_le unat_u32_u64)
  then have "unat x + (M - M div 2) < unat (arena_width c)" using le by linarith
  moreover have "M = unat (participant_spawn_spacing c) * (unat (max_participants c) - 1)"
    using config_scalars(2) [OF assms] by (simp add: M_def s_def n_def unat_u32_u64 unat_minus_one)
  ultimately show ?thesis using le by (simp add: formation_fits_def Let_def xw)
qed

lemma config_reserve:
  assumes "config_ok c"
  shows "unat (event_reserve c) = unat (digest_flush_threshold c) + unat (max_participants c) +
    3 * unat (max_spawned_enemies c) + 4 * unat (max_active_projectiles c)"
proof -
  define t p e a where "t = digest_flush_threshold c" and "p = max_participants c"
    and "e = max_spawned_enemies c" and "a = max_active_projectiles c"
  note K = MAX_EVENTS_PER_ENEMY_def MAX_EVENTS_PER_PROJECTILE_def
  have checks: "\<not> p > UINT64_MAX - t" "\<not> e > (UINT64_MAX - (t + p)) div 3"
    "\<not> a > (UINT64_MAX - (t + p) - 3 * e) div 4"
    using reserve_checks [OF assms] by (auto simp: K t_def p_def e_def a_def)
  have "unat (UINT64_MAX - t) = 18446744073709551615 - unat t"
    by (subst unat_sub_le) (simp_all add: unat_u64_max)
  then have tp: "unat (t + p) = unat t + unat p"
    using checks(1) unat_u64_lt [of t] by (intro unat_add_small) (simp add: word_less_nat_alt)
  have "3 * unat e \<le> 18446744073709551615 - unat (t + p)"
    using product_fits [of 3 e "t + p"] checks(2) by simp
  then have e3: "unat (3 * e) = 3 * unat e" and tpe: "unat (t + p) + 3 * unat e \<le> 18446744073709551615"
    using unat_mult_small [of 3 e] unat_u64_lt [of "t + p"] by auto
  then have s: "unat (t + p + 3 * e) = unat t + unat p + 3 * unat e"
    using unat_add_small [of "t + p" "3 * e"] tp by simp
  have "4 * unat a \<le> 18446744073709551615 - unat (t + p + 3 * e)"
    using product_fits [of 4 a "t + p + 3 * e"] checks(3) by (simp add: diff_diff_eq)
  then have "unat (4 * a) = 4 * unat a" and "unat (t + p + 3 * e) + 4 * unat a < 18446744073709551616"
    using unat_mult_small [of 4 a] unat_u64_lt [of "t + p + 3 * e"] by auto
  then show ?thesis
    using unat_add_small [of "t + p + 3 * e" "4 * a"] s
    by (simp add: event_reserve_def K t_def p_def e_def a_def)
qed

section \<open>Invariants of the battle data\<close>

definition participant_ok :: "room_config \<Rightarrow> participant \<Rightarrow> bool" where
  "participant_ok c p \<longleftrightarrow>
     current_health p \<le> stat_health (pa_stats p) \<and>
     in_arena (arena_width c) (arena_height c) (pa_position p) \<and>
     (current_health p = 0 \<longrightarrow> move_intent p = Stop) \<and> key_sorted cd_skill_id (cooldowns p)"

definition roster_ok :: "room_config \<Rightarrow> participant list \<Rightarrow> bool" where
  "roster_ok c ps \<longleftrightarrow>
     key_sorted pa_player_id ps \<and> length ps \<le> unat (max_participants c) \<and> list_all (participant_ok c) ps"

definition enemy_ok :: "room_config \<Rightarrow> enemy \<Rightarrow> bool" where
  "enemy_ok c e \<longleftrightarrow>
     in_arena (arena_width c) (arena_height c) (en_position e) \<and>
     en_health e \<le> (if en_kind e = Minion then minion_health c else boss_health c)"

definition enemies_made :: "room \<Rightarrow> nat" where
  "enemies_made r =
     unat (spawned_wave_count r) * unat (minions_per_wave (config r)) + (if boss_spawned r then 1 else 0)"

text \<open>The counter of enemy identifiers may wrap once the last enemy has its identifier, so the
  identifiers are bounded by the number of enemies made so far.\<close>

definition horde_ok :: "room \<Rightarrow> bool" where
  "horde_ok r \<longleftrightarrow>
     spawned_wave_count r \<le> wave_count (config r) \<and> next_enemy_id r = of_nat (Suc (enemies_made r)) \<and>
     key_sorted en_id (enemies r) \<and> list_all (enemy_ok (config r)) (enemies r) \<and>
     (\<forall>i \<in> set (map en_id (enemies r)). 0 < unat i \<and> unat i \<le> enemies_made r) \<and>
     length (enemies r) \<le> enemies_made r \<and>
     count_list (map en_kind (enemies r)) Boss \<le> (if boss_spawned r then 1 else 0)"

definition flight_ok :: "room_config \<Rightarrow> projectile_id \<Rightarrow> projectile list \<Rightarrow> bool" where
  "flight_ok c next ps \<longleftrightarrow>
     length ps \<le> unat (max_active_projectiles c) \<and> key_sorted pr_id ps \<and>
     list_all (\<lambda>p. in_arena (arena_width c) (arena_height c) (pr_position p) \<and> 0 < pr_id p \<and>
       (next = 0 \<or> pr_id p < next)) ps"

text \<open>The schedule of a started battle, counted back from its deadline.\<close>

definition started_at :: "room \<Rightarrow> time_point" where
  "started_at r = after_ms (battle_deadline_at r) (- battle_duration (config r))"

definition schedule_ok :: "room \<Rightarrow> bool" where
  "schedule_ok r \<longleftrightarrow>
     boss_spawn_at r = after_ms (started_at r) (boss_spawn_after (config r)) \<and>
     (wave_count (config r) \<noteq> 0 \<longrightarrow> next_wave_at r =
        after_ms (started_at r) (int (unat (spawned_wave_count r)) * wave_interval (config r))) \<and>
     (boss_spawned r \<longrightarrow> spawned_wave_count r = wave_count (config r))"

definition battle_ok :: "room \<Rightarrow> bool" where
  "battle_ok r \<longleftrightarrow>
     config_ok (config r) \<and> roster_ok (config r) (participants r) \<and> horde_ok r \<and>
     flight_ok (config r) (next_projectile_id r) (projectiles r) \<and> schedule_ok r"

definition boss_alive :: "room \<Rightarrow> bool" where
  "boss_alive r \<longleftrightarrow> (boss_spawned r \<longrightarrow> (\<exists>e \<in> set (enemies r). en_kind e = Boss \<and> en_health e \<noteq> 0))"

definition room_inv :: "room \<Rightarrow> bool" where
  "room_inv r \<longleftrightarrow>
     (case phase r of
        Waiting \<Rightarrow> config_ok (config r) \<and> roster_ok (config r) (participants r) \<and>
          spawned_wave_count r = 0 \<and> next_enemy_id r = 1 \<and> next_projectile_id r = 1 \<and>
          \<not> boss_spawned r \<and> enemies r = [] \<and> projectiles r = [] \<and> pending_events r = []
      | Running \<Rightarrow> battle_ok r \<and> boss_alive r \<and>
          length (pending_events r) < unat (digest_flush_threshold (config r))
      | _ \<Rightarrow> battle_ok r \<and> projectiles r = [] \<and> pending_events r = [])"

section \<open>Rosters\<close>

lemma roster_okD:
  assumes "roster_ok c ps"
  shows "key_sorted pa_player_id ps" "length ps \<le> unat (max_participants c)"
    "p \<in> set ps \<Longrightarrow> participant_ok c p"
  using assms by (auto simp: roster_ok_def list_all_iff)

lemma roster_map:
  assumes "roster_ok c ps" and "\<And>p. p \<in> set ps \<Longrightarrow> pa_player_id (f p) = pa_player_id p"
    and "\<And>p. participant_ok c p \<Longrightarrow> participant_ok c (f p)"
  shows "roster_ok c (map f ps)"
proof -
  have "map pa_player_id (map f ps) = map pa_player_id ps" using assms(2) by simp
  then have "key_sorted pa_player_id (map f ps)"
    using roster_okD(1) [OF assms(1)] key_sorted_map_key by blast
  then show ?thesis using roster_okD(2,3) [OF assms(1)] assms(3) by (simp add: roster_ok_def list_all_iff)
qed

lemma roster_update:
  assumes "roster_ok c ps" and "pa_player_id p = pa_player_id (ps ! i)"
    and "i < length ps" and "participant_ok c (ps ! i) \<Longrightarrow> participant_ok c p"
  shows "roster_ok c (ps[i := p])"
proof -
  have "key_sorted pa_player_id (ps[i := p])"
    using key_sorted_update [of pa_player_id ps "\<lambda>_. p" i] assms(2) roster_okD(1) [OF assms(1)] by simp
  moreover have "participant_ok c q" if "q \<in> set (ps[i := p])" for q
    using set_update_subset_insert [of ps i p] that roster_okD(3) [OF assms(1)] assms(3,4) by auto
  ultimately show ?thesis using roster_okD(2) [OF assms(1)] by (simp add: roster_ok_def list_all_iff)
qed

lemma roster_insert:
  assumes ok: "roster_ok c ps" and "locate pa_player_id ps (pa_player_id p) = None"
    and "length ps < unat (max_participants c)" and "participant_ok c p"
  shows "roster_ok c (vec_insert (lower_bound pa_player_id ps (pa_player_id p)) p ps)"
  using assms vec_insert_sorted [of pa_player_id ps p] locate_None [of pa_player_id ps "pa_player_id p"]
  by (auto simp: roster_ok_def list_all_iff set_vec_insert length_vec_insert)

lemma roster_erase:
  assumes "roster_ok c ps" and "i < length ps"
  shows "roster_ok c (vec_erase i ps)"
  using assms set_vec_erase [of pa_player_id ps i]
  by (auto simp: roster_ok_def list_all_iff vec_erase_sorted length_vec_erase)

lemma roster_enumerate:
  assumes "roster_ok c ps" and "\<And>i p. pa_player_id (f i p) = pa_player_id p"
    and "\<And>i p. i < length ps \<Longrightarrow> p = ps ! i \<Longrightarrow> participant_ok c (f i p)"
  shows "roster_ok c (map (\<lambda>(i, p). f i p) (enumerate 0 ps))"
proof -
  let ?qs = "map (\<lambda>(i, p). f i p) (enumerate 0 ps)"
  have "map pa_player_id ?qs = map pa_player_id ps"
    by (rule nth_equalityI) (auto simp: assms(2) nth_enumerate_eq)
  then have "key_sorted pa_player_id ?qs"
    using roster_okD(1) [OF assms(1)] key_sorted_map_key by blast
  then show ?thesis using roster_okD(2) [OF assms(1)] assms(3)
    by (simp add: roster_ok_def list_all_length nth_enumerate_eq)
qed

section \<open>The nearest candidate\<close>

lemma nearest_scan_found:
  assumes "nearest_scan P d k i cs b D = Some (j, x)" and "b \<noteq> Some (j, x)"
  shows "i \<le> j \<and> j < i + length cs \<and> x = cs ! (j - i) \<and> P x"
  using assms
proof (induction cs arbitrary: i b D)
  case (Cons c cs)
  have rest: ?case if "nearest_scan P d k (Suc i) cs b' D' = Some (j, x)" "b' \<noteq> Some (j, x)" for b' D'
    using Cons.IH [OF that] by (auto simp: nth_Cons' Suc_diff_le)
  show ?case
  proof (cases "P c \<and> (case b of None \<Rightarrow> True
      | Some (_, n) \<Rightarrow> d c < D \<or> d c = D \<and> k c < k n)")
    case True
    then have "nearest_scan P d k (Suc i) cs (Some (i, c)) (d c) = Some (j, x)"
      using Cons.prems(1) by (simp add: Let_def)
    with rest True show ?thesis by (cases "(i, c) = (j, x)") auto
  next
    case False
    then have "nearest_scan P d k (Suc i) cs b D = Some (j, x)"
      using Cons.prems(1) by (auto simp: Let_def split: if_splits)
    with rest Cons.prems(2) show ?thesis by blast
  qed
qed simp

lemma nearestLivingParticipant_Some:
  assumes "nearestLivingParticipant ps origin = Some i"
  shows "i < length ps" and "current_health (ps ! i) \<noteq> 0" and "ps ! i \<in> set ps"
proof -
  obtain x where "nearest_scan (\<lambda>p. current_health p \<noteq> 0) (\<lambda>p. squaredDistance origin (pa_position p))
      pa_player_id 0 ps None UINT64_MAX = Some (i, x)"
    using assms by (auto simp: nearestLivingParticipant_def)
  from nearest_scan_found [OF this]
  show "i < length ps" and "current_health (ps ! i) \<noteq> 0" and "ps ! i \<in> set ps" by auto
qed

lemma nearest_scan_None:
  "nearest_scan P d k i cs b D = None \<longleftrightarrow> b = None \<and> (\<forall>c \<in> set cs. \<not> P c)"
  by (induction cs arbitrary: i b D) (auto simp: Let_def simp del: not_None_eq split: option.split_asm)

lemma find_index_Some:
  "find_index P xs = Some i \<Longrightarrow> i < length xs \<and> P (xs ! i)"
  by (induction xs arbitrary: i) (auto split: if_splits)

lemma findLivingEnemy_Some:
  assumes "findLivingEnemy es target = Some i"
  shows "i < length es" and "en_health (es ! i) \<noteq> 0" and "en_id (es ! i) = target" and "es ! i \<in> set es"
  using assms find_index_Some [of "\<lambda>e. en_id e = target" es i]
  by (auto simp: findLivingEnemy_def split: option.splits if_splits)

section \<open>What the invariants depend on\<close>

lemma horde_ok_frame [simp]:
  "horde_ok (r\<lparr>participants := ps\<rparr>) = horde_ok r"
  "horde_ok (r\<lparr>projectiles := qs\<rparr>) = horde_ok r"
  "horde_ok (r\<lparr>pending_events := ev\<rparr>) = horde_ok r"
  "horde_ok (r\<lparr>phase := ph\<rparr>) = horde_ok r"
  "horde_ok (r\<lparr>digest_counter := n\<rparr>) = horde_ok r"
  "horde_ok (r\<lparr>next_projectile_id := i\<rparr>) = horde_ok r"
  "horde_ok (r\<lparr>next_wave_at := t\<rparr>) = horde_ok r"
  by (simp_all add: horde_ok_def enemies_made_def)

lemma schedule_ok_frame [simp]:
  "schedule_ok (r\<lparr>participants := ps\<rparr>) = schedule_ok r"
  "schedule_ok (r\<lparr>projectiles := qs\<rparr>) = schedule_ok r"
  "schedule_ok (r\<lparr>enemies := es\<rparr>) = schedule_ok r"
  "schedule_ok (r\<lparr>pending_events := ev\<rparr>) = schedule_ok r"
  "schedule_ok (r\<lparr>phase := ph\<rparr>) = schedule_ok r"
  "schedule_ok (r\<lparr>digest_counter := n\<rparr>) = schedule_ok r"
  "schedule_ok (r\<lparr>next_projectile_id := i\<rparr>) = schedule_ok r"
  by (simp_all add: schedule_ok_def started_at_def)

lemma boss_alive_frame [simp]:
  "boss_alive (r\<lparr>participants := ps\<rparr>) = boss_alive r"
  "boss_alive (r\<lparr>projectiles := qs\<rparr>) = boss_alive r"
  "boss_alive (r\<lparr>pending_events := ev\<rparr>) = boss_alive r"
  "boss_alive (r\<lparr>phase := ph\<rparr>) = boss_alive r"
  "boss_alive (r\<lparr>digest_counter := n\<rparr>) = boss_alive r"
  "boss_alive (r\<lparr>next_projectile_id := i\<rparr>) = boss_alive r"
  by (simp_all add: boss_alive_def)

lemma battle_ok_frame [simp]:
  "battle_ok (r\<lparr>pending_events := ev\<rparr>) = battle_ok r"
  "battle_ok (r\<lparr>phase := ph\<rparr>) = battle_ok r"
  "battle_ok (r\<lparr>digest_counter := n\<rparr>) = battle_ok r"
  by (simp_all add: battle_ok_def)

lemma battle_okD:
  assumes "battle_ok r"
  shows "config_ok (config r)" "roster_ok (config r) (participants r)" "horde_ok r"
    "flight_ok (config r) (next_projectile_id r) (projectiles r)" "schedule_ok r"
  using assms by (simp_all add: battle_ok_def)

lemma battle_ok_participants:
  "battle_ok r \<Longrightarrow> roster_ok (config r) ps \<Longrightarrow> battle_ok (r\<lparr>participants := ps\<rparr>)"
  by (simp add: battle_ok_def)

lemma battle_ok_no_projectiles: "battle_ok r \<Longrightarrow> battle_ok (r\<lparr>projectiles := []\<rparr>)"
  by (simp add: battle_ok_def flight_ok_def)

text \<open>Enemies that are moved or damaged in place keep their identity.\<close>

definition same_horde :: "enemy list \<Rightarrow> enemy list \<Rightarrow> bool" where
  "same_horde es es' \<longleftrightarrow> map en_id es' = map en_id es \<and> map en_kind es' = map en_kind es"

lemma same_horde_refl [simp]: "same_horde es es"
  by (simp add: same_horde_def)

lemma same_horde_trans: "same_horde a b \<Longrightarrow> same_horde b c \<Longrightarrow> same_horde a c"
  by (simp add: same_horde_def)

lemma same_horde_update:
  assumes "i < length es" and "en_id e = en_id (es ! i)" and "en_kind e = en_kind (es ! i)"
  shows "same_horde es (es[i := e])"
  using assms by (auto simp: same_horde_def map_update intro!: nth_equalityI simp: nth_list_update)

lemma same_horde_length: "same_horde es es' \<Longrightarrow> length es' = length es"
  using map_eq_imp_length_eq by (auto simp: same_horde_def)

lemma horde_ok_enemies:
  assumes "horde_ok r" and same: "same_horde (enemies r) es" and "list_all (enemy_ok (config r)) es"
  shows "horde_ok (r\<lparr>enemies := es\<rparr>)"
proof -
  have "key_sorted en_id es" "map en_id es = map en_id (enemies r)" "map en_kind es = map en_kind (enemies r)"
    using assms key_sorted_map_key [of en_id es "enemies r"] by (auto simp: same_horde_def horde_ok_def)
  then show ?thesis
    using assms same_horde_length [OF same] by (simp add: horde_ok_def enemies_made_def)
qed

lemma horde_okD:
  assumes "horde_ok r"
  shows "list_all (enemy_ok (config r)) (enemies r)" "length (enemies r) \<le> enemies_made r"
    "spawned_wave_count r \<le> wave_count (config r)"
  using assms by (simp_all add: horde_ok_def)

lemma enemies_made_le:
  assumes "config_ok (config r)" and "spawned_wave_count r \<le> wave_count (config r)"
  shows "enemies_made r \<le> unat (max_spawned_enemies (config r))"
proof -
  have "unat (spawned_wave_count r) * unat (minions_per_wave (config r))
      \<le> unat (wave_count (config r)) * unat (minions_per_wave (config r))"
    using assms(2) by (simp add: word_le_nat_alt)
  then have "unat (spawned_wave_count r) * unat (minions_per_wave (config r)) + 1
      \<le> unat (max_spawned_enemies (config r))"
    using config_enemies(1) [OF assms(1)] by linarith
  then show ?thesis by (cases "boss_spawned r") (simp_all add: enemies_made_def)
qed

section \<open>Participant movement\<close>

lemma move_participant_ok:
  assumes "participant_ok c p"
  shows "participant_ok c (fst (move_participant c p))"
    and "pa_player_id (fst (move_participant c p)) = pa_player_id p"
    and "current_health (fst (move_participant c p)) = current_health p"
  using assms by (auto simp: move_participant_def participant_ok_def Let_def moveInDirection_in_arena)

lemma concat_length_bound:
  "(\<And>x. x \<in> set xs \<Longrightarrow> length (f x) \<le> k) \<Longrightarrow> length (concat (map f xs)) \<le> k * length xs"
  by (induction xs) (auto intro: add_mono)

lemma moveParticipants_ok:
  assumes "battle_ok r"
  shows "battle_ok (moveParticipants r)"
    and "length (pending_events (moveParticipants r)) \<le>
      length (pending_events r) + unat (max_participants (config r))"
proof -
  note ok = battle_okD(2) [OF assms]
  have "roster_ok (config r) (map (\<lambda>p. fst (move_participant (config r) p)) (participants r))"
    using ok by (rule roster_map) (simp_all add: move_participant_ok roster_okD(3) [OF ok])
  with assms show "battle_ok (moveParticipants r)"
    by (simp add: moveParticipants_def Let_def comp_def battle_ok_participants)
  have "length (snd (move_participant (config r) p)) \<le> 1" for p
    by (auto simp: move_participant_def Let_def)
  from concat_length_bound [OF this]
  have "length (concat (map (\<lambda>p. snd (move_participant (config r) p)) (participants r))) \<le> length (participants r)"
    by simp
  with roster_okD(2) [OF ok] show "length (pending_events (moveParticipants r)) \<le>
      length (pending_events r) + unat (max_participants (config r))"
    by (simp add: moveParticipants_def Let_def comp_def)
qed

section \<open>Enemy actions\<close>

lemma enemy_approach_ok:
  assumes "config_ok c" and "enemy_ok c e" and "enemy_approach c e t = (e', ev)"
  shows "enemy_ok c e'" "en_id e' = en_id e" "en_kind e' = en_kind e" "en_health e' = en_health e"
    "length ev \<le> 1"
  using assms moveToward_in_arena [OF config_arena [OF assms(1)]]
  by (auto simp: enemy_approach_def enemy_ok_def Let_def split: if_splits)

lemma enemy_strike_ok:
  assumes "enemy_strike c t e p = (e', p', ev)"
  shows "enemy_ok c e \<Longrightarrow> enemy_ok c e'" "en_id e' = en_id e" "en_kind e' = en_kind e"
    "en_health e' = en_health e" "pa_player_id p' = pa_player_id p"
    "participant_ok c p \<Longrightarrow> participant_ok c p'"
    "length ev \<le> 2" "unat (current_health p') = unat (current_health p) - unat (enemyAttackDamage c (en_kind e))"
proof -
  let ?d = "min (enemyAttackDamage c (en_kind e)) (current_health p)"
  have "current_health p - ?d \<le> current_health p"
    by (simp add: word_le_nat_alt unat_sub_min')
  then show "participant_ok c p \<Longrightarrow> participant_ok c p'"
    using assms by (auto simp: enemy_strike_def Let_def participant_ok_def split: if_splits)
  have "unat (current_health p') = unat (current_health p - ?d)"
    using assms by (auto simp: enemy_strike_def Let_def split: if_splits)
  then show "unat (current_health p') = unat (current_health p) - unat (enemyAttackDamage c (en_kind e))"
    by (simp add: unat_sub_min')
qed (use assms in \<open>auto simp: enemy_strike_def enemy_ok_def Let_def split: if_splits\<close>)

lemma act_enemy_ok:
  assumes c: "config_ok c" and e: "enemy_ok c e" and ps: "roster_ok c ps"
    and act: "act_enemy c t e ps = (e', ps', ev, returned)"
  shows "enemy_ok c e'" "en_id e' = en_id e" "en_kind e' = en_kind e" "en_health e' = en_health e"
    "roster_ok c ps'" "length ev \<le> 3" "map pa_player_id ps' = map pa_player_id ps"
    "returned = Some False \<Longrightarrow> allParticipantsDead ps'"
proof -
  have all: "enemy_ok c e' \<and> en_id e' = en_id e \<and> en_kind e' = en_kind e \<and> en_health e' = en_health e \<and>
    roster_ok c ps' \<and> length ev \<le> 3 \<and> map pa_player_id ps' = map pa_player_id ps \<and>
    (returned = Some False \<longrightarrow> allParticipantsDead ps')"
  proof (cases "en_health e = 0 \<or> nearestLivingParticipant ps (en_position e) = None")
    case True
    then show ?thesis using act e ps by (auto simp: act_enemy_def split: if_splits)
  next
    case False
    then obtain i where i: "nearestLivingParticipant ps (en_position e) = Some i" by auto
    obtain e1 a where ap: "enemy_approach c e (pa_position (ps ! i)) = (e1, a)" by force
    obtain e2 q s where st: "enemy_strike c t e1 (ps ! i) = (e2, q, s)" by (metis prod_cases3)
    note A = enemy_approach_ok [OF c e ap] and S = enemy_strike_ok [OF st]
    have len: "i < length ps" by (rule nearestLivingParticipant_Some(1) [OF i])
    have "roster_ok c (ps[i := q])" using ps S(5) len S(6) by (rule roster_update)
    moreover have "map pa_player_id (ps[i := q]) = map pa_player_id ps"
      using S(5) len by (auto simp: nth_list_update intro!: nth_equalityI)
    ultimately show ?thesis
      using act False i ap st A S ps by (auto simp: act_enemy_def Let_def split: if_splits)
  qed
  from all show "enemy_ok c e'" "en_id e' = en_id e" "en_kind e' = en_kind e" "en_health e' = en_health e"
    "roster_ok c ps'" "length ev \<le> 3" "map pa_player_id ps' = map pa_player_id ps"
    "returned = Some False \<Longrightarrow> allParticipantsDead ps'" by simp_all
qed

lemma act_enemies_ok:
  assumes "config_ok c" and "list_all (enemy_ok c) es" and "roster_ok c ps"
    and "act_enemies c t es ps = (es', ps', ev, fighting)"
  shows "list_all (enemy_ok c) es' \<and> same_horde es es' \<and> map en_health es' = map en_health es \<and>
    roster_ok c ps' \<and> length ev \<le> 3 * length es \<and> map pa_player_id ps' = map pa_player_id ps \<and>
    (\<not> fighting \<longrightarrow> allParticipantsDead ps')"
  using assms
proof (induction es arbitrary: ps es' ps' ev fighting)
  case Nil
  then show ?case by simp
next
  case (Cons e es)
  obtain e1 ps1 ev1 ret where a: "act_enemy c t e ps = (e1, ps1, ev1, ret)" by (metis prod_cases4)
  obtain es2 ps2 ev2 f2 where r: "act_enemies c t es ps1 = (es2, ps2, ev2, f2)" by (metis prod_cases4)
  have e: "enemy_ok c e" and es: "list_all (enemy_ok c) es" using Cons.prems(2) by simp_all
  note A = act_enemy_ok [OF Cons.prems(1) e Cons.prems(3) a]
  note R = Cons.IH [OF Cons.prems(1) es A(5) r]
  show ?case
  proof (cases ret)
    case None
    then have "es' = e1 # es2" "ps' = ps2" "ev = ev1 @ ev2" "fighting = f2"
      using Cons.prems(4) a r by simp_all
    then show ?thesis using A R by (simp add: same_horde_def)
  next
    case (Some v)
    then have "es' = e1 # es" "ps' = ps1" "ev = ev1" "fighting = v"
      using Cons.prems(4) a by simp_all
    then show ?thesis using A es Some by (simp add: same_horde_def)
  qed
qed

lemma actEnemies_ok:
  assumes ok: "battle_ok r" and act: "actEnemies r t = (fighting, r')"
  shows "battle_ok r'" "boss_alive r' = boss_alive r" "config r' = config r"
    "phase r' = phase r" "length (enemies r') = length (enemies r)"
    "length (pending_events r') \<le> length (pending_events r) + 3 * length (enemies r)"
    "\<not> fighting \<Longrightarrow> allParticipantsDead (participants r')"
    "map pa_player_id (participants r') = map pa_player_id (participants r)"
proof -
  note B = battle_okD [OF ok]
  obtain es ps ev f where a: "act_enemies (config r) t (enemies r) (participants r) = (es, ps, ev, f)"
    by (metis prod_cases4)
  note A = act_enemies_ok [OF B(1) horde_okD(1) [OF B(3)] B(2) a]
  have r': "r' = r\<lparr>enemies := es, participants := ps, pending_events := pending_events r @ ev\<rparr>" "fighting = f"
    using act a by (simp_all add: actEnemies_def)
  show "battle_ok r'" using B A horde_ok_enemies [OF B(3), of es] by (simp add: r' battle_ok_def)
  have len: "length es = length (enemies r)" using A same_horde_length by blast
  have "(\<exists>e \<in> set es. en_kind e = Boss \<and> en_health e \<noteq> 0) \<longleftrightarrow>
      (\<exists>e \<in> set (enemies r). en_kind e = Boss \<and> en_health e \<noteq> 0)"
    using A len by (simp add: same_horde_def list_eq_iff_nth_eq set_conv_nth Bex_def) metis
  then show "boss_alive r' = boss_alive r" by (simp add: boss_alive_def r')
  show "length (enemies r') = length (enemies r)"
    "length (pending_events r') \<le> length (pending_events r) + 3 * length (enemies r)"
    "\<not> fighting \<Longrightarrow> allParticipantsDead (participants r')"
    "map pa_player_id (participants r') = map pa_player_id (participants r)"
    using A len by (simp_all add: r')
qed (use act in \<open>auto simp: actEnemies_def split: prod.splits\<close>)

section \<open>Damage to enemies and projectiles in flight\<close>

lemma damage_enemy_ok:
  assumes "damage_enemy actor skill amount e = (e', ev)"
  shows "en_id e' = en_id e" "en_kind e' = en_kind e" "enemy_ok c e \<Longrightarrow> enemy_ok c e'"
    "unat (en_health e') = unat (en_health e) - unat amount" "length ev \<le> 2"
proof -
  have le: "en_health e - min amount (en_health e) \<le> en_health e"
    by (simp add: word_le_nat_alt unat_sub_min')
  then show "enemy_ok c e \<Longrightarrow> enemy_ok c e'"
    using assms by (auto simp: damage_enemy_def enemy_ok_def Let_def split: if_splits)
  show "unat (en_health e') = unat (en_health e) - unat amount"
    using assms by (auto simp: damage_enemy_def Let_def unat_sub_min')
qed (use assms in \<open>auto simp: damage_enemy_def Let_def split: if_splits\<close>)

lemma projectile_approach_ok:
  assumes "config_ok c" and "projectile_approach c p t = (p', ev)"
    and "in_arena (arena_width c) (arena_height c) (pr_position p)"
  shows "in_arena (arena_width c) (arena_height c) (pr_position p')" "pr_id p' = pr_id p" "length ev \<le> 1"
  using assms moveToward_in_arena [OF config_arena [OF assms(1)]]
  by (auto simp: projectile_approach_def Let_def split: if_splits)

definition bosses_survive :: "enemy list \<Rightarrow> enemy list \<Rightarrow> bool" where
  "bosses_survive es es' \<longleftrightarrow> (\<forall>i < length es. en_kind (es ! i) = Boss \<longrightarrow> en_health (es ! i) \<noteq> 0 \<longrightarrow>
     en_health (es' ! i) \<noteq> 0)"

lemma advanceProjectile_ok:
  assumes c: "config_ok c" and es: "list_all (enemy_ok c) es"
    and p: "in_arena (arena_width c) (arena_height c) (pr_position p)"
    and adv: "advanceProjectile c t p es = (res, p', es', ev)"
  shows "list_all (enemy_ok c) es'" "same_horde es es'" "pr_id p' = pr_id p"
    "in_arena (arena_width c) (arena_height c) (pr_position p')" "length ev \<le> 4"
    "res \<noteq> BossKilled \<Longrightarrow> bosses_survive es es'"
    "res = BossKilled \<Longrightarrow> \<exists>e \<in> set es'. en_kind e = Boss \<and> en_health e = 0"
proof -
  have all: "list_all (enemy_ok c) es' \<and> same_horde es es' \<and> pr_id p' = pr_id p \<and>
    in_arena (arena_width c) (arena_height c) (pr_position p') \<and> length ev \<le> 4 \<and>
    (res \<noteq> BossKilled \<longrightarrow> bosses_survive es es') \<and>
    (res = BossKilled \<longrightarrow> (\<exists>e \<in> set es'. en_kind e = Boss \<and> en_health e = 0))"
  proof (cases "pr_expires_at p \<le> t \<or> findLivingEnemy es (pr_target p) = None")
    case True
    then show ?thesis using adv es p by (auto simp: advanceProjectile_def bosses_survive_def split: if_splits)
  next
    case False
    then obtain j where j: "findLivingEnemy es (pr_target p) = Some j" by auto
    obtain p1 a where ap: "projectile_approach c p (en_position (es ! j)) = (p1, a)" by force
    obtain e d where dm: "damage_enemy (pr_owner p1) (pr_skill_id p1) (pr_damage p1) (es ! j) = (e, d)" by force
    note A = projectile_approach_ok [OF c ap p] and D = damage_enemy_ok [OF dm]
    have len: "j < length es" and jok: "enemy_ok c (es ! j)"
      using findLivingEnemy_Some [OF j] es by (auto simp: list_all_iff)
    have ok: "list_all (enemy_ok c) (es[j := e])"
      using es D(3) [OF jok] set_update_subset_insert [of es j e] by (auto simp: list_all_iff)
    have same: "same_horde es (es[j := e])" using len D(1,2) by (rule same_horde_update)
    have mem: "e \<in> set (es[j := e])" using len by (rule set_update_memI)
    show ?thesis
    proof (cases "isWithinRange (pr_position p1) (en_position (es ! j)) (pr_hit_range p1)")
      case True
      then have eqs: "p' = p1" "es' = es[j := e]" "ev = a @ d @ [ProjectileRemoved (pr_id p1) Hit]"
        and res: "res = (if en_health e = 0 \<and> en_kind e = Boss then BossKilled else Removed)"
        using adv False j ap dm by (auto simp: advanceProjectile_def)
      have surv: "bosses_survive es (es[j := e])" if "res \<noteq> BossKilled"
        using that res D(2) len by (auto simp: bosses_survive_def nth_list_update split: if_splits)
      have dead: "\<exists>x \<in> set (es[j := e]). en_kind x = Boss \<and> en_health x = 0" if "res = BossKilled"
        using that res by (intro bexI [OF _ mem]) (auto split: if_splits)
      show ?thesis unfolding eqs
        by (intro conjI impI surv dead) (use A D(5) ok same in simp_all)
    next
      case out: False
      then have "p' = p1" "es' = es" "ev = a" "res = Active"
        using adv False j ap by (simp_all add: advanceProjectile_def)
      then show ?thesis using A es by (simp add: bosses_survive_def)
    qed
  qed
  from all show "list_all (enemy_ok c) es'" "same_horde es es'" "pr_id p' = pr_id p"
    "in_arena (arena_width c) (arena_height c) (pr_position p')" "length ev \<le> 4"
    "res \<noteq> BossKilled \<Longrightarrow> bosses_survive es es'"
    "res = BossKilled \<Longrightarrow> \<exists>e \<in> set es'. en_kind e = Boss \<and> en_health e = 0" by simp_all
qed

lemma same_horde_nth:
  assumes "same_horde es es'" and "i < length es"
  shows "en_id (es' ! i) = en_id (es ! i)" "en_kind (es' ! i) = en_kind (es ! i)"
proof -
  have "map en_id es' ! i = map en_id es ! i" "map en_kind es' ! i = map en_kind es ! i"
    using assms(1) by (simp_all add: same_horde_def)
  then show "en_id (es' ! i) = en_id (es ! i)" "en_kind (es' ! i) = en_kind (es ! i)"
    using assms same_horde_length by simp_all
qed

lemma bosses_survive_trans:
  assumes ab: "same_horde a b" and "bosses_survive a b" and "bosses_survive b c"
  shows "bosses_survive a c"
  unfolding bosses_survive_def
proof (intro allI impI)
  fix i assume i: "i < length a" "en_kind (a ! i) = Boss" "en_health (a ! i) \<noteq> 0"
  then have "en_kind (b ! i) = Boss" "en_health (b ! i) \<noteq> 0" "i < length b"
    using assms(2) same_horde_nth [OF ab i(1)] same_horde_length [OF ab] by (simp_all add: bosses_survive_def)
  with assms(3) show "en_health (c ! i) \<noteq> 0" by (simp add: bosses_survive_def)
qed

lemma advance_projectiles_ok:
  assumes "config_ok c" and "list_all (enemy_ok c) es"
    and "\<forall>p \<in> set ps. in_arena (arena_width c) (arena_height c) (pr_position p)"
    and "advance_projectiles c t ps es = (ps', es', ev, killed)"
  shows "list_all (enemy_ok c) es' \<and> same_horde es es' \<and> length ev \<le> 4 * length ps \<and>
    subseq (map pr_id ps') (map pr_id ps) \<and>
    (\<forall>p \<in> set ps'. in_arena (arena_width c) (arena_height c) (pr_position p)) \<and>
    (\<not> killed \<longrightarrow> bosses_survive es es') \<and>
    (killed \<longrightarrow> (\<exists>e \<in> set es'. en_kind e = Boss \<and> en_health e = 0))"
  using assms
proof (induction ps arbitrary: es ps' es' ev killed)
  case Nil
  then show ?case by (simp add: bosses_survive_def)
next
  case (Cons p ps)
  obtain res p1 es1 ev1 where a: "advanceProjectile c t p es = (res, p1, es1, ev1)" by (metis prod_cases4)
  obtain ps2 es2 ev2 k2 where r: "advance_projectiles c t ps es1 = (ps2, es2, ev2, k2)" by (metis prod_cases4)
  have p: "in_arena (arena_width c) (arena_height c) (pr_position p)"
    and ps: "\<forall>p \<in> set ps. in_arena (arena_width c) (arena_height c) (pr_position p)"
    using Cons.prems(3) by simp_all
  note A = advanceProjectile_ok [OF Cons.prems(1,2) p a]
  note R = Cons.IH [OF Cons.prems(1) A(1) ps r]
  show ?case
  proof (cases res)
    case Active
    then have "ps' = p1 # ps2" "es' = es2" "ev = ev1 @ ev2" "killed = k2"
      using Cons.prems(4) a r by simp_all
    then show ?thesis using A R Active same_horde_trans bosses_survive_trans [OF A(2)] by auto
  next
    case Removed
    then have "ps' = ps2" "es' = es2" "ev = ev1 @ ev2" "killed = k2"
      using Cons.prems(4) a r by simp_all
    then show ?thesis using A R Removed same_horde_trans bosses_survive_trans [OF A(2)] by auto
  next
    case BossKilled
    then have "ps' = p1 # ps" "es' = es1" "ev = ev1" "killed"
      using Cons.prems(4) a by simp_all
    then show ?thesis using A ps BossKilled by auto
  qed
qed

end
