(* ===== verification/Room_Battle.thy ===== *)
theory Room_Battle
  imports Room_Inv
begin

text \<open>
  The battle operations of \<^verbatim>\<open>src/game/room.cpp\<close> on the whole room: projectiles, spawning, skills
  and the end of a battle preserve the battle invariant, and how many events each appends.
\<close>

section \<open>Projectiles of the room\<close>

lemma subseq_sorted_wrt: "subseq xs ys \<Longrightarrow> sorted_wrt P ys \<Longrightarrow> sorted_wrt P xs"
  by (induction rule: list_emb.induct) (auto dest: list_emb_set)

lemma flight_ok_subseq:
  assumes ok: "flight_ok c next ps" and sub: "subseq (map pr_id qs) (map pr_id ps)"
    and "\<forall>p \<in> set qs. in_arena (arena_width c) (arena_height c) (pr_position p)"
  shows "flight_ok c next qs"
proof -
  have "0 < pr_id q \<and> (next = 0 \<or> pr_id q < next)" if "q \<in> set qs" for q
  proof -
    have "pr_id q \<in> set (map pr_id ps)" using that list_emb_set [OF sub, of "pr_id q"] by auto
    then show ?thesis using ok by (auto simp: flight_ok_def list_all_iff)
  qed
  moreover have "length qs \<le> length ps" using list_emb_length [OF sub] by simp
  moreover have "key_sorted pr_id qs"
    using ok subseq_sorted_wrt [OF sub] by (simp add: flight_ok_def key_sorted_def)
  ultimately show ?thesis using ok assms(3) by (auto simp: flight_ok_def list_all_iff)
qed

lemma advanceProjectiles_ok:
  assumes ok: "battle_ok r" and adv: "advanceProjectiles r t = (killed, r')"
  shows "battle_ok r'" "\<not> killed \<Longrightarrow> boss_alive r \<Longrightarrow> boss_alive r'"
    "length (enemies r') = length (enemies r)"
    "length (pending_events r') \<le> length (pending_events r) + 4 * unat (max_active_projectiles (config r))"
    "killed \<Longrightarrow> \<exists>e \<in> set (enemies r'). en_kind e = Boss \<and> en_health e = 0"
proof -
  note B = battle_okD [OF ok]
  obtain ps es ev k where a: "advance_projectiles (config r) t (projectiles r) (enemies r) = (ps, es, ev, k)"
    by (metis prod_cases4)
  have flight: "\<forall>p \<in> set (projectiles r). in_arena (arena_width (config r)) (arena_height (config r)) (pr_position p)"
    using B(4) by (auto simp: flight_ok_def list_all_iff)
  note A = advance_projectiles_ok [OF B(1) horde_okD(1) [OF B(3)] flight a]
  have r': "r' = r\<lparr>projectiles := ps, enemies := es, pending_events := pending_events r @ ev\<rparr>" "killed = k"
    using adv a by (simp_all add: advanceProjectiles_def)
  have "flight_ok (config r) (next_projectile_id r) ps"
    by (rule flight_ok_subseq [OF B(4)]) (use A in simp_all)
  then show "battle_ok r'"
    using B A horde_ok_enemies [of "r\<lparr>projectiles := ps\<rparr>" es] by (simp add: r' battle_ok_def)
  show "length (enemies r') = length (enemies r)" using A same_horde_length by (simp add: r')
  show "length (pending_events r') \<le> length (pending_events r) + 4 * unat (max_active_projectiles (config r))"
    using A B(4) by (simp add: r' flight_ok_def)
  show "\<exists>e \<in> set (enemies r'). en_kind e = Boss \<and> en_health e = 0" if killed
    using A that by (simp add: r')
  show "boss_alive r'" if nk: "\<not> killed" and alive: "boss_alive r"
  proof (cases "boss_spawned r")
    case True
    then obtain i where i: "i < length (enemies r)" "en_kind (enemies r ! i) = Boss" "en_health (enemies r ! i) \<noteq> 0"
      using alive by (auto simp: boss_alive_def in_set_conv_nth)
    have same: "same_horde (enemies r) es" and "bosses_survive (enemies r) es" using A nk r' by simp_all
    then have "en_health (es ! i) \<noteq> 0" "en_kind (es ! i) = Boss" "es ! i \<in> set es"
      using i same_horde_nth [OF same i(1)] same_horde_length [OF same] by (auto simp: bosses_survive_def)
    then show ?thesis by (auto simp: boss_alive_def r')
  qed (simp add: boss_alive_def r')
qed

lemma advanceProjectiles_frame:
  assumes "advanceProjectiles r t = (killed, r')"
  shows "config r' = config r" "phase r' = phase r" "participants r' = participants r"
    "digest_counter r' = digest_counter r" "battle_deadline_at r' = battle_deadline_at r"
  using assms by (auto simp: advanceProjectiles_def split: prod.splits)

lemma erase_dead_ok:
  assumes "battle_ok r"
  shows "battle_ok (erase_dead r)" "boss_alive (erase_dead r) = boss_alive r"
    "length (enemies (erase_dead r)) \<le> length (enemies r)"
proof -
  have sub: "count_list (map en_kind (filter P es)) k \<le> count_list (map en_kind es) k" for P es k
    by (induction es) auto
  have "horde_ok r" by (rule battle_okD(3) [OF assms])
  then have "horde_ok (erase_dead r)"
    using sub [of "\<lambda>e. en_health e \<noteq> 0" "enemies r" Boss]
    by (auto simp: horde_ok_def erase_dead_def enemies_made_def key_sorted_filter list_all_iff
        intro: order_trans [OF length_filter_le])
  then show "battle_ok (erase_dead r)" using assms by (simp add: battle_ok_def erase_dead_def)
  show "boss_alive (erase_dead r) = boss_alive r"
    by (auto simp: boss_alive_def erase_dead_def)
qed (simp add: erase_dead_def)

section \<open>Spawning\<close>

lemma squarePerimeter_in_arena:
  assumes fits: "radius_fits w h r" and i: "unat i < unat n" and n: "unat n < 4294967296"
  shows "in_arena w h (squarePerimeterPosition i n w h r)"
proof -
  let ?p = "squarePerimeterPosition i n w h r" and ?k = "8 * unat r * unat i div unat n"
  have "?k \<le> 8 * unat r" using i by (rule offset_le_perimeter)
  then have "unat (pos_x ?p) \<le> unat w div 2 + unat r \<and> unat (pos_y ?p) \<le> unat h div 2 + unat r"
    using perimeter_point_on_square [OF _ _ _ squarePerimeterPosition_point [OF assms, symmetric]] fits
    by (simp add: radius_fits_def)
  then show ?thesis using fits by (auto simp: in_arena_def word_less_nat_alt radius_fits_def)
qed

lemma minions_bound:
  assumes "config_ok c" and "(s :: u64) < wave_count c"
  shows "unat s * unat (minions_per_wave c) + unat (minions_per_wave c) + 1 < 4294967296"
proof -
  have "Suc (unat s) * unat (minions_per_wave c) \<le> unat (wave_count c) * unat (minions_per_wave c)"
    using assms(2) by (intro mult_le_mono1) (simp add: word_less_nat_alt)
  then show ?thesis using config_enemies [OF assms(1)] by simp
qed

lemma unat_of_nat_u32: "n < 4294967296 \<Longrightarrow> unat (of_nat n :: u32) = n"
  by (simp add: unat_of_nat)

lemma unat_of_nat_u64: "n < 18446744073709551616 \<Longrightarrow> unat (of_nat n :: u64) = n"
  by (simp add: unat_of_nat)

lemma new_minion_ok:
  assumes c: "config_ok c" and i: "i < unat (minions_per_wave c)" and m: "unat (minions_per_wave c) < 4294967296"
  shows "enemy_ok c (new_minion c t first i)"
proof -
  have "unat (of_nat i :: u64) = i" using i m by (intro unat_of_nat_u64) simp
  then show ?thesis
    using squarePerimeter_in_arena [OF config_radius [OF c], of "of_nat i" "minions_per_wave c"] i m
    by (simp add: enemy_ok_def new_minion_def)
qed

lemma unat_minion_id:
  assumes "unat first + n < 4294967296" and "i \<le> n"
  shows "unat (first + of_nat i :: u32) = unat first + i"
  using assms by (subst unat_add_small) (simp_all add: unat_of_nat_u32)

lemma wave_sorted:
  assumes "unat first + n < 4294967296"
  shows "key_sorted en_id (map (new_minion c t first) [0 ..< n])"
  using assms
  by (auto simp: key_sorted_def sorted_wrt_iff_nth_less word_less_nat_alt new_minion_def unat_minion_id [OF assms])

lemma count_wave: "count_list (map en_kind (map (new_minion c t first) is)) Boss = 0"
  by (induction "is") (simp_all add: new_minion_def)

lemma horde_append:
  assumes ok: "horde_ok r" and made: "enemies_made r' = enemies_made r + length es"
    and "config r' = config r" "enemies r' = enemies r @ es" "spawned_wave_count r' \<le> wave_count (config r)"
    and "next_enemy_id r' = next_enemy_id r + of_nat (length es)"
    and "key_sorted en_id es" "list_all (enemy_ok (config r)) es"
    and new: "\<forall>i \<in> set (map en_id es). enemies_made r < unat i \<and> unat i \<le> enemies_made r'"
    and "count_list (map en_kind es) Boss + (if boss_spawned r then 1 else 0) \<le> (if boss_spawned r' then 1 else 0)"
  shows "horde_ok r'"
proof -
  have old: "0 < unat i \<and> unat i \<le> enemies_made r" if "i \<in> set (map en_id (enemies r))" for i
    using ok that by (auto simp: horde_ok_def)
  have "key_sorted en_id (enemies r @ es)"
    using ok assms(7) old new by (fastforce simp: key_sorted_append horde_ok_def word_less_nat_alt)
  moreover have "0 < unat i \<and> unat i \<le> enemies_made r'" if "i \<in> set (map en_id (enemies r @ es))" for i
    using that old new made by fastforce
  ultimately show ?thesis
    using ok assms(2-6,8,10) by (auto simp: horde_ok_def count_list_append algebra_simps split: if_splits)
qed

lemma unat_next_enemy_id:
  assumes "horde_ok r" and "Suc (enemies_made r) < 4294967296"
  shows "unat (next_enemy_id r) = Suc (enemies_made r)"
  using assms unat_of_nat_u32 by (simp add: horde_ok_def del: of_nat_Suc)

lemma spawnWave_ok:
  assumes c: "config_ok (config r)" and ok: "horde_ok r" and due: "spawned_wave_count r < wave_count (config r)"
    and nb: "\<not> boss_spawned r"
  defines "m \<equiv> unat (minions_per_wave (config r))"
  shows "horde_ok (spawnWave r t)" "enemies_made (spawnWave r t) = enemies_made r + m"
    "length (pending_events (spawnWave r t)) = length (pending_events r) + 2 * m"
    "unat (spawned_wave_count (spawnWave r t)) = Suc (unat (spawned_wave_count r))"
proof -
  let ?r = "spawnWave r t" and ?es = "map (new_minion (config r) t (next_enemy_id r)) [0 ..< m]"
  have r: "?r = r\<lparr>enemies := enemies r @ ?es, next_enemy_id := next_enemy_id r + of_nat m,
      pending_events := pending_events r @ concat (map enemy_spawn_events ?es),
      spawned_wave_count := spawned_wave_count r + 1\<rparr>"
    using due by (simp add: spawnWave_def Let_def m_def)
  have s: "unat (spawned_wave_count r + 1) = Suc (unat (spawned_wave_count r))"
    using due unat_u64_lt [of "wave_count (config r)"] by (subst unat_add_small) (simp_all add: word_less_nat_alt)
  then show "unat (spawned_wave_count ?r) = Suc (unat (spawned_wave_count r))" by (simp add: r)
  show made: "enemies_made ?r = enemies_made r + m" by (simp add: enemies_made_def r s m_def)
  show "length (pending_events ?r) = length (pending_events r) + 2 * m"
    by (simp add: r length_concat comp_def enemy_spawn_events_def sum_list_triv)
  have room_left: "Suc (enemies_made r) + m < 4294967296"
    using minions_bound [OF c due] nb by (simp add: enemies_made_def m_def)
  then have first: "unat (next_enemy_id r) = Suc (enemies_made r)"
    by (intro unat_next_enemy_id [OF ok]) simp
  have bound: "unat (next_enemy_id r) + m < 4294967296" using room_left first by simp
  note ids = unat_minion_id [OF bound]
  show "horde_ok ?r"
  proof (rule horde_append [OF ok, where es = ?es])
    show "key_sorted en_id ?es" using bound by (rule wave_sorted)
    show "list_all (enemy_ok (config r)) ?es"
      using new_minion_ok [OF c] bound by (auto simp: list_all_iff m_def)
    show "\<forall>i \<in> set (map en_id ?es). enemies_made r < unat i \<and> unat i \<le> enemies_made ?r"
      by (auto simp: made ids first new_minion_def)
    show "spawned_wave_count ?r \<le> wave_count (config r)"
      using due s by (simp add: r word_le_nat_alt word_less_nat_alt)
  qed (use made nb in \<open>simp_all add: r count_wave del: map_map\<close>)
qed

lemma spawnWave_frame [simp]:
  "config (spawnWave r t) = config r" "phase (spawnWave r t) = phase r"
  "participants (spawnWave r t) = participants r" "projectiles (spawnWave r t) = projectiles r"
  "boss_spawned (spawnWave r t) = boss_spawned r" "next_wave_at (spawnWave r t) = next_wave_at r"
  "boss_spawn_at (spawnWave r t) = boss_spawn_at r" "battle_deadline_at (spawnWave r t) = battle_deadline_at r"
  "next_projectile_id (spawnWave r t) = next_projectile_id r" "digest_counter (spawnWave r t) = digest_counter r"
  by (simp_all add: spawnWave_def Let_def)

lemma after_ms_add: "after_ms (after_ms t a) b = after_ms t (a + b)"
  by (simp add: after_ms_def algebra_simps)

definition wave_turn :: "room \<Rightarrow> time_point \<Rightarrow> room" where
  "wave_turn r t = (spawnWave r t)\<lparr>next_wave_at := after_ms (next_wave_at r) (wave_interval (config r))\<rparr>"

lemma wave_turn_ok:
  assumes ok: "battle_ok r" and due: "spawned_wave_count r < wave_count (config r)"
  shows "battle_ok (wave_turn r t)" "boss_alive (wave_turn r t) = boss_alive r"
    "length (pending_events (wave_turn r t)) + 2 * enemies_made r =
       length (pending_events r) + 2 * enemies_made (wave_turn r t)"
    "enemies_made r \<le> enemies_made (wave_turn r t)"
proof -
  note B = battle_okD [OF ok]
  have nb: "\<not> boss_spawned r" using B(5) due by (auto simp: schedule_ok_def)
  note W = spawnWave_ok [OF B(1) B(3) due nb]
  have "wave_count (config r) \<noteq> 0" using due by auto
  then have "schedule_ok (wave_turn r t)"
    using B(5) W(4) nb by (simp add: schedule_ok_def wave_turn_def started_at_def after_ms_add algebra_simps)
  then show "battle_ok (wave_turn r t)"
    using B W(1) by (simp add: battle_ok_def wave_turn_def)
  show "boss_alive (wave_turn r t) = boss_alive r" using nb by (simp add: boss_alive_def wave_turn_def)
  have "enemies_made (wave_turn r t) = enemies_made (spawnWave r t)"
    by (simp add: wave_turn_def enemies_made_def)
  then show "length (pending_events (wave_turn r t)) + 2 * enemies_made r =
       length (pending_events r) + 2 * enemies_made (wave_turn r t)" "enemies_made r \<le> enemies_made (wave_turn r t)"
    using W(2,3) by (simp_all add: wave_turn_def)
qed

lemma wave_turn_frame [simp]:
  "config (wave_turn r t) = config r" "phase (wave_turn r t) = phase r"
  "participants (wave_turn r t) = participants r" "boss_spawned (wave_turn r t) = boss_spawned r"
  "boss_spawn_at (wave_turn r t) = boss_spawn_at r" "digest_counter (wave_turn r t) = digest_counter r"
  "battle_deadline_at (wave_turn r t) = battle_deadline_at r"
  by (simp_all add: wave_turn_def)

lemma spawn_due_waves_unfold:
  "spawn_due_waves r t =
     (if spawned_wave_count r < wave_count (config r) \<and> next_wave_at r \<le> t
      then spawn_due_waves (wave_turn r t) t else r)"
  by (subst spawn_due_waves.simps) (simp add: wave_turn_def Let_def)

lemma spawn_due_waves_ok:
  assumes "battle_ok r"
  shows "battle_ok (spawn_due_waves r t) \<and> boss_alive (spawn_due_waves r t) = boss_alive r \<and>
    length (pending_events (spawn_due_waves r t)) + 2 * enemies_made r =
      length (pending_events r) + 2 * enemies_made (spawn_due_waves r t) \<and>
    enemies_made r \<le> enemies_made (spawn_due_waves r t) \<and>
    config (spawn_due_waves r t) = config r \<and> phase (spawn_due_waves r t) = phase r \<and>
    participants (spawn_due_waves r t) = participants r \<and>
    boss_spawned (spawn_due_waves r t) = boss_spawned r \<and>
    boss_spawn_at (spawn_due_waves r t) = boss_spawn_at r \<and>
    battle_deadline_at (spawn_due_waves r t) = battle_deadline_at r \<and>
    digest_counter (spawn_due_waves r t) = digest_counter r \<and>
    \<not> (spawned_wave_count (spawn_due_waves r t) < wave_count (config r) \<and>
       next_wave_at (spawn_due_waves r t) \<le> t)"
  using assms
proof (induction r t rule: spawn_due_waves.induct)
  case (1 r t)
  show ?case
  proof (cases "spawned_wave_count r < wave_count (config r) \<and> next_wave_at r \<le> t")
    case True
    then have "spawn_due_waves r t = spawn_due_waves (wave_turn r t) t"
      by (subst spawn_due_waves_unfold) simp
    moreover note wave_turn_ok [OF 1(2), of t] "1.IH" [folded wave_turn_def]
    ultimately show ?thesis using True 1 by (simp add: wave_turn_def [symmetric])
  next
    case False
    then have "spawn_due_waves r t = r" by (subst spawn_due_waves_unfold) auto
    then show ?thesis using False 1(2) by auto
  qed
qed

lemma spawnBoss_ok:
  assumes ok: "battle_ok r" and nb: "\<not> boss_spawned r" and all: "spawned_wave_count r = wave_count (config r)"
  shows "battle_ok (spawnBoss r t)" "boss_alive (spawnBoss r t)"
    "length (pending_events (spawnBoss r t)) = length (pending_events r) + 2"
    "enemies_made (spawnBoss r t) = enemies_made r + 1"
proof -
  note B = battle_okD [OF ok]
  let ?r = "spawnBoss r t" and ?e = "new_boss (config r) t (next_enemy_id r)"
  have r: "?r = r\<lparr>enemies := enemies r @ [?e], next_enemy_id := next_enemy_id r + 1,
      pending_events := pending_events r @ enemy_spawn_events ?e, boss_spawned := True\<rparr>"
    using nb by (simp add: spawnBoss_def Let_def)
  show made: "enemies_made ?r = enemies_made r + 1" using nb by (simp add: enemies_made_def r)
  show "length (pending_events ?r) = length (pending_events r) + 2" by (simp add: r enemy_spawn_events_def)
  show "boss_alive ?r" using config_scalars(3) [OF B(1)] by (simp add: boss_alive_def r new_boss_def)
  have "enemies_made ?r \<le> unat (max_spawned_enemies (config r))"
    using enemies_made_le [of ?r] B(1) horde_okD(3) [OF B(3)] by (simp add: r)
  then have first: "unat (next_enemy_id r) = Suc (enemies_made r)"
    using config_enemies(2) [OF B(1)] made by (intro unat_next_enemy_id [OF B(3)]) simp
  have "horde_ok ?r"
  proof (rule horde_append [OF B(3), where es = "[?e]"])
    show "list_all (enemy_ok (config r)) [?e]"
      using config_arena [OF B(1)]
      by (simp add: enemy_ok_def new_boss_def in_arena_def bossSpawnPosition_def word_less_nat_alt unat_div unat_gt_0)
    show "\<forall>i \<in> set (map en_id [?e]). enemies_made r < unat i \<and> unat i \<le> enemies_made ?r"
      by (simp add: made first new_boss_def)
  qed (use made nb horde_okD(3) [OF B(3)] in \<open>simp_all add: r new_boss_def\<close>)
  then show "battle_ok ?r"
    using B all by (simp add: battle_ok_def r schedule_ok_def started_at_def)
qed

lemma spawnBoss_frame [simp]:
  "config (spawnBoss r t) = config r" "phase (spawnBoss r t) = phase r"
  "participants (spawnBoss r t) = participants r" "digest_counter (spawnBoss r t) = digest_counter r"
  "battle_deadline_at (spawnBoss r t) = battle_deadline_at r"
  by (simp_all add: spawnBoss_def Let_def)

text \<open>When the boss is due, the constructor's check on the wave interval has let every wave spawn.\<close>

lemma all_waves_before_boss:
  assumes ok: "battle_ok r" and boss: "boss_spawn_at r \<le> t"
    and waves: "\<not> (spawned_wave_count r < wave_count (config r) \<and> next_wave_at r \<le> t)"
  shows "spawned_wave_count r = wave_count (config r)"
proof (rule ccontr)
  note B = battle_okD [OF ok]
  let ?s = "spawned_wave_count r" and ?c = "config r"
  assume "?s \<noteq> wave_count ?c"
  then have lt: "?s < wave_count ?c" using horde_okD(3) [OF B(3)] by simp
  then have late: "t < next_wave_at r" using waves by simp
  have "wave_count ?c \<noteq> 0" using lt by auto
  then have nw: "next_wave_at r = after_ms (started_at r) (int (unat ?s) * wave_interval ?c)"
    and bs: "boss_spawn_at r = after_ms (started_at r) (boss_spawn_after ?c)"
    using B(5) by (simp_all add: schedule_ok_def)
  have "unat ?s \<le> unat (wave_count ?c) - 1" using lt unfolding word_less_nat_alt by linarith
  then have "int (unat ?s) * wave_interval ?c \<le> int (unat (wave_count ?c) - 1) * wave_interval ?c"
    using config_scalars(4) [OF B(1)] by (intro mult_right_mono) (simp_all only: of_nat_le_iff)
  also have "\<dots> \<le> boss_spawn_after ?c" by (rule config_wave_schedule [OF B(1)])
  finally show False using late boss by (simp add: nw bs after_ms_def)
qed

end
