(* ===== verification/Room.thy ===== *)
theory Room
  imports Room_Battle
begin

text \<open>
  The command handlers of the battle room keep its invariant and answer consistently, and the
  properties of the room as a state machine: lifecycle, rewards, digests, targeting, request
  sequences and the schedule.
\<close>

section \<open>Skills\<close>

lemma track_cooldown_sorted:
  assumes "key_sorted cd_skill_id cds"
  shows "key_sorted cd_skill_id (track_cooldown cds skill ready)"
proof (cases "locate cd_skill_id cds skill")
  case None
  then show ?thesis
    using vec_insert_sorted [OF assms, of "\<lparr>cd_skill_id = skill, cd_ready_at = ready\<rparr>"]
      locate_None [OF assms, of skill] by (simp add: track_cooldown_def)
next
  case (Some i)
  then show ?thesis
    using key_sorted_update [OF assms, of "\<lambda>cd. cd\<lparr>cd_ready_at := ready\<rparr>" i] by (simp add: track_cooldown_def)
qed

lemma commitSkillUse_frame [simp]:
  "config (commitSkillUse r ctx) = config r" "phase (commitSkillUse r ctx) = phase r"
  "enemies (commitSkillUse r ctx) = enemies r" "projectiles (commitSkillUse r ctx) = projectiles r"
  "pending_events (commitSkillUse r ctx) = pending_events r" "boss_spawned (commitSkillUse r ctx) = boss_spawned r"
  "digest_counter (commitSkillUse r ctx) = digest_counter r" "room_ident (commitSkillUse r ctx) = room_ident r"
  "next_projectile_id (commitSkillUse r ctx) = next_projectile_id r"
  "battle_deadline_at (commitSkillUse r ctx) = battle_deadline_at r"
  "boss_alive (commitSkillUse r ctx) = boss_alive r"
  by (simp_all add: commitSkillUse_def Let_def)

lemma commitSkillUse_ids [simp]:
  "map pa_player_id (participants (commitSkillUse r ctx)) = map pa_player_id (participants r)"
  by (cases "cast_index ctx < length (participants r)")
    (auto simp: commitSkillUse_def Let_def nth_list_update list_update_beyond intro!: nth_equalityI)

lemma commitSkillUse_position:
  assumes "cast_index ctx < length (participants r)"
  shows "pa_position (participants (commitSkillUse r ctx) ! cast_index ctx) =
    pa_position (participants r ! cast_index ctx)"
  using assms by (simp add: commitSkillUse_def Let_def)

lemma commitSkillUse_ok:
  assumes ok: "battle_ok r" and i: "cast_index ctx < length (participants r)"
  shows "battle_ok (commitSkillUse r ctx)"
proof -
  have "roster_ok (config r) (participants (commitSkillUse r ctx))"
    unfolding commitSkillUse_def Let_def using battle_okD(2) [OF ok] i
    by (simp, intro roster_update) (auto simp: participant_ok_def track_cooldown_sorted)
  with ok show ?thesis by (simp add: commitSkillUse_def Let_def battle_ok_participants)
qed

lemma area_hit_ok:
  shows "en_id (fst (area_hit a s n o' g e)) = en_id e" "en_kind (fst (area_hit a s n o' g e)) = en_kind e"
    "enemy_ok c e \<Longrightarrow> enemy_ok c (fst (area_hit a s n o' g e))"
    "length (snd (area_hit a s n o' g e)) \<le> 2"
    "unat (en_health (fst (area_hit a s n o' g e))) =
       (if in_area o' g e then unat (en_health e) - unat n else unat (en_health e))"
  using damage_enemy_ok [of a s n e "fst (damage_enemy a s n e)" "snd (damage_enemy a s n e)"]
  by (auto simp: area_hit_def)

definition area_result :: "room \<Rightarrow> skill_cast_context \<Rightarrow> u32 \<Rightarrow> room" where
  "area_result r ctx rng =
     (let r1 = commitSkillUse r ctx;
          hits = map (area_hit (cast_player ctx) (cast_skill_id ctx) (cast_damage ctx)
                   (pa_position (participants r ! cast_index ctx)) rng) (enemies r)
      in r1\<lparr>enemies := map fst hits, pending_events := pending_events r1 @ concat (map snd hits)\<rparr>)"

lemma area_result_ok:
  assumes ok: "battle_ok r" and i: "cast_index ctx < length (participants r)"
  shows "battle_ok (area_result r ctx rng)"
    "length (pending_events (area_result r ctx rng)) \<le> length (pending_events r) + 2 * length (enemies r)"
    "length (enemies (area_result r ctx rng)) = length (enemies r)"
proof -
  let ?hit = "area_hit (cast_player ctx) (cast_skill_id ctx) (cast_damage ctx)
    (pa_position (participants r ! cast_index ctx)) rng"
  have c: "battle_ok (commitSkillUse r ctx)" using ok i by (rule commitSkillUse_ok)
  have "horde_ok ((commitSkillUse r ctx)\<lparr>enemies := map (fst \<circ> ?hit) (enemies r)\<rparr>)"
  proof (rule horde_ok_enemies [OF battle_okD(3) [OF c]])
    show "same_horde (enemies (commitSkillUse r ctx)) (map (fst \<circ> ?hit) (enemies r))"
      by (simp add: same_horde_def area_hit_ok)
    show "list_all (enemy_ok (config (commitSkillUse r ctx))) (map (fst \<circ> ?hit) (enemies r))"
      using horde_okD(1) [OF battle_okD(3) [OF ok]] by (simp add: list_all_iff area_hit_ok)
  qed
  then show "battle_ok (area_result r ctx rng)"
    using c by (simp add: battle_ok_def area_result_def Let_def)
  show "length (pending_events (area_result r ctx rng)) \<le> length (pending_events r) + 2 * length (enemies r)"
    using concat_length_bound [of "enemies r" "snd \<circ> ?hit" 2]
    by (simp add: area_result_def Let_def area_hit_ok)
qed (simp add: area_result_def Let_def)

section \<open>What a step guarantees\<close>

definition digest_ok :: "room_config \<Rightarrow> u64 \<Rightarrow> room_result \<Rightarrow> u64 \<Rightarrow> bool" where
  "digest_ok c before res after \<longleftrightarrow>
     (case rr_digest res of
        None \<Rightarrow> after = before
      | Some d \<Rightarrow> digest_sequence d = before + 1 \<and> after = before + 1 \<and> digest_events d \<noteq> [] \<and>
          length (digest_events d) \<le> unat (event_reserve c))"

definition outcome_ok :: "room \<Rightarrow> room_result \<Rightarrow> room \<Rightarrow> bool" where
  "outcome_ok r res r' \<longleftrightarrow>
     (case rr_outcome res of
        None \<Rightarrow> rr_grants res = [] \<and> rr_failure_reason res = None \<and>
          (phase r' = phase r \<or> phase r = Waiting \<and> phase r' = Running)
      | Some BattleWon \<Rightarrow> phase r = Running \<and> phase r' = Cleared \<and> rr_failure_reason res = None \<and>
          rr_grants res = rewardClear r' \<and> map pa_player_id (participants r') = map pa_player_id (participants r) \<and>
          (\<exists>e \<in> set (enemies r'). en_kind e = Boss \<and> en_health e = 0)
      | Some BattleLost \<Rightarrow> phase r = Running \<and> phase r' = Failed \<and> rr_grants res = [] \<and>
          rr_failure_reason res \<noteq> None \<and>
          (rr_failure_reason res = Some ParticipantsDefeated \<longrightarrow> allParticipantsDead (participants r')))"

definition good_step :: "room \<Rightarrow> room_result \<Rightarrow> room \<Rightarrow> bool" where
  "good_step r res r' \<longleftrightarrow>
     room_inv r' \<and> config r' = config r \<and> room_ident r' = room_ident r \<and> rr_phase res = phase r' \<and>
     digest_ok (config r) (digest_counter r) res (digest_counter r') \<and> outcome_ok r res r'"

text \<open>A state in the middle of a handler: it differs from the one the handler started in only in
  battle data, and its pending events fit the reserved capacity.\<close>

definition mid_step :: "room \<Rightarrow> room \<Rightarrow> bool" where
  "mid_step r m \<longleftrightarrow>
     phase r = Running \<and> battle_ok m \<and> config m = config r \<and> room_ident m = room_ident r \<and>
     phase m = Running \<and> digest_counter m = digest_counter r \<and>
     length (pending_events m) \<le> unat (event_reserve (config r))"

lemma baseResult_simps [simp]:
  "rr_status (baseResult r s p) = s" "rr_phase (baseResult r s p) = phase r" "rr_digest (baseResult r s p) = None"
  "rr_outcome (baseResult r s p) = None" "rr_failure_reason (baseResult r s p) = None"
  "rr_grants (baseResult r s p) = []" "rr_player (baseResult r s p) = p" "rr_audience (baseResult r s p) = []"
  by (simp_all add: baseResult_def)

lemma good_step_refused [simp]: "good_step r (baseResult r s p) r \<longleftrightarrow> room_inv r"
  by (simp add: good_step_def digest_ok_def outcome_ok_def)

lemma failBattle_good:
  assumes "mid_step r m" and "reason = ParticipantsDefeated \<longrightarrow> allParticipantsDead (participants m)"
    and "failBattle m status player reason = (res, r')"
  shows "good_step r res r'"
  using assms
  by (auto simp: failBattle_def takeDigest_def Let_def good_step_def mid_step_def room_inv_def digest_ok_def
      outcome_ok_def battle_ok_no_projectiles split: if_splits)

lemma clearBattle_good:
  assumes "mid_step r m" and "map pa_player_id (participants m) = map pa_player_id (participants r)"
    and "\<exists>e \<in> set (enemies m). en_kind e = Boss \<and> en_health e = 0"
    and "clearBattle m player = (res, r')"
  shows "good_step r res r'"
  using assms
  by (auto simp: clearBattle_def takeDigest_def Let_def good_step_def mid_step_def room_inv_def digest_ok_def
      outcome_ok_def battle_ok_no_projectiles split: if_splits)

lemma finishSkillUse_good:
  assumes "mid_step r m" and "boss_alive m" and "finishSkillUse m player = (res, r')"
  shows "good_step r res r'"
proof -
  have "battle_ok m" using assms(1) by (simp add: mid_step_def)
  then have "digest_flush_threshold (config m) \<noteq> 0" by (intro config_scalars(7) battle_okD(1))
  then have "0 < unat (digest_flush_threshold (config m))" by (simp add: unat_gt_0)
  then show ?thesis using assms
    by (auto simp: finishSkillUse_def takeDigest_def Let_def good_step_def mid_step_def room_inv_def digest_ok_def
      outcome_ok_def split: if_splits)
qed

section \<open>The handlers\<close>

lemma running_okD:
  assumes "room_inv r" and "phase r = Running"
  shows "battle_ok r" "boss_alive r" "config_ok (config r)"
    "length (pending_events r) < unat (digest_flush_threshold (config r))"
  using assms battle_okD(1) by (auto simp: room_inv_def)

lemma room_inv_config: "room_inv r \<Longrightarrow> config_ok (config r)"
  using battle_okD(1) by (auto simp: room_inv_def split: room_phase.splits)

lemma room_inv_roster: "room_inv r \<Longrightarrow> roster_ok (config r) (participants r)"
  using battle_okD(2) by (auto simp: room_inv_def split: room_phase.splits)

lemma findParticipant_Some:
  assumes "findParticipant r player = Some i"
  shows "i < length (participants r)" "pa_player_id (participants r ! i) = player"
  using assms locate_Some(1,2) by (simp_all add: findParticipant_def)

lemma reserve_room:
  assumes "room_inv r" and "phase r = Running"
  shows "length (pending_events r) + unat (max_participants (config r)) + 3 * length (enemies r) +
    4 * unat (max_active_projectiles (config r)) + 1 \<le> unat (event_reserve (config r))"
proof -
  note R = running_okD [OF assms]
  note H = battle_okD(3) [OF R(1)]
  have "length (enemies r) \<le> unat (max_spawned_enemies (config r))"
    using horde_okD(2) [OF H] enemies_made_le [OF R(3) horde_okD(3) [OF H]] by simp
  then show ?thesis using R(4) by (simp add: config_reserve [OF R(3)])
qed

lemma mid_step_self:
  assumes "room_inv r" and "phase r = Running"
  shows "mid_step r r"
  using reserve_room [OF assms] running_okD [OF assms] assms by (simp add: mid_step_def)

lemma expired_good:
  assumes "room_inv r" and "phase r = Running" and "failBattle r status player Deadline = (res, r')"
  shows "good_step r res r'"
  by (rule failBattle_good [OF mid_step_self [OF assms(1,2)] _ assms(3)]) simp

lemma new_participant_ok: "config_ok c \<Longrightarrow> participant_ok c (new_participant player stats skill)"
  using config_arena [of c]
  by (auto simp: participant_ok_def new_participant_def in_arena_def word_less_nat_alt unat_gt_0)

lemma handleJoin_good:
  assumes inv: "room_inv r" and "handleJoin r player stats skill = (res, r')"
  shows "good_step r res r'"
proof -
  let ?ps = "vec_insert (lower_bound pa_player_id (participants r) player)
    (new_participant player stats skill) (participants r)"
  have "roster_ok (config r) ?ps" if "phase r = Waiting" "findParticipant r player = None"
    "length (participants r) < unat (max_participants (config r))"
    using that roster_insert [OF room_inv_roster [OF inv], of "new_participant player stats skill"]
      new_participant_ok [OF room_inv_config [OF inv]]
    by (simp add: findParticipant_def new_participant_def)
  then show ?thesis using assms
    by (auto simp: handleJoin_def Let_def good_step_def room_inv_def digest_ok_def outcome_ok_def split: if_splits)
qed

lemma takeDigest_good:
  assumes "mid_step r m" and "boss_alive m" and "takeDigest m = (d, r')"
    and "rr_digest res = d" "rr_outcome res = None" "rr_grants res = []" "rr_failure_reason res = None"
    "rr_phase res = Running"
  shows "good_step r res r'"
proof -
  have ok: "battle_ok m" using assms(1) by (simp add: mid_step_def)
  have "0 < unat (digest_flush_threshold (config m))"
    using config_scalars(7) [OF battle_okD(1) [OF ok]] by (simp add: unat_gt_0)
  moreover have "rr_digest res = fst (takeDigest m)" "r' = snd (takeDigest m)" using assms(3,4) by simp_all
  ultimately show ?thesis using assms(1,2,5-)
    by (auto simp: takeDigest_def good_step_def mid_step_def room_inv_def digest_ok_def outcome_ok_def)
qed

lemma handleLeave_good:
  assumes inv: "room_inv r" and leave: "handleLeave r player = (res, r')"
  shows "good_step r res r'"
proof (cases "phase r = Cleared \<or> phase r = Failed \<or> findParticipant r player = None")
  case True
  then show ?thesis using inv leave by (auto simp: handleLeave_def split: if_splits)
next
  case False
  then obtain i where i: "findParticipant r player = Some i" by auto
  let ?ps = "vec_erase i (participants r)"
  have ro: "roster_ok (config r) ?ps"
    by (rule roster_erase [OF room_inv_roster [OF inv] findParticipant_Some(1) [OF i]])
  show ?thesis
  proof (cases "phase r = Running")
    case waiting: False
    then have "phase r = Waiting" using False by (cases "phase r") auto
    then show ?thesis using leave i inv ro
      by (auto simp: handleLeave_def Let_def good_step_def room_inv_def digest_ok_def outcome_ok_def)
  next
    case running: True
    note R = running_okD [OF inv running]
    let ?m = "r\<lparr>participants := ?ps, pending_events := pending_events r @ [ParticipantLeft player]\<rparr>"
    have mid: "mid_step r ?m" and alive: "boss_alive ?m"
      using R reserve_room [OF inv running] running battle_ok_participants [OF R(1) ro]
      by (simp_all add: mid_step_def)
    consider (empty) "?ps = []" | (dead) "?ps \<noteq> []" "allParticipantsDead ?ps"
      | (left) "?ps \<noteq> []" "\<not> allParticipantsDead ?ps" by auto
    then show ?thesis
    proof cases
      case empty
      let ?e = "r\<lparr>participants := ?ps, pending_events := [], projectiles := []\<rparr>"
      have "res = baseResult ?e Applied (Some player)" "r' = ?e"
        using empty leave i running by (auto simp: handleLeave_def Let_def)
      moreover have "battle_ok ?e"
        using battle_ok_no_projectiles [OF battle_ok_participants [OF R(1) ro]] by (simp add: battle_ok_def)
      moreover have "0 < unat (digest_flush_threshold (config r))" using R(4) by simp
      ultimately show ?thesis using running R(2)
        by (simp add: good_step_def room_inv_def digest_ok_def outcome_ok_def)
    next
      case dead
      then have "failBattle ?m Applied (Some player) ParticipantsDefeated = (res, r')"
        using leave i running by (simp add: handleLeave_def Let_def)
      then show ?thesis using failBattle_good [OF mid] dead by simp
    next
      case left
      then show ?thesis using leave i running
        by (auto simp: handleLeave_def Let_def split: prod.splits intro!: takeDigest_good [OF mid alive])
    qed
  qed
qed

lemma place_participant_ok:
  assumes c: "config_ok c" and "index < count" and "count \<le> unat (max_participants c)"
    and "key_sorted cd_skill_id (cooldowns p)"
  shows "participant_ok c (place_participant c count index p)"
proof -
  have small: "n < 18446744073709551616" if "n \<le> count" for n
    using that assms(3) unat_u64_lt [of "max_participants c"] by linarith
  have u: "unat (of_nat index :: u64) = index" "unat (of_nat count :: u64) = count"
    using assms(2) small by (simp_all add: unat_of_nat_u64)
  have "formation_fits (arena_width c) (participant_spawn_spacing c) (unat (of_nat count :: u64) - 1)"
    using formation_fits_mono [OF config_formation [OF c]] assms(3) u by simp
  then have "in_arena (arena_width c) (arena_height c) (centeredParticipantPosition (of_nat index) (of_nat count)
      (arena_width c) (arena_height c) (participant_spawn_spacing c))"
    using config_arena(2) [OF c] assms(2) u by (intro centered_in_arena) simp_all
  then show ?thesis using assms(4) by (simp add: participant_ok_def place_participant_def)
qed

lemma initializeArena_frame [simp]:
  "config (initializeArena r) = config r" "phase (initializeArena r) = phase r" "enemies (initializeArena r) = enemies r"
  "projectiles (initializeArena r) = projectiles r" "boss_spawned (initializeArena r) = boss_spawned r"
  "spawned_wave_count (initializeArena r) = spawned_wave_count r" "next_wave_at (initializeArena r) = next_wave_at r"
  "boss_spawn_at (initializeArena r) = boss_spawn_at r" "digest_counter (initializeArena r) = digest_counter r"
  "battle_deadline_at (initializeArena r) = battle_deadline_at r" "room_ident (initializeArena r) = room_ident r"
  "next_enemy_id (initializeArena r) = next_enemy_id r" "next_projectile_id (initializeArena r) = next_projectile_id r"
  "length (pending_events (initializeArena r)) = length (pending_events r) + 1 + length (participants r)"
  by (simp_all add: initializeArena_def Let_def)

lemma initializeArena_roster:
  assumes c: "config_ok (config r)" and ok: "roster_ok (config r) (participants r)"
  shows "roster_ok (config r) (participants (initializeArena r))"
proof -
  let ?n = "length (participants r)"
  have "roster_ok (config r) (map (\<lambda>(i, p). place_participant (config r) ?n i p) (enumerate 0 (participants r)))"
    using ok
  proof (rule roster_enumerate)
    show "participant_ok (config r) (place_participant (config r) ?n i p)"
      if "i < ?n" "p = participants r ! i" for i p
      using that roster_okD(3) [OF ok, of p] roster_okD(2) [OF ok]
      by (intro place_participant_ok [OF c]) (simp_all add: participant_ok_def)
  qed (simp add: place_participant_def)
  then show ?thesis by (simp add: initializeArena_def Let_def)
qed

definition started_room :: "room \<Rightarrow> time_point \<Rightarrow> room" where
  "started_room r t =
     spawnWave (initializeArena (r\<lparr>phase := Running, battle_deadline_at := after_ms t (battle_duration (config r)),
       next_wave_at := after_ms t (wave_interval (config r)),
       boss_spawn_at := after_ms t (boss_spawn_after (config r))\<rparr>)) t"

lemma spawnWave_ident [simp]: "room_ident (spawnWave r t) = room_ident r"
  by (simp add: spawnWave_def Let_def)

lemma started_room_ok:
  assumes inv: "room_inv r" and waiting: "phase r = Waiting"
  shows "battle_ok (started_room r t)" "boss_alive (started_room r t)"
    "length (pending_events (started_room r t)) \<le> unat (event_reserve (config r))"
proof -
  let ?c = "config r"
  define i where "i = initializeArena (r\<lparr>phase := Running, battle_deadline_at := after_ms t (battle_duration ?c),
       next_wave_at := after_ms t (wave_interval ?c), boss_spawn_at := after_ms t (boss_spawn_after ?c)\<rparr>)"
  have s: "started_room r t = spawnWave i t" by (simp add: started_room_def i_def)
  have W: "config_ok ?c" "roster_ok ?c (participants r)" "spawned_wave_count r = 0" "next_enemy_id r = 1"
    "next_projectile_id r = 1" "\<not> boss_spawned r" "enemies r = []" "projectiles r = []" "pending_events r = []"
    using inv waiting by (simp_all add: room_inv_def)
  have horde: "horde_ok i" using W by (simp add: horde_ok_def i_def enemies_made_def)
  have roster: "roster_ok ?c (participants i)"
    using initializeArena_roster W(1,2) by (simp add: i_def initializeArena_def Let_def)
  have fl: "flight_ok ?c 1 []" by (simp add: flight_ok_def)
  have thr: "1 \<le> unat (digest_flush_threshold ?c)"
    using config_scalars(7) [OF W(1)] by (simp add: unat_gt_0 Suc_le_eq)
  have start: "started_at i = t" by (simp add: i_def started_at_def after_ms_def)
  have len: "length (pending_events i) \<le> 1 + unat (max_participants ?c)"
    using roster_okD(2) [OF W(2)] W(9) by (simp add: i_def)
  show "boss_alive (started_room r t)" using W(6) by (simp add: boss_alive_def s i_def)
  have "battle_ok (spawnWave i t) \<and> length (pending_events (spawnWave i t)) \<le> unat (event_reserve ?c)"
  proof (cases "wave_count ?c = 0")
    case True
    then have "spawnWave i t = i" by (simp add: spawnWave_def i_def)
    moreover have "schedule_ok i" using True start W(6) by (simp add: schedule_ok_def i_def)
    ultimately show ?thesis
      using W fl horde roster len config_reserve [OF W(1)] thr
      by (simp add: battle_ok_def i_def)
  next
    case False
    then have due: "spawned_wave_count i < wave_count (config i)" using W(3) by (simp add: i_def word_greater_zero_iff)
    note S = spawnWave_ok [OF _ horde due]
    have "unat (spawned_wave_count (spawnWave i t)) = 1" using S(4) W(1,3,6) by (simp add: i_def)
    moreover have "started_at (spawnWave i t) = t" using start by (simp add: started_at_def)
    ultimately have "schedule_ok (spawnWave i t)" using W(6) by (simp add: schedule_ok_def i_def)
    moreover have "unat (minions_per_wave ?c) \<le> unat (max_spawned_enemies ?c)"
    proof -
      have "1 * unat (minions_per_wave ?c) \<le> unat (wave_count ?c) * unat (minions_per_wave ?c)"
        using False by (intro mult_le_mono1) (simp add: unat_gt_0 Suc_le_eq)
      then show ?thesis using config_enemies(1) [OF W(1)] by linarith
    qed
    ultimately show ?thesis
      using W fl S(1,3) roster len config_reserve [OF W(1)] thr
      by (simp add: battle_ok_def i_def)
  qed
  then show "battle_ok (started_room r t)" "length (pending_events (started_room r t)) \<le> unat (event_reserve ?c)"
    by (simp_all add: s)
qed

lemma handleStart_good:
  assumes inv: "room_inv r" and start: "handleStart r t = (res, r')"
  shows "good_step r res r'"
proof (cases "canStartBattle r")
  case True
  let ?m = "started_room r t"
  have waiting: "phase r = Waiting" using True by (simp add: canStartBattle_def)
  note S = started_room_ok [OF inv waiting, of t]
  have thr: "0 < unat (digest_flush_threshold (config r))"
    using config_scalars(7) [OF room_inv_config [OF inv]] by (simp add: unat_gt_0)
  have frame: "config ?m = config r" "room_ident ?m = room_ident r" "phase ?m = Running"
    "digest_counter ?m = digest_counter r"
    by (simp_all add: started_room_def)
  have "r' = snd (takeDigest ?m)" "rr_digest res = fst (takeDigest ?m)" "rr_outcome res = None" "rr_grants res = []"
    "rr_failure_reason res = None" "rr_phase res = Running"
    using start True frame
    by (auto simp: handleStart_def Let_def started_room_def [symmetric] split: prod.splits)
  then show ?thesis using S frame thr waiting
    by (auto simp: takeDigest_def good_step_def room_inv_def digest_ok_def outcome_ok_def)
next
  case False
  then show ?thesis using inv start by (auto simp: handleStart_def)
qed

lemma handleDeadline_good:
  assumes "room_inv r" and "handleDeadline r t = (res, r')"
  shows "good_step r res r'"
  using assms expired_good by (auto simp: handleDeadline_def split: if_splits)

lemma handleSetMoveIntent_good:
  assumes inv: "room_inv r" and set: "handleSetMoveIntent r player d q t = (res, r')"
  shows "good_step r res r'"
proof (cases "phase r = Running \<and> t < battle_deadline_at r")
  case True
  show ?thesis
  proof (cases "findParticipant r player")
    case (Some i)
    let ?p = "participants r ! i"
    let ?ps = "(participants r)[i := ?p\<lparr>applied_movement_sequence := q, move_intent := d\<rparr>]"
    have "roster_ok (config r) ?ps" if "current_health ?p \<noteq> 0"
      by (rule roster_update [OF room_inv_roster [OF inv]])
        (use findParticipant_Some [OF Some] that in \<open>simp_all add: participant_ok_def\<close>)
    then have "room_inv (r\<lparr>participants := ?ps\<rparr>)" if "current_health ?p \<noteq> 0"
      using that inv True battle_ok_participants by (simp add: room_inv_def)
    then show ?thesis using inv set True Some
      by (auto simp: handleSetMoveIntent_def Let_def good_step_def digest_ok_def outcome_ok_def split: if_splits)
  qed (use inv set True in \<open>auto simp: handleSetMoveIntent_def\<close>)
next
  case False
  then show ?thesis using inv set expired_good by (auto simp: handleSetMoveIntent_def split: if_splits)
qed

lemma mid_step_commit:
  assumes "room_inv r" and "phase r = Running" and "cast_index ctx < length (participants r)"
  shows "mid_step r ((commitSkillUse r ctx)\<lparr>pending_events := pending_events r @ [e]\<rparr>)"
  using assms commitSkillUse_ok [OF running_okD(1) [OF assms(1,2)]] reserve_room [OF assms(1,2)]
  by (simp add: mid_step_def)

lemma area_kills:
  assumes "list_ex (\<lambda>e. in_area o' g e \<and> en_kind e = Boss \<and> en_health e - min n (en_health e) = 0) es"
  shows "\<exists>e \<in> set (map (fst \<circ> area_hit a s n o' g) es). en_kind e = Boss \<and> en_health e = 0"
  using assms by (force simp: list_ex_iff area_hit_def damage_enemy_def Let_def)

lemma area_spares:
  assumes "\<not> list_ex (\<lambda>e. in_area o' g e \<and> en_kind e = Boss \<and> en_health e - min n (en_health e) = 0) es"
    and "\<exists>e \<in> set es. en_kind e = Boss \<and> en_health e \<noteq> 0"
  shows "\<exists>e \<in> set (map (fst \<circ> area_hit a s n o' g) es). en_kind e = Boss \<and> en_health e \<noteq> 0"
  using assms by (force simp: list_ex_iff area_hit_def damage_enemy_def Let_def)

lemma applyAreaAttack_good:
  assumes inv: "room_inv r" and run: "phase r = Running" and i: "cast_index ctx < length (participants r)"
    and cast: "applyAreaAttack r ctx rng = (res, r')"
  shows "good_step r res r'"
proof -
  let ?m = "area_result r ctx rng" and ?o = "pa_position (participants r ! cast_index ctx)"
  let ?killed = "list_ex (\<lambda>e. in_area ?o rng e \<and> en_kind e = Boss \<and>
    en_health e - min (cast_damage ctx) (en_health e) = 0) (enemies r)"
  note A = area_result_ok [OF running_okD(1) [OF inv run] i, of rng]
  have frame: "config ?m = config r" "room_ident ?m = room_ident r" "phase ?m = Running"
    "digest_counter ?m = digest_counter r" "boss_spawned ?m = boss_spawned r"
    "map pa_player_id (participants ?m) = map pa_player_id (participants r)"
    using run by (simp_all add: area_result_def Let_def)
  have mid: "mid_step r ?m" and mid1: "mid_step r (?m\<lparr>pending_events := pending_events ?m @ [e]\<rparr>)"
    if "length (pending_events ?m) + 1 \<le> unat (event_reserve (config r))" for e
    using that A(1) frame run by (simp_all add: mid_step_def)
  have small: "length (pending_events ?m) + 1 \<le> unat (event_reserve (config r))"
    using A(2) reserve_room [OF inv run] by linarith
  have alive: "boss_alive ?m" if "\<not> ?killed"
    using running_okD(2) [OF inv run] area_spares [OF that]
    by (auto simp: boss_alive_def area_result_def Let_def)
  have unfold: "applyAreaAttack r ctx rng =
      (if \<not> list_ex (in_area ?o rng) (enemies r)
       then finishSkillUse (?m\<lparr>pending_events := pending_events ?m @
              [SkillWhiffed (cast_player ctx) (cast_skill_id ctx)]\<rparr>) (cast_player ctx)
       else if ?killed then clearBattle ?m (Some (cast_player ctx)) else finishSkillUse ?m (cast_player ctx))"
    by (simp only: applyAreaAttack_def area_result_def Let_def commitSkillUse_frame
        commitSkillUse_position [OF i])
  consider (whiff) "\<not> list_ex (in_area ?o rng) (enemies r)" | (kill) "list_ex (in_area ?o rng) (enemies r)" ?killed
    | (hit) "list_ex (in_area ?o rng) (enemies r)" "\<not> ?killed" by blast
  then show ?thesis
  proof cases
    case whiff
    then have "\<not> ?killed" by (auto simp: list_ex_iff)
    then show ?thesis
      using whiff cast unfold finishSkillUse_good [OF mid1 [OF small]] alive by simp
  next
    case kill
    then have "\<exists>e \<in> set (enemies ?m). en_kind e = Boss \<and> en_health e = 0"
      using area_kills [OF kill(2)] by (simp add: area_result_def Let_def)
    then show ?thesis
      using kill cast unfold clearBattle_good [OF mid [OF small] frame(6)] by simp
  next
    case hit
    then show ?thesis using cast unfold finishSkillUse_good [OF mid [OF small] alive] by simp
  qed
qed

lemma flight_spawn:
  assumes "flight_ok c next ps" and "length ps < unat (max_active_projectiles c)" and "next \<noteq> 0"
    and "pr_id p = next" "in_arena (arena_width c) (arena_height c) (pr_position p)"
  shows "flight_ok c (next_projectile next) (ps @ [p])"
proof -
  have up: "next_projectile next = 0 \<or> next < next_projectile next"
  proof (cases "next = UINT32_MAX")
    case False
    then have "unat next \<noteq> 4294967295" by (simp only: word_unat_eq_iff unat_u32_max not_False_eq_True)
    then have "unat next < 4294967295" using unat_u32_lt [of "next"] by simp
    then have "unat (next + 1) = unat next + 1" by (subst unat_add_small) simp_all
    then show ?thesis using False by (simp add: next_projectile_def word_less_nat_alt)
  qed (simp add: next_projectile_def)
  have lt: "pr_id q < next" if "q \<in> set ps" for q
    using assms(1,3) that by (auto simp: flight_ok_def list_all_iff)
  have "next_projectile next = 0 \<or> pr_id q < next_projectile next" if "q \<in> set ps" for q
    using up lt [OF that] by auto
  moreover have "0 < next" using assms(3) by (simp add: word_greater_zero_iff)
  ultimately show ?thesis using assms up lt
    by (auto simp: flight_ok_def list_all_iff key_sorted_append)
qed

lemma spawnHomingProjectile_good:
  assumes inv: "room_inv r" and run: "phase r = Running" and i: "cast_index ctx < length (participants r)"
    and cast: "spawnHomingProjectile r ctx acq speed hit life = (res, r')"
  shows "good_step r res r'"
proof -
  let ?o = "pa_position (participants r ! cast_index ctx)" and ?m = "commitSkillUse r ctx"
  note R = running_okD [OF inv run]
  show ?thesis
  proof (cases "findTargetEnemy r ?o acq")
    case None
    then show ?thesis
      using cast R finishSkillUse_good [OF mid_step_commit [OF inv run i]]
      by (simp add: spawnHomingProjectile_def Let_def)
  next
    case (Some target)
    let ?p = "new_projectile ?m ctx target speed hit life"
    let ?n = "?m\<lparr>next_projectile_id := next_projectile (next_projectile_id ?m),
      projectiles := projectiles ?m @ [?p], pending_events := pending_events ?m @ [projectile_spawn_event ?p]\<rparr>"
    show ?thesis
    proof (cases "length (projectiles r) \<ge> unat (max_active_projectiles (config r)) \<or> next_projectile_id r = 0")
      case True
      then show ?thesis using cast Some inv by (auto simp: spawnHomingProjectile_def)
    next
      case False
      have "in_arena (arena_width (config r)) (arena_height (config r)) ?o"
        using roster_okD(3) [OF battle_okD(2) [OF R(1)] nth_mem [OF i]] by (simp add: participant_ok_def)
      then have "flight_ok (config r) (next_projectile (next_projectile_id r)) (projectiles r @ [?p])"
        using False battle_okD(4) [OF R(1)] i
        by (intro flight_spawn) (simp_all add: new_projectile_def commitSkillUse_position not_le)
      then have "battle_ok ?n" using commitSkillUse_ok [OF R(1) i] by (simp add: battle_ok_def)
      then have "mid_step r ?n" using run reserve_room [OF inv run] by (simp add: mid_step_def)
      then show ?thesis
        using False cast Some R(2) finishSkillUse_good [of r ?n "cast_player ctx"]
        by (simp add: spawnHomingProjectile_def Let_def)
    qed
  qed
qed

lemma handleUseSkill_cases:
  assumes use: "handleUseSkill r player skill q t = (res, r')"
  obtains (refused) s where "res = baseResult r s (Some player)" "r' = r" "s \<noteq> Applied"
  | (expired) "phase r = Running" "battle_deadline_at r \<le> t"
      "failBattle r BattleExpired (Some player) Deadline = (res, r')"
  | (cast) i d ctx where "phase r = Running" "t < battle_deadline_at r" "findParticipant r player = Some i"
      "applied_skill_sequence (participants r ! i) < q" "current_health (participants r ! i) \<noteq> 0"
      "findSkill skill = Some d" "skill = pa_equipped_skill_id (participants r ! i)"
      "\<not> on_cooldown (participants r ! i) skill t"
      "ctx = \<lparr>cast_index = i, cast_player = player, cast_skill_id = skill, cast_sequence = q, cast_at = t,
         cast_cooldown = def_cooldown d,
         cast_damage = calculateSkillDamage d (stat_attack (pa_stats (participants r ! i)))\<rparr>"
      "cast_skill r ctx (def_behavior d) = (res, r')"
proof -
  show thesis
    using use unfolding handleUseSkill_def Let_def
    by (auto split: if_splits option.splits
        intro: refused [of WrongPhase] refused [of NotJoined] refused [of DuplicateRequest]
          refused [of ParticipantDead] refused [of UnknownSkill] refused [of SkillNotEquipped]
          refused [of SkillOnCooldown] expired cast simp: not_le)
qed

lemma handleUseSkill_good:
  assumes inv: "room_inv r" and use: "handleUseSkill r player skill q t = (res, r')"
  shows "good_step r res r'"
  using use
proof (cases rule: handleUseSkill_cases)
  case (refused s)
  then show ?thesis using inv by simp
next
  case expired
  then show ?thesis using expired_good [OF inv] by blast
next
  case (cast i d ctx)
  have i: "cast_index ctx < length (participants r)" using cast findParticipant_Some by simp
  show ?thesis
    using cast(10) applyAreaAttack_good [OF inv cast(1) i] spawnHomingProjectile_good [OF inv cast(1) i]
    by (cases "def_behavior d") (auto simp: cast_skill_def)
qed

lemma moveParticipants_frame [simp]:
  "config (moveParticipants r) = config r" "phase (moveParticipants r) = phase r"
  "enemies (moveParticipants r) = enemies r" "boss_spawned (moveParticipants r) = boss_spawned r"
  "digest_counter (moveParticipants r) = digest_counter r" "room_ident (moveParticipants r) = room_ident r"
  "enemies_made (moveParticipants r) = enemies_made r" "boss_alive (moveParticipants r) = boss_alive r"
  "map pa_player_id (participants (moveParticipants r)) = map pa_player_id (participants r)"
  by (simp_all add: moveParticipants_def Let_def enemies_made_def move_participant_def)

lemma erase_dead_frame [simp]:
  "config (erase_dead r) = config r" "phase (erase_dead r) = phase r" "participants (erase_dead r) = participants r"
  "digest_counter (erase_dead r) = digest_counter r" "room_ident (erase_dead r) = room_ident r"
  "enemies_made (erase_dead r) = enemies_made r" "pending_events (erase_dead r) = pending_events r"
  by (simp_all add: erase_dead_def enemies_made_def)

lemma advanceProjectiles_made:
  assumes "advanceProjectiles r t = (killed, r')"
  shows "enemies_made r' = enemies_made r" "room_ident r' = room_ident r"
  using assms by (auto simp: advanceProjectiles_def enemies_made_def split: prod.splits)

lemma actEnemies_frame:
  assumes "actEnemies r t = (fighting, r')"
  shows "enemies_made r' = enemies_made r" "room_ident r' = room_ident r" "digest_counter r' = digest_counter r"
  using assms by (auto simp: actEnemies_def enemies_made_def split: prod.splits)

lemma spawn_due_waves_ident [simp]: "room_ident (spawn_due_waves r t) = room_ident r"
proof (induction r t rule: spawn_due_waves.induct)
  case (1 r t)
  then show ?case by (subst spawn_due_waves.simps) (simp add: Let_def)
qed

lemma spawn_due_boss_frame [simp]:
  "config (spawn_due_boss r t) = config r" "phase (spawn_due_boss r t) = phase r"
  "participants (spawn_due_boss r t) = participants r" "digest_counter (spawn_due_boss r t) = digest_counter r"
  "room_ident (spawn_due_boss r t) = room_ident r"
  by (simp_all add: spawn_due_boss_def spawnBoss_def Let_def)

lemma spawn_due_ok:
  fixes t :: time_point
  assumes ok: "battle_ok r" and alive: "boss_alive r"
  defines "r' \<equiv> spawn_due_boss (spawn_due_waves r t) t"
  shows "battle_ok r'" "boss_alive r'" "config r' = config r"
    "phase r' = phase r" "digest_counter r' = digest_counter r" "room_ident r' = room_ident r"
    "length (pending_events r') + 2 * enemies_made r = length (pending_events r) + 2 * enemies_made r'"
    "enemies_made r \<le> enemies_made r'"
proof -
  let ?w = "spawn_due_waves r t"
  note W = spawn_due_waves_ok [OF ok, of t]
  have "battle_ok r' \<and> boss_alive r' \<and> enemies_made ?w \<le> enemies_made r' \<and>
    length (pending_events r') + 2 * enemies_made ?w = length (pending_events ?w) + 2 * enemies_made r'"
  proof (cases "\<not> boss_spawned ?w \<and> boss_spawn_at ?w \<le> t")
    case True
    have "spawned_wave_count ?w = wave_count (config ?w)"
      by (rule all_waves_before_boss [of ?w t]) (use W True in auto)
    then show ?thesis using True W spawnBoss_ok [of ?w t] by (simp add: r'_def spawn_due_boss_def)
  next
    case False
    then have "r' = ?w" by (auto simp: r'_def spawn_due_boss_def)
    then show ?thesis using W alive by simp
  qed
  then show "battle_ok r'" "boss_alive r'" "enemies_made r \<le> enemies_made r'"
    "length (pending_events r') + 2 * enemies_made r = length (pending_events r) + 2 * enemies_made r'"
    using W by auto
qed (use spawn_due_waves_ok [OF ok, of t] in \<open>simp_all add: r'_def\<close>)

lemma handleTick_good:
  assumes inv: "room_inv r" and tick: "handleTick r t = (res, r')"
  shows "good_step r res r'"
proof (cases "phase r = Running \<and> t < battle_deadline_at r")
  case True
  then have run: "phase r = Running" by simp
  note R = running_okD [OF inv run]
  let ?c = "config r" and ?d = "erase_dead r" and ?v = "moveParticipants (erase_dead r)"
  note E = erase_dead_ok [OF R(1)]
  note M = moveParticipants_ok [OF E(1)]
  obtain killed a where a: "advanceProjectiles ?v t = (killed, a)" by force
  obtain fighting b where b: "actEnemies a t = (fighting, b)" by force
  note A = advanceProjectiles_ok [OF M(1) a] and AF = advanceProjectiles_frame [OF a] advanceProjectiles_made [OF a]
  note B = actEnemies_ok [OF A(1) b] and BF = actEnemies_frame [OF b]
  note made = horde_okD(2) [OF battle_okD(3) [OF R(1)]]
  have reserve: "n \<le> unat (event_reserve ?c)" if "n \<le> length (pending_events r) + unat (max_participants ?c) +
      4 * unat (max_active_projectiles ?c) + 3 * k" "k \<le> unat (max_spawned_enemies ?c)" for n k
    using that R(4) config_reserve [OF R(3)] by linarith
  have pa: "length (pending_events a) \<le> length (pending_events r) + unat (max_participants ?c) +
      4 * unat (max_active_projectiles ?c)" using A(4) M(2) AF(1) by simp
  have pb: "length (pending_events b) \<le> length (pending_events a) + 3 * enemies_made r"
    using B(6) A(3) E(3) made by simp
  have cap: "enemies_made x \<le> unat (max_spawned_enemies ?c)" if "battle_ok x" "config x = ?c" for x
    using enemies_made_le [of x] that battle_okD(1) [OF that(1)] horde_okD(3) [OF battle_okD(3) [OF that(1)]] by simp
  have mida: "mid_step r a"
    using A(1) AF run pa reserve [of "length (pending_events a)" 0] by (simp add: mid_step_def)
  have midb: "mid_step r b"
    using B(1,3,4) BF AF run pa pb cap [OF R(1)] reserve [of "length (pending_events b)" "enemies_made r"]
    by (simp add: mid_step_def)
  let ?s = "spawn_due_boss (spawn_due_waves b t) t"
  consider (won) killed | (lost) "\<not> killed" "\<not> fighting" | (on) "\<not> killed" fighting by auto
  then show ?thesis
  proof cases
    case won
    then have "clearBattle a None = (res, r')" using tick True a by (simp add: handleTick_def)
    then show ?thesis using clearBattle_good [OF mida _ A(5) [OF won]] AF(3) by simp
  next
    case lost
    then have "failBattle b Applied None ParticipantsDefeated = (res, r')"
      using tick True a b by (simp add: handleTick_def)
    then show ?thesis using failBattle_good [OF midb] B(7) [OF lost(2)] by simp
  next
    case on
    have "boss_alive b" using A(2) B(2) E(2) R(2) on by simp
    note S = spawn_due_ok [OF B(1) this, of t]
    have "length (pending_events ?s) \<le> length (pending_events a) + 3 * enemies_made ?s"
      using S(7,8) B(6) A(3) E(3) made BF(1) AF(6) by simp
    then have "mid_step r ?s"
      using S B(3,4) BF AF run pa cap [OF S(1)] reserve [of "length (pending_events ?s)" "enemies_made ?s"]
      by (simp add: mid_step_def)
    from takeDigest_good [OF this S(2)] show ?thesis
      using on tick True a b S(4) B(4) AF(2)
      by (auto simp: handleTick_def Let_def split: prod.splits)
  qed
next
  case False
  then show ?thesis using inv tick expired_good by (auto simp: handleTick_def split: if_splits)
qed

lemma room_step_good:
  assumes inv: "room_inv r" and step: "room_step r c = (res, r')"
  shows "good_step r res r'"
  using step
  by (cases "fst c") (auto simp: room_step_def room_handle_def
      intro: handleJoin_good [OF inv] handleLeave_good [OF inv] handleStart_good [OF inv] handleUseSkill_good [OF inv]
        handleDeadline_good [OF inv] handleTick_good [OF inv] handleSetMoveIntent_good [OF inv])

end
