(* ===== verification/Room_Props.thy ===== *)
theory Room_Props
  imports Room
begin

text \<open>
  The battle room of \<^verbatim>\<open>src/game/room.cpp\<close> as a state machine: its properties over whole runs of
  timed commands, and what single commands do.
\<close>

section \<open>The machine\<close>

lemma make_room_inv:
  assumes "make_room room c = Inr r"
  shows "room_inv r" "config r = c" "digest_counter r = 0"
  using assms config_ok_of_room [of room c]
  by (auto simp: make_room_def room_inv_def roster_ok_def split: option.splits)

lemma room_step_inv: "room_inv r \<Longrightarrow> room_inv (snd (room_step r c))"
  using room_step_good [of r c "fst (room_step r c)" "snd (room_step r c)"] by (simp add: good_step_def)

definition battle_over :: "room \<Rightarrow> bool" where
  "battle_over r \<longleftrightarrow> phase r = Cleared \<or> phase r = Failed"

definition decides :: "room_result \<Rightarrow> bool" where
  "decides res \<longleftrightarrow> rr_outcome res \<noteq> None"

lemma over_step:
  assumes "battle_over r"
  shows "snd (room_step r c) = r" "rr_status (fst (room_step r c)) = WrongPhase" "\<not> decides (fst (room_step r c))"
  using assms
  by (cases "fst c"; auto simp: room_step_def room_handle_def battle_over_def handleJoin_def handleLeave_def
      handleStart_def canStartBattle_def handleUseSkill_def handleSetMoveIntent_def handleDeadline_def handleTick_def
      decides_def)+

lemma failBattle_over: "battle_over (snd (failBattle r s p reason))"
  by (simp add: failBattle_def takeDigest_def Let_def battle_over_def)

lemma clearBattle_over: "battle_over (snd (clearBattle r p))"
  by (simp add: clearBattle_def takeDigest_def Let_def battle_over_def)

lemma finishSkillUse_undecided: "\<not> decides (fst (finishSkillUse r p))"
  by (simp add: finishSkillUse_def takeDigest_def Let_def decides_def)

lemma undecided_base [simp]: "\<not> decides (baseResult r s p)"
  by (simp add: decides_def)

lemma cast_decides: "decides (fst (cast_skill r ctx b)) \<Longrightarrow> battle_over (snd (cast_skill r ctx b))"
  using clearBattle_over finishSkillUse_undecided
  by (auto simp: cast_skill_def applyAreaAttack_def spawnHomingProjectile_def Let_def
      split: attack_behavior.splits option.splits if_splits)

lemma handleUseSkill_decides:
  "decides (fst (handleUseSkill r p s q t)) \<Longrightarrow> battle_over (snd (handleUseSkill r p s q t))"
  using cast_decides failBattle_over by (auto simp: handleUseSkill_def Let_def split: if_splits option.splits)

lemma handleTick_decides:
  "decides (fst (handleTick r t)) \<Longrightarrow> battle_over (snd (handleTick r t))"
  using failBattle_over clearBattle_over
  by (auto simp: handleTick_def Let_def decides_def split: if_splits prod.splits)

lemma handleLeave_decides:
  "decides (fst (handleLeave r p)) \<Longrightarrow> battle_over (snd (handleLeave r p))"
  using failBattle_over
  by (auto simp: handleLeave_def Let_def decides_def split: if_splits prod.splits option.splits)

lemma decides_over: "decides (fst (room_step r c)) \<Longrightarrow> battle_over (snd (room_step r c))"
  using handleUseSkill_decides handleTick_decides handleLeave_decides failBattle_over
  by (cases "fst c") (auto simp: room_step_def room_handle_def handleJoin_def handleStart_def handleDeadline_def
      handleSetMoveIntent_def Let_def decides_def split: if_splits prod.splits option.splits)

interpretation battle: absorbing_machine room_step "\<lambda>_. True" room_inv battle_over decides
  by unfold_locales (simp_all add: room_step_inv over_step decides_over)

section \<open>Results along a run\<close>

lemma run_results:
  assumes "room_inv r" and "res \<in> set (fst (run room_step r cs))"
  obtains s s' where "room_inv s" "good_step s res s'" "config s = config r"
  using assms
proof (induction cs arbitrary: r thesis)
  case (Cons c cs)
  have g: "good_step r (fst (room_step r c)) (snd (room_step r c))"
    using room_step_good [OF Cons.prems(2)] by simp
  then have inv: "room_inv (snd (room_step r c))" and cfg: "config (snd (room_step r c)) = config r"
    by (simp_all add: good_step_def)
  show ?case
  proof (cases "res = fst (room_step r c)")
    case True
    with g Cons.prems show ?thesis by blast
  next
    case False
    then have mem: "res \<in> set (fst (run room_step (snd (room_step r c)) cs))" using Cons.prems(3) by simp
    show ?thesis
    proof (rule Cons.IH [OF _ inv mem])
      fix s s'
      assume "room_inv s" "good_step s res s'" "config s = config (snd (room_step r c))"
      then show thesis using Cons.prems(1) cfg by simp
    qed
  qed
qed simp

lemma run_config: "room_inv r \<Longrightarrow> config (snd (run room_step r cs)) = config r"
proof (induction cs arbitrary: r)
  case (Cons c cs)
  have "good_step r (fst (room_step r c)) (snd (room_step r c))"
    using room_step_good [OF Cons.prems] by simp
  then show ?case using Cons.IH [of "snd (room_step r c)"] by (simp add: good_step_def)
qed simp

lemma enemies_made_total:
  assumes c: "config_ok (config r)" and "spawned_wave_count r \<le> wave_count (config r)"
  shows "enemies_made r \<le> unat (total_enemies (config r))"
proof -
  let ?w = "wave_count (config r)" and ?m = "minions_per_wave (config r)"
  have "unat ?w * unat ?m + 1 < 18446744073709551616" using config_enemies [OF c] by linarith
  then have "unat (total_enemies (config r)) = unat ?w * unat ?m + 1"
    by (simp add: total_enemies_def unat_add_small unat_mult_small)
  moreover have "unat (spawned_wave_count r) * unat ?m \<le> unat ?w * unat ?m"
    using assms(2) by (intro mult_le_mono1) (simp add: word_le_nat_alt)
  ultimately show ?thesis unfolding enemies_made_def by (cases "boss_spawned r") (simp_all only: if_True if_False)
qed

lemma concat_one:
  assumes "length (filter P xs) \<le> 1" and "\<And>x. x \<in> set xs \<Longrightarrow> \<not> P x \<Longrightarrow> f x = []"
  obtains "concat (map f xs) = []" | x where "x \<in> set xs" "concat (map f xs) = f x"
  using assms
proof (induction xs arbitrary: thesis)
  case (Cons x xs)
  show ?case
  proof (cases "P x")
    case True
    then have "filter P xs = []" using Cons.prems(3) by simp
    then have "concat (map f xs) = []" using Cons.prems(4) by (auto simp: filter_empty_conv)
    then show ?thesis using Cons.prems(2) [of x] by simp
  next
    case False
    then have fx: "f x = []" using Cons.prems(4) by simp
    show ?thesis
    proof (rule Cons.IH)
      show "length (filter P xs) \<le> 1" using Cons.prems(3) False by simp
    qed (use fx Cons.prems in auto)
  qed
qed simp

definition digests :: "room_result list \<Rightarrow> battle_digest list" where
  "digests results = concat (map (\<lambda>res. case rr_digest res of None \<Rightarrow> [] | Some d \<Rightarrow> [d]) results)"

lemma digests_Cons:
  "digests (res # results) = (case rr_digest res of None \<Rightarrow> [] | Some d \<Rightarrow> [d]) @ digests results"
  by (simp add: digests_def)

lemma digests_numbered:
  assumes "room_inv r"
  shows "map digest_sequence (digests (fst (run room_step r cs))) =
    map (\<lambda>k. digest_counter r + of_nat k) [1 ..< Suc (length (digests (fst (run room_step r cs))))]"
  using assms
proof (induction cs arbitrary: r)
  case (Cons c cs)
  let ?r = "snd (room_step r c)" and ?res = "fst (room_step r c)"
  have g: "good_step r ?res ?r" using room_step_good [OF Cons.prems] by simp
  then have inv: "room_inv ?r" by (simp add: good_step_def)
  note IH = Cons.IH [OF inv]
  show ?case
  proof (cases "rr_digest ?res")
    case None
    then have "digest_counter ?r = digest_counter r" using g by (simp add: good_step_def digest_ok_def)
    then show ?thesis using IH None by (simp add: digests_Cons)
  next
    case (Some d)
    then have d: "digest_sequence d = digest_counter r + 1" "digest_counter ?r = digest_counter r + 1"
      using g by (simp_all add: good_step_def digest_ok_def)
    let ?n = "length (digests (fst (run room_step ?r cs)))"
    have "map (\<lambda>k. digest_counter r + of_nat k) [1 ..< Suc (Suc ?n)] =
        (digest_counter r + 1) # map (\<lambda>k. digest_counter ?r + of_nat k) [1 ..< Suc ?n]"
      by (subst upt_conv_Cons) (simp_all add: d(2) map_Suc_upt [symmetric] add.commute add.left_commute del: upt_Suc)
    then show ?thesis using IH Some d(1) by (simp add: digests_Cons del: upt_Suc)
  qed
qed (simp add: digests_def)
lemma grants_of_step:
  assumes "room_inv s" and "good_step s res s'"
  shows "distinct (map grant_player (rr_grants res))"
    "g \<in> set (rr_grants res) \<Longrightarrow> grant_experience g = clear_experience (config s)"
    "\<not> decides res \<Longrightarrow> rr_grants res = []"
proof -
  have "distinct (map pa_player_id (participants s'))"
    using assms(2) room_inv_roster roster_okD(1) key_sorted_distinct unfolding good_step_def by blast
  then have "distinct (map grant_player (rewardClear s'))" by (simp add: rewardClear_def comp_def)
  then show "distinct (map grant_player (rr_grants res))"
    "g \<in> set (rr_grants res) \<Longrightarrow> grant_experience g = clear_experience (config s)"
    using assms(2)
    by (auto simp: good_step_def outcome_ok_def rewardClear_def split: option.splits battle_outcome.splits)
  show "\<not> decides res \<Longrightarrow> rr_grants res = []"
    using assms(2) by (simp add: good_step_def outcome_ok_def decides_def)
qed

section \<open>The nearest target\<close>

definition nearer :: "arena_position \<Rightarrow> participant \<Rightarrow> participant \<Rightarrow> bool" where
  "nearer origin p q \<longleftrightarrow>
     squaredDistance origin (pa_position p) < squaredDistance origin (pa_position q) \<or>
     squaredDistance origin (pa_position p) = squaredDistance origin (pa_position q) \<and>
       pa_player_id p \<le> pa_player_id q"

lemma nearest_scan_best:
  assumes "nearest_scan P d k i cs b D = Some (j, x)" and "\<And>m n. b = Some (m, n) \<Longrightarrow> D = d n"
    and "y \<in> set cs \<and> P y \<or> (\<exists>m. b = Some (m, y))"
  shows "d x < d y \<or> d x = d y \<and> k x \<le> k y"
  using assms
proof (induction cs arbitrary: i b D y)
  case (Cons c cs)
  show ?case
  proof (cases "P c \<and> (case b of None \<Rightarrow> True | Some (_, n) \<Rightarrow> d c < D \<or> d c = D \<and> k c < k n)")
    case True
    then have s: "nearest_scan P d k (Suc i) cs (Some (i, c)) (d c) = Some (j, x)"
      using Cons.prems(1) by (simp add: Let_def)
    have best: "d x < d z \<or> d x = d z \<and> k x \<le> k z" if "z \<in> set cs \<and> P z \<or> z = c" for z
      using Cons.IH [OF s, of z] that by auto
    consider "y = c" | "y \<in> set cs \<and> P y" | m where "b = Some (m, y)" using Cons.prems(3) by auto
    then show ?thesis
    proof cases
      case 3
      then have "d c < d y \<or> d c = d y \<and> k c < k y" using True Cons.prems(2) by auto
      then show ?thesis using best [of c] by auto
    qed (use best in auto)
  next
    case False
    then have s: "nearest_scan P d k (Suc i) cs b D = Some (j, x)"
      using Cons.prems(1) by (auto simp: Let_def split: if_splits)
    have best: "d x < d z \<or> d x = d z \<and> k x \<le> k z" if "z \<in> set cs \<and> P z \<or> (\<exists>m. b = Some (m, z))" for z
      using Cons.IH [OF s Cons.prems(2) that] .
    show ?thesis
    proof (cases "y = c \<and> P c")
      case True
      then obtain m n where b: "b = Some (m, n)" "\<not> (d c < d n \<or> d c = d n \<and> k c < k n)"
        using False Cons.prems(2) by (cases b) auto
      then show ?thesis using best [of n] True by auto
    next
      case False
      then show ?thesis using best [of y] Cons.prems(3) by auto
    qed
  qed
qed auto

section \<open>Properties over whole runs\<close>

definition duel_config :: room_config where
  "duel_config = default_room_config\<lparr>wave_count := 1, minions_per_wave := 2, boss_spawn_after := 1000,
     arena_width := 20, arena_height := 20, minion_spawn_radius := 5\<rparr>"

definition duel_room :: room where
  "duel_room = projr (make_room 1 duel_config)"

definition duel_commands :: "(room_command \<times> time_point) list" where
  "duel_commands =
     [(JoinRoom 7 \<lparr>stat_attack = 600, stat_health = 100\<rparr> SLASH_SKILL_ID, 0), (StartBattle, 0),
      (RoomSimulationTick, 1000000000), (UseSkill 7 SLASH_SKILL_ID 1, 1100000000)]"

lemma duel_room_made: "make_room 1 duel_config = Inr duel_room"
  unfolding duel_room_def by code_simp

lemma duel_digests: "length (digests (fst (run room_step duel_room duel_commands))) = 3"
  by code_simp

text \<open>
  C1: Every state a room reaches from a successful construction, under any sequence of timed
  commands, satisfies the room invariant: the roster is sorted by player, without duplicates and
  within its capacity; every participant, enemy and projectile is inside the arena; nobody has
  more health than they started with; enemy and projectile identifiers are unique; the number of
  projectiles and of pending events stays below the configured limits; the wave schedule is kept;
  and outside a running battle there are no projectiles and no pending events.
\<close>

theorem room_invariant_run:
  assumes "make_room room c = Inr r"
  shows "room_inv (snd (run room_step r cs))"
  by (rule battle.run_inv [OF make_room_inv(1) [OF assms]]) (simp add: list_all_iff)

theorem room_invariant_run_witness:
  "room_inv (snd (run room_step duel_room duel_commands)) \<and>
   phase (snd (run room_step duel_room duel_commands)) = Cleared"
  by (rule conjI, rule room_invariant_run [OF duel_room_made], code_simp)

text \<open>
  C2: A battle is decided at most once. Over any run of commands from any room at most one
  result carries an outcome; and once the room is cleared or failed no command changes it, every
  one is answered \<open>WrongPhase\<close> and none carries an outcome.
\<close>

theorem battle_decided_once:
  "length (filter (\<lambda>res. rr_outcome res \<noteq> None) (fst (run room_step r cs))) \<le> 1 \<and>
   (phase r = Cleared \<or> phase r = Failed \<longrightarrow>
      snd (run room_step r cs) = r \<and>
      list_all (\<lambda>res. rr_status res = WrongPhase \<and> rr_outcome res = None) (fst (run room_step r cs)))"
proof (intro conjI impI)
  show "length (filter (\<lambda>res. rr_outcome res \<noteq> None) (fst (run room_step r cs))) \<le> 1"
    using battle.at_most_one_effect [of r cs] by (simp only: decides_def [abs_def])
  assume "phase r = Cleared \<or> phase r = Failed"
  then have over: "battle_over r" by (simp add: battle_over_def)
  then show "snd (run room_step r cs) = r" using battle.run_final by blast
  show "list_all (\<lambda>res. rr_status res = WrongPhase \<and> rr_outcome res = None) (fst (run room_step r cs))"
    by (induction cs) (use over_step [OF over] in \<open>simp_all add: decides_def\<close>)
qed

theorem battle_decided_once_witness:
  "list_all (\<lambda>res. rr_status res = WrongPhase \<and> rr_outcome res = None)
     (fst (run room_step (duel_room\<lparr>phase := Cleared\<rparr>) duel_commands))"
  using battle_decided_once [of "duel_room\<lparr>phase := Cleared\<rparr>" duel_commands] by simp

text \<open>
  C3: Rewards are granted once. Over any run of a constructed room, no player receives two
  experience grants, and every grant carries exactly the configured clear experience.
\<close>

theorem rewards_granted_once:
  assumes made: "make_room room c = Inr r"
  shows "distinct (map grant_player (concat (map rr_grants (fst (run room_step r cs))))) \<and>
    list_all (\<lambda>g. grant_experience g = clear_experience c) (concat (map rr_grants (fst (run room_step r cs))))"
proof -
  note M = make_room_inv [OF made]
  have each: "distinct (map grant_player (rr_grants res)) \<and>
      (\<forall>g \<in> set (rr_grants res). grant_experience g = clear_experience c) \<and> (\<not> decides res \<longrightarrow> rr_grants res = [])"
    if "res \<in> set (fst (run room_step r cs))" for res
  proof -
    from run_results [OF M(1) that] obtain s s' where "room_inv s" "good_step s res s'" "config s = config r" .
    then show ?thesis using grants_of_step [of s res s'] M(2) by auto
  qed
  consider "concat (map rr_grants (fst (run room_step r cs))) = []"
    | res where "res \<in> set (fst (run room_step r cs))" "concat (map rr_grants (fst (run room_step r cs))) = rr_grants res"
    using concat_one [OF battle.at_most_one_effect [of r cs], of rr_grants] each by blast
  then show ?thesis
  proof cases
    case 1
    then show ?thesis by (simp only: list.map distinct.simps list.pred_inject simp_thms)
  next
    case (2 res)
    then show ?thesis using each [OF 2(1)] by (simp only: list_all_iff) blast
  qed
qed

theorem rewards_granted_once_witness:
  "distinct (map grant_player (concat (map rr_grants (fst (run room_step duel_room duel_commands))))) \<and>
   concat (map rr_grants (fst (run room_step duel_room duel_commands))) =
     [\<lparr>grant_player = 7, grant_experience = 300\<rparr>]"
  by (rule conjI, rule rewards_granted_once [OF duel_room_made, THEN conjunct1], code_simp)

text \<open>
  C4: The digests a room publishes are numbered consecutively from one, in the order of
  publication (modulo the width of the counter); none is empty and none holds more events than
  the capacity the constructor reserves for them.
\<close>

theorem digests_consecutive:
  assumes made: "make_room room c = Inr r"
  shows "map digest_sequence (digests (fst (run room_step r cs))) =
      map of_nat [1 ..< Suc (length (digests (fst (run room_step r cs))))] \<and>
    list_all (\<lambda>d. digest_events d \<noteq> [] \<and> length (digest_events d) \<le> unat (event_reserve c))
      (digests (fst (run room_step r cs)))"
proof
  note M = make_room_inv [OF made]
  show "map digest_sequence (digests (fst (run room_step r cs))) =
      map of_nat [1 ..< Suc (length (digests (fst (run room_step r cs))))]"
    using digests_numbered [OF M(1), of cs] M(3) by simp
  have "digest_events d \<noteq> [] \<and> length (digest_events d) \<le> unat (event_reserve c)"
    if d: "d \<in> set (digests (fst (run room_step r cs)))" for d
  proof -
    obtain res where res: "res \<in> set (fst (run room_step r cs))" "rr_digest res = Some d"
      using d by (auto simp: digests_def split: option.splits)
    from run_results [OF M(1) res(1)] obtain s s' where "good_step s res s'" "config s = config r" .
    then show ?thesis using res(2) M(2) by (simp add: good_step_def digest_ok_def)
  qed
  then show "list_all (\<lambda>d. digest_events d \<noteq> [] \<and> length (digest_events d) \<le> unat (event_reserve c))
      (digests (fst (run room_step r cs)))" by (simp add: list_all_iff)
qed

theorem digests_consecutive_witness:
  "list_all (\<lambda>d. digest_events d \<noteq> [] \<and> length (digest_events d) \<le> unat (event_reserve duel_config))
     (digests (fst (run room_step duel_room duel_commands))) \<and>
   map digest_sequence (digests (fst (run room_step duel_room duel_commands))) = [1, 2, 3]"
  by (rule conjI, rule digests_consecutive [OF duel_room_made, THEN conjunct2], code_simp)

text \<open>
  C6: The boss comes after the waves. In every state a constructed room reaches, a spawned boss
  implies that all configured waves have spawned; at most one enemy is a boss; while the battle
  runs a spawned boss is alive; enemy identifiers are unique; and there are never more enemies
  than the total the constructor computes.
\<close>

theorem boss_after_all_waves:
  assumes made: "make_room room c = Inr r" and s: "s = snd (run room_step r cs)"
  shows "(boss_spawned s \<longrightarrow> spawned_wave_count s = wave_count c) \<and>
    length (filter (\<lambda>e. en_kind e = Boss) (enemies s)) \<le> 1 \<and>
    (phase s = Running \<longrightarrow> boss_spawned s = (\<exists>e \<in> set (enemies s). en_kind e = Boss \<and> en_health e \<noteq> 0)) \<and>
    distinct (map en_id (enemies s)) \<and> length (enemies s) \<le> unat (total_enemies c)"
proof (cases "phase s = Waiting")
  case True
  have "room_inv s" unfolding s by (rule battle.run_inv [OF make_room_inv(1) [OF made]]) (simp add: list_all_iff)
  then show ?thesis using True by (simp add: room_inv_def)
next
  case False
  have inv: "room_inv s" unfolding s by (rule battle.run_inv [OF make_room_inv(1) [OF made]]) (simp add: list_all_iff)
  then have ok: "battle_ok s" using False by (auto simp: room_inv_def split: room_phase.splits)
  have cfg: "config s = c" unfolding s using run_config [OF make_room_inv(1) [OF made]] make_room_inv(2) [OF made] by simp
  note B = battle_okD [OF ok]
  have bosses: "length (filter (\<lambda>e. en_kind e = Boss) (enemies s)) \<le> (if boss_spawned s then 1 else 0)"
    using B(3) by (simp add: horde_ok_def count_list_eq_length_filter filter_map comp_def eq_commute [of Boss])
  have "boss_spawned s = (\<exists>e \<in> set (enemies s). en_kind e = Boss \<and> en_health e \<noteq> 0)" if "phase s = Running"
    using running_okD(2) [OF inv that] bosses
    by (auto simp: boss_alive_def filter_empty_conv split: if_splits)
  moreover have "length (enemies s) \<le> unat (total_enemies c)"
    using horde_okD(2,3) [OF B(3)] enemies_made_total [OF B(1) horde_okD(3) [OF B(3)]] cfg by simp
  moreover have "distinct (map en_id (enemies s))" using B(3) key_sorted_distinct by (auto simp: horde_ok_def)
  ultimately show ?thesis using B(5) cfg bosses by (auto simp: schedule_ok_def split: if_splits)
qed

theorem boss_after_all_waves_witness:
  "boss_spawned (snd (run room_step duel_room (take 3 duel_commands))) \<and>
   spawned_wave_count (snd (run room_step duel_room (take 3 duel_commands))) = wave_count duel_config"
proof -
  have "boss_spawned (snd (run room_step duel_room (take 3 duel_commands)))" by code_simp
  then show ?thesis using boss_after_all_waves [OF duel_room_made refl, of "take 3 duel_commands"] by blast
qed

section \<open>Properties of single commands\<close>

text \<open>
  C8: An enemy attacks the nearest living participant. The search returns nothing exactly when
  nobody is alive; otherwise it returns a living participant such that every living participant
  is farther away, or as far and with an identifier that is not smaller.
\<close>

theorem nearest_target_correct:
  "(nearestLivingParticipant ps origin = None \<longleftrightarrow> (\<forall>p \<in> set ps. current_health p = 0)) \<and>
   (\<forall>i. nearestLivingParticipant ps origin = Some i \<longrightarrow>
      i < length ps \<and> current_health (ps ! i) \<noteq> 0 \<and>
      (\<forall>q \<in> set ps. current_health q \<noteq> 0 \<longrightarrow> nearer origin (ps ! i) q))"
proof (intro conjI allI impI ballI)
  show "nearestLivingParticipant ps origin = None \<longleftrightarrow> (\<forall>p \<in> set ps. current_health p = 0)"
    by (simp add: nearestLivingParticipant_def nearest_scan_None)
  fix i assume i: "nearestLivingParticipant ps origin = Some i"
  then show "i < length ps" "current_health (ps ! i) \<noteq> 0" by (rule nearestLivingParticipant_Some)+
  fix q assume q: "q \<in> set ps" "current_health q \<noteq> 0"
  obtain x where x: "nearest_scan (\<lambda>p. current_health p \<noteq> 0) (\<lambda>p. squaredDistance origin (pa_position p))
      pa_player_id 0 ps None UINT64_MAX = Some (i, x)"
    using i by (auto simp: nearestLivingParticipant_def)
  have "x = ps ! i" using nearest_scan_found [OF x] by simp
  then show "nearer origin (ps ! i) q" using nearest_scan_best [OF x, of q] q by (simp add: nearer_def)
qed

definition pair_of_fighters :: "participant list" where
  "pair_of_fighters =
     [new_participant 3 \<lparr>stat_attack = 10, stat_health = 50\<rparr> SLASH_SKILL_ID,
      (new_participant 5 \<lparr>stat_attack = 10, stat_health = 50\<rparr> SLASH_SKILL_ID)\<lparr>pa_position := \<lparr>pos_x = 4, pos_y = 4\<rparr>\<rparr>]"

theorem nearest_target_correct_witness:
  "nearestLivingParticipant pair_of_fighters \<lparr>pos_x = 5, pos_y = 5\<rparr> = Some 1 \<and>
   nearer \<lparr>pos_x = 5, pos_y = 5\<rparr> (pair_of_fighters ! 1) (pair_of_fighters ! 0)"
proof -
  have n: "nearestLivingParticipant pair_of_fighters \<lparr>pos_x = 5, pos_y = 5\<rparr> = Some 1" by code_simp
  have "current_health (pair_of_fighters ! 0) \<noteq> 0" by code_simp
  moreover have "pair_of_fighters ! 0 \<in> set pair_of_fighters" by (simp add: pair_of_fighters_def)
  ultimately show ?thesis
    using n nearest_target_correct [of pair_of_fighters "\<lparr>pos_x = 5, pos_y = 5\<rparr>"] by blast
qed

text \<open>The commands whose handlers compare the time they are observed at with the battle's deadline.\<close>

primrec checks_deadline :: "room_command \<Rightarrow> bool" where
  "checks_deadline (JoinRoom p st sk) \<longleftrightarrow> False"
| "checks_deadline (LeaveRoom p) \<longleftrightarrow> False"
| "checks_deadline StartBattle \<longleftrightarrow> False"
| "checks_deadline (UseSkill p sk q) \<longleftrightarrow> True"
| "checks_deadline BattleDeadline \<longleftrightarrow> True"
| "checks_deadline RoomSimulationTick \<longleftrightarrow> True"
| "checks_deadline (SetMoveIntent p d q) \<longleftrightarrow> True"

lemma deadline_checked:
  assumes "phase r = Running" and "battle_deadline_at r \<le> t" and "checks_deadline c"
    and "room_handle r c t = (res, r')"
  shows "phase r' = Failed \<and> rr_outcome res = Some BattleLost \<and> rr_failure_reason res = Some Deadline \<and>
    rr_grants res = [] \<and> projectiles r' = [] \<and> pending_events r' = [] \<and>
    rr_digest res = (if pending_events r = [] then None
      else Some \<lparr>digest_sequence = digest_counter r + 1, digest_events = pending_events r\<rparr>) \<and>
    rr_audience res = map pa_player_id (participants r)"
  using assms
  by (cases c) (auto simp: room_handle_def handleDeadline_def handleTick_def handleUseSkill_def handleSetMoveIntent_def
      failBattle_def takeDigest_def Let_def audience_def split: if_splits)

lemma deadline_unchecked:
  assumes "phase r = Running" and "\<not> checks_deadline c" and "room_handle r c t = (res, r')"
  shows "rr_failure_reason res \<noteq> Some Deadline \<and> battle_deadline_at r' = battle_deadline_at r \<and>
    (phase r' = Running \<or> phase r' = Failed \<and> rr_failure_reason res = Some ParticipantsDefeated)"
proof (cases c)
  case (LeaveRoom p)
  then show ?thesis
    using assms by (auto simp: room_handle_def handleLeave_def failBattle_def takeDigest_def baseResult_def Let_def
        split: option.splits if_splits)
qed (use assms in \<open>auto simp: room_handle_def handleJoin_def handleStart_def canStartBattle_def baseResult_def\<close>)

text \<open>
  C9: The deadline of a running battle, command by command. A skill use, a move intent, a simulation tick or
  the deadline command itself, observed at or after the deadline, fails the battle with the reason
  \<open>Deadline\<close>: it grants nothing, discards the projectiles and publishes the pending events. The other commands,
  joining, leaving and starting, do not look at the deadline: they leave it as it is and the battle runs on,
  unless a leave left only the dead and failed it for that reason.
\<close>

theorem deadline_fails_battle:
  assumes "phase r = Running" and "battle_deadline_at r \<le> t" and "room_handle r c t = (res, r')"
  shows "if checks_deadline c
    then phase r' = Failed \<and> rr_outcome res = Some BattleLost \<and> rr_failure_reason res = Some Deadline \<and>
      rr_grants res = [] \<and> projectiles r' = [] \<and> pending_events r' = [] \<and>
      rr_digest res = (if pending_events r = [] then None
        else Some \<lparr>digest_sequence = digest_counter r + 1, digest_events = pending_events r\<rparr>) \<and>
      rr_audience res = map pa_player_id (participants r)
    else rr_failure_reason res \<noteq> Some Deadline \<and> battle_deadline_at r' = battle_deadline_at r \<and>
      (phase r' = Running \<or> phase r' = Failed \<and> rr_failure_reason res = Some ParticipantsDefeated)"
  using deadline_checked [OF assms(1,2) _ assms(3)] deadline_unchecked [OF assms(1) _ assms(3)] by simp

theorem deadline_fails_battle_witness:
  "phase (snd (room_handle (snd (run room_step duel_room (take 2 duel_commands))) RoomSimulationTick 90000000000)) = Failed"
proof -
  let ?r = "snd (run room_step duel_room (take 2 duel_commands))"
  have "phase ?r = Running" "battle_deadline_at ?r \<le> 90000000000" by code_simp+
  from deadline_fails_battle [OF this, of RoomSimulationTick, OF prod.collapse [symmetric]] show ?thesis by simp
qed

lemma finishSkillUse_keeps:
  "enemies (snd (finishSkillUse r p)) = enemies r" "participants (snd (finishSkillUse r p)) = participants r"
  by (simp_all add: finishSkillUse_def takeDigest_def Let_def)

lemma clearBattle_keeps:
  "enemies (snd (clearBattle r p)) = enemies r" "participants (snd (clearBattle r p)) = participants r"
  by (simp_all add: clearBattle_def takeDigest_def Let_def)

lemma applyAreaAttack_enemies:
  assumes "cast_index ctx < length (participants r)"
  shows "enemies (snd (applyAreaAttack r ctx rng)) = enemies (area_result r ctx rng)"
    "participants (snd (applyAreaAttack r ctx rng)) = participants (commitSkillUse r ctx)"
  using assms
  by (simp_all add: applyAreaAttack_def area_result_def Let_def finishSkillUse_keeps clearBattle_keeps
      commitSkillUse_position)

lemma area_hit_position: "en_position (fst (area_hit a s n o' g e)) = en_position e"
  by (simp add: area_hit_def damage_enemy_def Let_def)

lemma locate_unique:
  assumes "key_sorted key xs" and "i < length xs" and "key (xs ! i) = k"
  shows "locate key xs k = Some i"
proof (cases "locate key xs k")
  case None
  then show ?thesis using locate_None [OF assms(1), of k] assms(2,3) nth_mem by force
next
  case (Some j)
  then have "key (xs ! j) = key (xs ! i)" "j < length xs" using locate_Some(1,2) [OF Some] assms(3) by simp_all
  then show ?thesis
    using Some nth_eq_iff_index_eq [OF key_sorted_distinct [OF assms(1)], of j i] assms(2) by simp
qed

lemma track_cooldown_ready:
  assumes "key_sorted cd_skill_id (cooldowns p)"
  shows "on_cooldown (p\<lparr>cooldowns := track_cooldown (cooldowns p) skill ready, applied_skill_sequence := q\<rparr>) skill t
    \<longleftrightarrow> t < ready"
proof -
  let ?cds = "track_cooldown (cooldowns p) skill ready" and ?new = "\<lparr>cd_skill_id = skill, cd_ready_at = ready\<rparr>"
  have sorted: "key_sorted cd_skill_id ?cds" using assms by (rule track_cooldown_sorted)
  have "?new \<in> set ?cds"
  proof (cases "locate cd_skill_id (cooldowns p) skill")
    case (Some i)
    then have "(cooldowns p ! i)\<lparr>cd_ready_at := ready\<rparr> = ?new" and len: "i < length (cooldowns p)"
      using locate_Some(1,2) [OF Some] by simp_all
    then show ?thesis using Some set_update_memI [OF len, of ?new] by (simp add: track_cooldown_def)
  qed (simp add: track_cooldown_def set_vec_insert)
  then obtain i where "i < length ?cds" "?cds ! i = ?new" by (auto simp: in_set_conv_nth)
  then have "locate cd_skill_id ?cds skill = Some i" "?cds ! i = ?new"
    using locate_unique [OF sorted, of i skill] by simp_all
  then show ?thesis by (simp add: on_cooldown_def)
qed

text \<open>
  C7: An area attack damages exactly the living enemies in range. When the caster's slash is
  accepted, every enemy keeps its place, identity and kind; the health of a living enemy within
  the skill's range of the caster drops by the skill damage, stopping at zero; every other enemy
  keeps its health. The caster's request sequence and cooldown are recorded.
\<close>

theorem area_attack_exact:
  assumes "room_inv r" and "handleUseSkill r player SLASH_SKILL_ID q t = (res, r')"
    and "rr_status res = Applied" and "findParticipant r player = Some i"
  defines "caster \<equiv> participants r ! i"
  shows "list_all2 (\<lambda>e e'. en_id e' = en_id e \<and> en_kind e' = en_kind e \<and> en_position e' = en_position e \<and>
      unat (en_health e') = (if isWithinRange (pa_position caster) (en_position e) SLASH_RANGE
        then unat (en_health e) - unat (calculateSkillDamage makeSlash (stat_attack (pa_stats caster)))
        else unat (en_health e))) (enemies r) (enemies r') \<and>
    applied_skill_sequence (participants r' ! i) = q \<and>
    on_cooldown (participants r' ! i) SLASH_SKILL_ID (after_ms t SLASH_COOLDOWN - 1) \<and>
    \<not> on_cooldown (participants r' ! i) SLASH_SKILL_ID (after_ms t SLASH_COOLDOWN)"
  using assms(2)
proof (cases rule: handleUseSkill_cases)
  case (cast j d ctx)
  have ji: "j = i" using cast(3) assms(4) by simp
  have len: "i < length (participants r)" by (rule findParticipant_Some(1) [OF assms(4)])
  have d: "d = makeSlash" using cast(6) by (simp add: findSkill_def)
  have ci: "cast_index ctx = i" and ctx: "cast_skill_id ctx = SLASH_SKILL_ID" "cast_sequence ctx = q" "cast_at ctx = t"
    "cast_cooldown ctx = SLASH_COOLDOWN"
    "cast_damage ctx = calculateSkillDamage makeSlash (stat_attack (pa_stats caster))"
    using cast(9) ji d by (simp_all add: makeSlash_def caster_def)
  have app: "applyAreaAttack r ctx SLASH_RANGE = (res, r')"
    using cast(10) d by (simp add: cast_skill_def makeSlash_def)
  note E = applyAreaAttack_enemies [of ctx r SLASH_RANGE, unfolded ci app snd_conv, OF len]
  have sorted: "key_sorted cd_skill_id (cooldowns caster)"
    using roster_okD(3) [OF room_inv_roster [OF assms(1)] nth_mem [OF len]]
    by (simp add: participant_ok_def caster_def)
  have ps: "participants r' ! i = caster\<lparr>cooldowns := track_cooldown (cooldowns caster) SLASH_SKILL_ID
      (after_ms t SLASH_COOLDOWN), applied_skill_sequence := q\<rparr>"
    using len by (simp add: E(2) commitSkillUse_def Let_def ci ctx caster_def)
  have "list_all2 (\<lambda>e e'. en_id e' = en_id e \<and> en_kind e' = en_kind e \<and> en_position e' = en_position e \<and>
      unat (en_health e') = (if isWithinRange (pa_position caster) (en_position e) SLASH_RANGE
        then unat (en_health e) - unat (cast_damage ctx) else unat (en_health e))) (enemies r) (enemies r')"
    by (auto simp: E(1) area_result_def Let_def ci caster_def list_all2_conv_all_nth area_hit_ok area_hit_position
        in_area_def)
  then show ?thesis unfolding ctx(5) using ps track_cooldown_ready [OF sorted] by simp
qed (use assms(3) in \<open>auto simp: failBattle_def takeDigest_def Let_def split: if_splits\<close>)

theorem area_attack_exact_witness:
  "map en_health (enemies (snd (run room_step duel_room (take 3 duel_commands)))) = [60, 60, 500] \<and>
   map en_health (enemies (snd (run room_step duel_room duel_commands))) = [0, 0, 0] \<and>
   list_all2 (\<lambda>e e'. en_id e' = en_id e) (enemies (snd (run room_step duel_room (take 3 duel_commands))))
     (enemies (snd (run room_step duel_room duel_commands)))"
proof -
  let ?r = "snd (run room_step duel_room (take 3 duel_commands))"
  let ?u = "handleUseSkill ?r 7 SLASH_SKILL_ID 1 1100000000"
  have inv: "room_inv ?r"
    by (rule battle.run_inv [OF make_room_inv(1) [OF duel_room_made]]) (simp add: list_all_iff)
  have "rr_status (fst ?u) = Applied" "findParticipant ?r 7 = Some 0" by code_simp+
  from area_attack_exact [OF inv prod.collapse [symmetric] this]
  have "list_all2 (\<lambda>e e'. en_id e' = en_id e) (enemies ?r) (enemies (snd ?u))"
    by (auto elim: list_all2_mono)
  moreover have "snd (run room_step duel_room duel_commands) = snd ?u"
    by (simp add: duel_commands_def room_step_def room_handle_def)
  moreover have "map en_health (enemies ?r) = [60, 60, 500]" "map en_health (enemies (snd ?u)) = [0, 0, 0]"
    by code_simp+
  ultimately show ?thesis by simp
qed

end
