(* ===== verification/Room_Requests.thy ===== *)
theory Room_Requests
  imports Room_Props
begin

text \<open>
  The per-player request sequences of the battle room: which commands change them, and that no
  skill request is applied twice.
\<close>

section \<open>Request sequences\<close>

definition sequences :: "room \<Rightarrow> (player_id \<times> u64) list" where
  "sequences r = map (\<lambda>p. (pa_player_id p, applied_skill_sequence p)) (participants r)"

text \<open>The least sequence a player's next skill use must exceed; a player who is not in a started
  battle can no longer cast.\<close>

definition skill_floor :: "room \<Rightarrow> player_id \<Rightarrow> u64" where
  "skill_floor r player =
     (if phase r = Waiting then 0
      else case map_of (sequences r) player of None \<Rightarrow> UINT64_MAX | Some q \<Rightarrow> q)"

lemma map_of_sequences:
  assumes "roster_ok c (participants r)" and "i < length (participants r)"
  shows "map_of (sequences r) (pa_player_id (participants r ! i)) = Some (applied_skill_sequence (participants r ! i))"
proof -
  have "distinct (map fst (sequences r))"
    using key_sorted_distinct [OF roster_okD(1) [OF assms(1)]] by (simp add: sequences_def comp_def)
  then show ?thesis using assms(2) by (intro map_of_is_SomeI) (auto simp: sequences_def)
qed

lemma sequences_update:
  assumes "pa_player_id p = pa_player_id (ps ! i)" and "applied_skill_sequence p = applied_skill_sequence (ps ! i)"
  shows "map (\<lambda>p. (pa_player_id p, applied_skill_sequence p)) (ps[i := p]) =
    map (\<lambda>p. (pa_player_id p, applied_skill_sequence p)) ps"
  using assms by (cases "i < length ps") (auto simp: nth_list_update list_update_beyond intro!: nth_equalityI)

lemma enemy_strike_sequences:
  assumes "enemy_strike c t e p = (e', p', ev)"
  shows "pa_player_id p' = pa_player_id p" "applied_skill_sequence p' = applied_skill_sequence p"
  using assms by (auto simp: enemy_strike_def Let_def split: if_splits)

lemma act_enemy_sequences:
  assumes act: "act_enemy c t e ps = (e', ps', ev, ret)"
  shows "map (\<lambda>p. (pa_player_id p, applied_skill_sequence p)) ps' =
    map (\<lambda>p. (pa_player_id p, applied_skill_sequence p)) ps"
proof (cases "en_health e = 0 \<or> nearestLivingParticipant ps (en_position e) = None")
  case True
  then show ?thesis using act by (auto simp: act_enemy_def split: if_splits)
next
  case False
  then obtain i where i: "nearestLivingParticipant ps (en_position e) = Some i" by auto
  obtain e1 a where ap: "enemy_approach c e (pa_position (ps ! i)) = (e1, a)" by force
  obtain e2 q s where st: "enemy_strike c t e1 (ps ! i) = (e2, q, s)" by (metis prod_cases3)
  have "ps' = ps \<or> ps' = ps[i := q]"
    using act False i ap st by (auto simp: act_enemy_def Let_def split: if_splits)
  then show ?thesis using sequences_update [OF enemy_strike_sequences [OF st]] by auto
qed

lemma act_enemies_sequences:
  "act_enemies c t es ps = (es', ps', ev, f) \<Longrightarrow>
    map (\<lambda>p. (pa_player_id p, applied_skill_sequence p)) ps' =
    map (\<lambda>p. (pa_player_id p, applied_skill_sequence p)) ps"
  by (induction es arbitrary: ps es' ps' ev f)
    (auto split: prod.splits option.splits dest!: act_enemy_sequences)

lemma sequences_battle [simp]:
  "sequences (snd (failBattle r s p reason)) = sequences r" "sequences (snd (clearBattle r p)) = sequences r"
  "sequences (snd (finishSkillUse r pl)) = sequences r"
  "sequences (moveParticipants r) = sequences r" "sequences (erase_dead r) = sequences r"
  "sequences (snd (advanceProjectiles r t)) = sequences r" "sequences (snd (actEnemies r t)) = sequences r"
  "sequences (snd (takeDigest r)) = sequences r" "sequences (spawn_due_boss r t) = sequences r"
  by (auto simp: sequences_def failBattle_def clearBattle_def finishSkillUse_def takeDigest_def Let_def
      moveParticipants_def move_participant_def advanceProjectiles_def actEnemies_def act_enemies_sequences
      split: prod.splits)

lemma sequences_waves [simp]: "sequences (spawn_due_waves r t) = sequences r"
proof (induction r t rule: spawn_due_waves.induct)
  case (1 r t)
  then show ?case by (subst spawn_due_waves.simps) (simp add: Let_def sequences_def)
qed

lemma sequences_tick: "sequences (snd (handleTick r t)) = sequences r"
proof -
  let ?v = "moveParticipants (erase_dead r)"
  obtain k a where a: "advanceProjectiles ?v t = (k, a)" by force
  obtain f b where b: "actEnemies a t = (f, b)" by force
  let ?s = "spawn_due_boss (spawn_due_waves b t) t"
  have "sequences a = sequences r" using sequences_battle(6) [of ?v t] a by simp
  moreover have "sequences b = sequences a" using sequences_battle(7) [of a t] b by simp
  moreover obtain d m where "takeDigest ?s = (d, m)" by force
  moreover from this have "sequences m = sequences b" using sequences_battle(8) [of ?s] by simp
  ultimately show ?thesis using a b by (simp add: handleTick_def Let_def)
qed

lemma floor_same:
  assumes "sequences r' = sequences r" and "phase r' = Waiting \<longrightarrow> phase r = Waiting"
  shows "skill_floor r player \<le> skill_floor r' player"
  using assms by (auto simp: skill_floor_def)

lemma floor_waiting: "phase r = Waiting \<Longrightarrow> skill_floor r player \<le> x"
  by (simp add: skill_floor_def)

lemma map_of_erase:
  assumes "key_sorted key xs" and "i < length xs" and "k \<noteq> key (xs ! i)"
  shows "map_of (map (\<lambda>x. (key x, f x)) (vec_erase i xs)) k = map_of (map (\<lambda>x. (key x, f x)) xs) k"
proof -
  have "map_of (map (\<lambda>x. (key x, f x)) (take i xs @ xs ! i # drop (Suc i) xs)) k =
      map_of (map (\<lambda>x. (key x, f x)) (take i xs @ drop (Suc i) xs)) k"
    using assms(3) by (simp add: map_add_def split: option.split)
  then show ?thesis by (simp add: vec_erase_def id_take_nth_drop [OF assms(2), symmetric])
qed

lemma takeDigest_keeps:
  "participants (snd (takeDigest r)) = participants r" "phase (snd (takeDigest r)) = phase r"
  by (simp_all add: takeDigest_def)

lemma failBattle_keeps:
  "participants (snd (failBattle r s p reason)) = participants r" "phase (snd (failBattle r s p reason)) = Failed"
  by (simp_all add: failBattle_def takeDigest_def Let_def)

lemma handleLeave_running:
  assumes leave: "handleLeave r p = (res, r')" and run: "phase r = Running" and i: "findParticipant r p = Some i"
  shows "participants r' = vec_erase i (participants r)" "phase r' \<noteq> Waiting"
proof -
  let ?ps = "vec_erase i (participants r)"
  let ?m = "r\<lparr>participants := ?ps, pending_events := pending_events r @ [ParticipantLeft p]\<rparr>"
  have r': "r' = snd (handleLeave r p)" using leave by simp
  have "r' = (if ?ps = [] then r\<lparr>participants := ?ps, pending_events := [], projectiles := []\<rparr>
      else if allParticipantsDead ?ps then snd (failBattle ?m Applied (Some p) ParticipantsDefeated)
      else snd (takeDigest ?m))"
    unfolding r' handleLeave_def using run i by (simp add: Let_def split_beta)
  then show "participants r' = ?ps" "phase r' \<noteq> Waiting"
    using run by (simp_all add: failBattle_keeps takeDigest_keeps split: if_splits)
qed

lemma leave_floor:
  assumes inv: "room_inv r" and leave: "handleLeave r p = (res, r')"
  shows "skill_floor r player \<le> skill_floor r' player"
proof (cases "phase r = Running \<and> findParticipant r p \<noteq> None")
  case True
  then obtain i where i: "findParticipant r p = Some i" by auto
  note F = findParticipant_Some [OF i] and sorted = roster_okD(1) [OF room_inv_roster [OF inv]]
  note L = handleLeave_running [OF leave conjunct1 [OF True] i]
  note ph = L(2)
  show ?thesis
  proof (cases "player = p")
    case True
    have "p \<notin> pa_player_id ` set (vec_erase i (participants r))"
      unfolding set_vec_erase [OF sorted F(1)] F(2) by auto
    then have "map_of (sequences r') p = None" by (simp add: sequences_def L(1) map_of_eq_None_iff image_image)
    then have "skill_floor r' p = UINT64_MAX" using ph by (simp add: skill_floor_def)
    then show ?thesis by (simp add: True)
  next
    case False
    then have "map_of (sequences r') player = map_of (sequences r) player"
      using map_of_erase [OF sorted F(1)] F(2) by (simp add: sequences_def L(1))
    then show ?thesis using ph by (simp add: skill_floor_def)
  qed
next
  case False
  then have "r' = r \<or> phase r = Waiting"
    using leave by (cases "phase r") (auto simp: handleLeave_def)
  then show ?thesis by (auto simp: floor_waiting)
qed

lemma commit_sequences:
  assumes "cast_index ctx < length (participants r)"
  shows "sequences (commitSkillUse r ctx) =
    (sequences r)[cast_index ctx := (pa_player_id (participants r ! cast_index ctx), cast_sequence ctx)]"
  using assms by (simp add: commitSkillUse_def Let_def sequences_def map_update)

lemma cast_sequences:
  assumes i: "cast_index ctx < length (participants r)" and cast: "cast_skill r ctx b = (res, r')"
  shows "r' = r \<and> rr_status res \<noteq> Applied \<or> sequences r' = sequences (commitSkillUse r ctx)"
proof (cases b)
  case (AreaAttackBehavior pc rng)
  then show ?thesis using cast applyAreaAttack_enemies(2) [OF i, of rng]
    by (simp add: cast_skill_def sequences_def)
next
  case (HomingProjectileAttackBehavior pc acq sp hit life)
  let ?o = "pa_position (participants r ! cast_index ctx)" and ?m = "commitSkillUse r ctx"
  have r': "r' = snd (spawnHomingProjectile r ctx acq sp hit life)"
    and res: "res = fst (spawnHomingProjectile r ctx acq sp hit life)"
    using HomingProjectileAttackBehavior cast by (simp_all add: cast_skill_def)
  show ?thesis
  proof (cases "findTargetEnemy r ?o acq")
    case None
    then have "participants r' = participants ?m"
      by (simp add: r' spawnHomingProjectile_def Let_def finishSkillUse_keeps)
    then show ?thesis by (simp add: sequences_def)
  next
    case (Some target)
    then have "r' = r \<and> rr_status res \<noteq> Applied \<or> participants r' = participants ?m"
      by (simp add: r' res spawnHomingProjectile_def Let_def finishSkillUse_keeps)
    then show ?thesis by (auto simp: sequences_def)
  qed
qed

lemma map_of_update_nth:
  assumes "distinct (map fst xs)" and "i < length xs" and "fst (xs ! i) = k"
  shows "map_of (xs[i := (k, v)]) = (map_of xs)(k \<mapsto> v)"
  using assms
proof (induction xs arbitrary: i)
  case (Cons x xs)
  show ?case
  proof (cases i)
    case 0
    then show ?thesis using Cons.prems(3) by (cases x) (auto simp: fun_eq_iff)
  next
    case (Suc j)
    then have "fst x \<noteq> k" using Cons.prems by (auto simp: image_iff)
    then show ?thesis using Suc Cons by (auto simp: fun_eq_iff)
  qed
qed simp

lemma use_skill_floor:
  assumes inv: "room_inv r" and use: "handleUseSkill r p skill q t = (res, r')"
  shows "skill_floor r player \<le> skill_floor r' player"
    and "rr_status res = Applied \<Longrightarrow> skill_floor r p < q \<and> q \<le> skill_floor r' p"
proof -
  have ph: "phase r' = Waiting \<longrightarrow> phase r = Waiting"
    using handleUseSkill_good [OF inv use] by (auto simp: good_step_def outcome_ok_def split: option.splits battle_outcome.splits)
  have "skill_floor r player \<le> skill_floor r' player \<and>
    (rr_status res = Applied \<longrightarrow> skill_floor r p < q \<and> q \<le> skill_floor r' p)"
    using use
  proof (cases rule: handleUseSkill_cases)
    case (refused s)
    then show ?thesis by simp
  next
    case expired
    then have "sequences r' = sequences r"
      using sequences_battle(1) [of r BattleExpired "Some p" Deadline] by simp
    moreover have "rr_status res = BattleExpired"
      using expired(3) by (auto simp: failBattle_def Let_def takeDigest_def split: if_splits)
    ultimately show ?thesis using floor_same ph by simp
  next
    case (cast i d ctx)
    note F = findParticipant_Some [OF cast(3)]
    have ctx: "cast_index ctx = i" "cast_sequence ctx = q" using cast(9) by simp_all
    have old: "map_of (sequences r) p = Some (applied_skill_sequence (participants r ! i))"
      using map_of_sequences [OF room_inv_roster [OF inv] F(1)] F(2) by simp
    from cast_sequences [OF _ cast(10)] F(1) ctx
    consider "r' = r" "rr_status res \<noteq> Applied" | "sequences r' = (sequences r)[i := (p, q)]"
      using commit_sequences [of ctx r] F(2) by auto
    then show ?thesis
    proof cases
      case 2
      have "distinct (map fst (sequences r))" "i < length (sequences r)" "fst (sequences r ! i) = p"
        using key_sorted_distinct [OF roster_okD(1) [OF room_inv_roster [OF inv]]] F
        by (simp_all add: sequences_def comp_def)
      then have new: "map_of (sequences r') = (map_of (sequences r))(p \<mapsto> q)"
        using 2 by (simp add: map_of_update_nth)
      have "phase r' \<noteq> Waiting" using ph cast(1) by auto
      then show ?thesis using cast(1,4) old new by (auto simp: skill_floor_def)
    qed simp
  qed
  then show "skill_floor r player \<le> skill_floor r' player"
    and "rr_status res = Applied \<Longrightarrow> skill_floor r p < q \<and> q \<le> skill_floor r' p" by auto
qed

lemma step_floor:
  assumes inv: "room_inv r" and step: "room_step r c = (res, r')"
  shows "skill_floor r player \<le> skill_floor r' player"
proof -
  have ph: "phase r' = Waiting \<longrightarrow> phase r = Waiting"
    using room_step_good [OF inv step]
    by (auto simp: good_step_def outcome_ok_def split: option.splits battle_outcome.splits)
  have r': "r' = snd (room_handle r (fst c) (snd c))" using step by (simp add: room_step_def)
  show ?thesis
  proof (cases "fst c")
    case (JoinRoom p s k)
    then have "phase r = Waiting \<or> r' = r" by (auto simp: r' room_handle_def handleJoin_def)
    then show ?thesis by (auto simp: floor_waiting)
  next
    case (LeaveRoom p)
    then show ?thesis using leave_floor [OF inv prod.collapse [symmetric]] by (simp add: r' room_handle_def)
  next
    case StartBattle
    then have "phase r = Waiting \<or> r' = r" by (auto simp: r' room_handle_def handleStart_def canStartBattle_def)
    then show ?thesis by (auto simp: floor_waiting)
  next
    case (UseSkill p k q)
    then show ?thesis using use_skill_floor(1) [OF inv prod.collapse [symmetric]] by (simp add: r' room_handle_def)
  next
    case BattleDeadline
    then have "sequences r' = sequences r" by (simp add: r' room_handle_def handleDeadline_def)
    then show ?thesis using ph by (rule floor_same)
  next
    case RoomSimulationTick
    then have "sequences r' = sequences r" by (simp add: r' room_handle_def sequences_tick)
    then show ?thesis using ph by (rule floor_same)
  next
    case (SetMoveIntent p d q)
    then have "sequences r' = sequences r"
      by (simp add: r' room_handle_def handleSetMoveIntent_def Let_def split: option.split)
        (simp add: sequences_def sequences_update)
    then show ?thesis using ph by (rule floor_same)
  qed
qed

definition accepted_skill :: "player_id \<Rightarrow> room_command \<Rightarrow> room_result \<Rightarrow> u64 list" where
  "accepted_skill player c res =
     (case c of
        UseSkill p skill q \<Rightarrow> if p = player \<and> rr_status res = Applied then [q] else []
      | _ \<Rightarrow> [])"

definition accepted_skills :: "player_id \<Rightarrow> (room_command \<times> time_point) list \<Rightarrow> room_result list \<Rightarrow> u64 list" where
  "accepted_skills player cs results =
     concat (map (\<lambda>(c, res). accepted_skill player (fst c) res) (zip cs results))"

lemma accepted_bounds:
  assumes inv: "room_inv r" and q: "q \<in> set (accepted_skill player (fst c) (fst (room_step r c)))"
  shows "skill_floor r player < q \<and> q \<le> skill_floor (snd (room_step r c)) player"
proof -
  obtain k where "fst c = UseSkill player k q" "rr_status (fst (room_step r c)) = Applied"
    using q by (cases "fst c") (auto simp: accepted_skill_def split: if_splits)
  then show ?thesis using use_skill_floor(2) [OF inv prod.collapse [symmetric], of player k q "snd c"]
    by (simp add: room_step_def room_handle_def)
qed

lemma accepted_increase:
  assumes "room_inv r"
  shows "sorted_wrt (<) (accepted_skills player cs (fst (run room_step r cs))) \<and>
    (\<forall>q \<in> set (accepted_skills player cs (fst (run room_step r cs))). skill_floor r player < q)"
  using assms
proof (induction cs arbitrary: r)
  case (Cons c cs)
  let ?r = "snd (room_step r c)"
  let ?a = "accepted_skill player (fst c) (fst (room_step r c))"
  let ?rest = "accepted_skills player cs (fst (run room_step ?r cs))"
  have split: "accepted_skills player (c # cs) (fst (run room_step r (c # cs))) = ?a @ ?rest"
    by (simp add: accepted_skills_def)
  note IH = Cons.IH [OF room_step_inv [OF Cons.prems, of c]]
  note up = step_floor [OF Cons.prems prod.collapse [symmetric], of player c]
  have "sorted_wrt (<) ?a" by (simp add: accepted_skill_def split: room_command.split)
  moreover have "x < y" if "x \<in> set ?a" "y \<in> set ?rest" for x y
    using accepted_bounds [OF Cons.prems that(1)] IH that(2) by (meson le_less_trans)
  moreover have "skill_floor r player < y" if "y \<in> set ?rest" for y
    using up IH that by (meson le_less_trans)
  moreover have "skill_floor r player < x" if "x \<in> set ?a" for x
    using accepted_bounds [OF Cons.prems that] by blast
  ultimately show ?case unfolding split using IH by (auto simp: sorted_wrt_append)
qed (simp add: accepted_skills_def)

section \<open>Properties\<close>

text \<open>
  C5: A skill request is applied at most once. Over any run of a constructed room, the request
  sequences of a player's accepted skill uses are strictly increasing: a repeated or reordered
  request is refused for the rest of the room's life, across the battle and after leaving it.
\<close>

theorem skill_requests_applied_once:
  assumes "make_room room c = Inr r"
  shows "sorted_wrt (<) (accepted_skills player cs (fst (run room_step r cs)))"
  using accepted_increase [OF make_room_inv(1) [OF assms]] by blast

definition repeated_casts :: "(room_command \<times> time_point) list" where
  "repeated_casts =
     take 2 duel_commands @
     [(UseSkill 7 SLASH_SKILL_ID 4, 100000000), (UseSkill 7 SLASH_SKILL_ID 4, 2000000000),
      (UseSkill 7 SLASH_SKILL_ID 3, 3000000000), (UseSkill 7 SLASH_SKILL_ID 9, 4000000000)]"

theorem skill_requests_applied_once_witness:
  "sorted_wrt (<) (accepted_skills 7 repeated_casts (fst (run room_step duel_room repeated_casts))) \<and>
   accepted_skills 7 repeated_casts (fst (run room_step duel_room repeated_casts)) = [4, 9]"
  by (rule conjI, rule skill_requests_applied_once [OF duel_room_made], code_simp)

end
