(* ===== verification/Zone.thy ===== *)
theory Zone
  imports SnF_Prelude "HOL-Library.AList"
begin

text \<open>
  The zone of \<^verbatim>\<open>src/game/zone.cpp\<close>: players with a position and a route epoch, the area of
  interest, and the simulation tick. The table of players is an association list with one entry
  per player; the source iterates it only to build a list it then sorts.
\<close>

section \<open>Data\<close>

datatype zone_command =
  EnterZoneCommand player_id u64 zone_position
| LeaveZoneCommand player_id u64
| MoveInZoneCommand player_id u64 zone_position
| ZoneSimulationTick

datatype zone_command_status =
  ZApplied | ZAlreadyPresent | ZPlayerMissing | ZStaleRoute | ZTransitionInProgress | ZTransferFailed | ZInRoom

record zone_result =
  zr_status :: zone_command_status
  zr_player :: "player_id option"
  zr_position :: "zone_position option"
  zr_route_epoch :: u64
  zr_tick :: u64
  zr_visible_players :: "player_id list"
  zr_tick_after :: "millis option"

record zone_config =
  zc_aoi_radius :: i32
  zc_tick_interval :: millis

record entity =
  ent_position :: zone_position
  ent_route_epoch :: u64

record zone =
  zone_ident :: zone_id
  aoi_radius :: i32
  ztick_interval :: millis
  last_tick :: u64
  players :: "(player_id \<times> entity) list"

datatype zone_error = ZoneIdZero | RadiusNegative | ZoneTickIntervalNotPositive

definition default_zone_config :: zone_config where
  "default_zone_config = \<lparr>zc_aoi_radius = 1000, zc_tick_interval = 100\<rparr>"

definition make_zone :: "zone_id \<Rightarrow> zone_config \<Rightarrow> zone_error + zone" where
  "make_zone ident c =
     (if ident = 0 then Inl ZoneIdZero
      else if sint (zc_aoi_radius c) < 0 then Inl RadiusNegative
      else if zc_tick_interval c \<le> 0 then Inl ZoneTickIntervalNotPositive
      else Inr \<lparr>zone_ident = ident, aoi_radius = zc_aoi_radius c, ztick_interval = zc_tick_interval c,
                last_tick = 0, players = []\<rparr>)"

section \<open>Visibility\<close>

text \<open>Results of 64-bit signed arithmetic, with the wrap written out.\<close>

definition int64 :: "int \<Rightarrow> int" where
  "int64 v = signed_take_bit 63 v"

definition isVisible :: "zone \<Rightarrow> zone_position \<Rightarrow> zone_position \<Rightarrow> bool" where
  "isVisible z l r =
     (let x = int64 (sint (zpos_x l) - sint (zpos_x r));
          y = int64 (sint (zpos_y l) - sint (zpos_y r));
          radius = sint (aoi_radius z)
      in if \<bar>x\<bar> > radius \<or> \<bar>y\<bar> > radius then False
         else int64 (int64 (x * x) + int64 (y * y)) \<le> int64 (radius * radius))"

definition playerCount :: "zone \<Rightarrow> nat" where
  "playerCount z = length (players z)"

definition zone_positionOf :: "zone \<Rightarrow> player_id \<Rightarrow> zone_position option" where
  "zone_positionOf z player = map_option ent_position (map_of (players z) player)"

definition visiblePlayers :: "zone \<Rightarrow> player_id \<Rightarrow> player_id list" where
  "visiblePlayers z player =
     (case map_of (players z) player of
        None \<Rightarrow> []
      | Some subject \<Rightarrow>
          sort (map fst (filter (\<lambda>(candidate, e). candidate \<noteq> player \<and>
            isVisible z (ent_position subject) (ent_position e)) (players z))))"

section \<open>Commands\<close>

definition zone_reply ::
  "zone \<Rightarrow> zone_command_status \<Rightarrow> player_id option \<Rightarrow> zone_position option \<Rightarrow> u64 \<Rightarrow> player_id list \<Rightarrow> zone_result" where
  "zone_reply z status player position epoch visible =
     \<lparr>zr_status = status, zr_player = player, zr_position = position, zr_route_epoch = epoch,
      zr_tick = last_tick z, zr_visible_players = visible, zr_tick_after = None\<rparr>"

definition present_reply :: "zone \<Rightarrow> zone_command_status \<Rightarrow> player_id \<Rightarrow> entity \<Rightarrow> zone_result" where
  "present_reply z status player e =
     zone_reply z status (Some player) (Some (ent_position e)) (ent_route_epoch e) (visiblePlayers z player)"

definition handleEnter :: "zone \<Rightarrow> player_id \<Rightarrow> u64 \<Rightarrow> zone_position \<Rightarrow> zone_result \<times> zone" where
  "handleEnter z player epoch position =
     (let insert =
        (let was_empty = players z = [];
             z1 = z\<lparr>players := AList.update player \<lparr>ent_position = position, ent_route_epoch = epoch\<rparr> (players z)\<rparr>;
             tick_after = (if was_empty \<and> players z1 \<noteq> [] then Some (ztick_interval z) else None)
         in ((zone_reply z1 ZApplied (Some player) (Some position) epoch (visiblePlayers z1 player))
               \<lparr>zr_tick_after := tick_after\<rparr>, z1))
      in case map_of (players z) player of
           None \<Rightarrow> insert
         | Some e \<Rightarrow>
             if epoch < ent_route_epoch e then (present_reply z ZStaleRoute player e, z)
             else if epoch = ent_route_epoch e then (present_reply z ZAlreadyPresent player e, z)
             else insert)"

definition handleLeaveZone :: "zone \<Rightarrow> player_id \<Rightarrow> u64 \<Rightarrow> zone_result \<times> zone" where
  "handleLeaveZone z player epoch =
     (case map_of (players z) player of
        None \<Rightarrow> (zone_reply z ZPlayerMissing (Some player) None epoch [], z)
      | Some e \<Rightarrow>
          if epoch \<noteq> ent_route_epoch e then (present_reply z ZStaleRoute player e, z)
          else let z1 = z\<lparr>players := AList.delete player (players z)\<rparr>
               in (zone_reply z1 ZApplied (Some player) (Some (ent_position e)) epoch [], z1))"

definition handleMove :: "zone \<Rightarrow> player_id \<Rightarrow> u64 \<Rightarrow> zone_position \<Rightarrow> zone_result \<times> zone" where
  "handleMove z player epoch position =
     (case map_of (players z) player of
        None \<Rightarrow> (zone_reply z ZPlayerMissing (Some player) (Some position) epoch [], z)
      | Some e \<Rightarrow>
          if epoch \<noteq> ent_route_epoch e then (present_reply z ZStaleRoute player e, z)
          else let z1 = z\<lparr>players := AList.update player (e\<lparr>ent_position := position\<rparr>) (players z)\<rparr>
               in (zone_reply z1 ZApplied (Some player) (Some position) epoch (visiblePlayers z1 player), z1))"

definition handleZoneTick :: "zone \<Rightarrow> zone_result \<times> zone" where
  "handleZoneTick z =
     (let z1 = z\<lparr>last_tick := last_tick z + 1\<rparr>;
          tick_after = (if players z1 = [] then None else Some (ztick_interval z1))
      in ((zone_reply z1 ZApplied None None 0 [])\<lparr>zr_tick_after := tick_after\<rparr>, z1))"

primrec zone_handle :: "zone \<Rightarrow> zone_command \<Rightarrow> zone_result \<times> zone" where
  "zone_handle z (EnterZoneCommand player epoch position) = handleEnter z player epoch position"
| "zone_handle z (LeaveZoneCommand player epoch) = handleLeaveZone z player epoch"
| "zone_handle z (MoveInZoneCommand player epoch position) = handleMove z player epoch position"
| "zone_handle z ZoneSimulationTick = handleZoneTick z"

section \<open>Invariant\<close>

definition zone_inv :: "zone \<Rightarrow> bool" where
  "zone_inv z \<longleftrightarrow> distinct (map fst (players z)) \<and> 0 \<le> sint (aoi_radius z) \<and> 0 < ztick_interval z \<and> zone_ident z \<noteq> 0"

lemma make_zone_inv: "make_zone ident c = Inr z \<Longrightarrow> zone_inv z \<and> players z = []"
  by (auto simp: make_zone_def zone_inv_def split: if_splits)

lemma zone_handle_inv: "zone_inv z \<Longrightarrow> zone_inv (snd (zone_handle z c))"
  by (cases c)
    (auto simp: zone_inv_def handleEnter_def handleLeaveZone_def handleMove_def handleZoneTick_def Let_def
      distinct_update distinct_delete split: option.split)

interpretation zone: invariant_machine zone_handle "\<lambda>_. True" zone_inv
  by unfold_locales (rule zone_handle_inv)

section \<open>Visibility on the integers\<close>

definition within :: "int \<Rightarrow> zone_position \<Rightarrow> zone_position \<Rightarrow> bool" where
  "within radius l r \<longleftrightarrow>
     (sint (zpos_x l) - sint (zpos_x r))\<^sup>2 + (sint (zpos_y l) - sint (zpos_y r))\<^sup>2 \<le> radius\<^sup>2"

lemma within_commute: "within radius l r \<longleftrightarrow> within radius r l"
  by (simp add: within_def power2_commute)

lemma int64_id: "- 9223372036854775808 \<le> v \<Longrightarrow> v < 9223372036854775808 \<Longrightarrow> int64 v = v"
  by (simp add: int64_def signed_take_bit_int_eq_self_iff)

lemma sint_i32_bounds: "- 2147483648 \<le> sint (a :: i32)" "sint (a :: i32) < 2147483648"
  using sint_greater_eq [of a] sint_less [of a] by simp_all

lemma square_bound:
  assumes "\<bar>v\<bar> \<le> (2147483647 :: int)"
  shows "0 \<le> v * v" "v * v \<le> 4611686014132420609"
  using mult_mono [of "\<bar>v\<bar>" 2147483647 "\<bar>v\<bar>" 2147483647] assms by (simp_all add: abs_mult_self_eq)

lemma square_outside:
  assumes "0 \<le> r" and "r < \<bar>x\<bar>"
  shows "r\<^sup>2 < x\<^sup>2 + (y :: int)\<^sup>2"
proof -
  have "r\<^sup>2 < \<bar>x\<bar>\<^sup>2" using assms by (intro power_strict_mono) auto
  then have "r\<^sup>2 < x\<^sup>2" by simp
  then show ?thesis using zero_le_power2 [of y] by linarith
qed

lemma isVisible_within:
  assumes "0 \<le> sint (aoi_radius z)"
  shows "isVisible z l r \<longleftrightarrow> within (sint (aoi_radius z)) l r"
proof -
  define x where "x = sint (zpos_x l) - sint (zpos_x r)"
  define y where "y = sint (zpos_y l) - sint (zpos_y r)"
  define d where "d = sint (aoi_radius z)"
  have d: "0 \<le> d" "d \<le> 2147483647" using assms sint_i32_bounds [of "aoi_radius z"] by (simp_all add: d_def)
  have "int64 x = x" "int64 y = y"
    using sint_i32_bounds [of "zpos_x l"] sint_i32_bounds [of "zpos_x r"]
      sint_i32_bounds [of "zpos_y l"] sint_i32_bounds [of "zpos_y r"] by (simp_all add: int64_id x_def y_def)
  then have vis: "isVisible z l r \<longleftrightarrow> \<not> (\<bar>x\<bar> > d \<or> \<bar>y\<bar> > d) \<and> int64 (int64 (x * x) + int64 (y * y)) \<le> int64 (d * d)"
    by (simp add: isVisible_def Let_def x_def [symmetric] y_def [symmetric] d_def [symmetric])
  have win: "within d l r \<longleftrightarrow> x\<^sup>2 + y\<^sup>2 \<le> d\<^sup>2" by (simp add: within_def x_def y_def)
  show ?thesis
  proof (cases "\<bar>x\<bar> > d \<or> \<bar>y\<bar> > d")
    case True
    then have "d\<^sup>2 < x\<^sup>2 + y\<^sup>2"
      using square_outside [OF d(1), of x y] square_outside [OF d(1), of y x] by (auto simp: add.commute)
    then show ?thesis using True vis win by (simp add: d_def)
  next
    case False
    then have "\<bar>x\<bar> \<le> 2147483647" "\<bar>y\<bar> \<le> 2147483647" "\<bar>d\<bar> \<le> 2147483647" using d by simp_all
    note S = square_bound [OF this(1)] square_bound [OF this(2)] square_bound [OF this(3)]
    have "int64 (x * x) = x * x" "int64 (y * y) = y * y" "int64 (d * d) = d * d"
      by (rule int64_id; use S in linarith)+
    moreover have "int64 (x * x + y * y) = x * x + y * y" by (rule int64_id; use S in linarith)
    ultimately show ?thesis using False vis win by (simp add: d_def power2_eq_square)
  qed
qed

lemma set_visiblePlayers:
  assumes inv: "zone_inv z"
  shows "q \<in> set (visiblePlayers z p) \<longleftrightarrow>
    q \<noteq> p \<and> (\<exists>a b. zone_positionOf z p = Some a \<and> zone_positionOf z q = Some b \<and> within (sint (aoi_radius z)) a b)"
proof -
  have "0 \<le> sint (aoi_radius z)" and d: "distinct (map fst (players z))" using inv by (simp_all add: zone_inv_def)
  note vis = isVisible_within [OF this(1)]
  show ?thesis
  proof (cases "map_of (players z) p")
    case None
    then show ?thesis by (simp add: visiblePlayers_def zone_positionOf_def)
  next
    case (Some s)
    then have "q \<in> set (visiblePlayers z p) \<longleftrightarrow>
        q \<noteq> p \<and> (\<exists>e. (q, e) \<in> set (players z) \<and> within (sint (aoi_radius z)) (ent_position s) (ent_position e))"
      by (auto simp: visiblePlayers_def vis image_iff)
    also have "\<dots> \<longleftrightarrow> q \<noteq> p \<and> (\<exists>e. map_of (players z) q = Some e \<and>
        within (sint (aoi_radius z)) (ent_position s) (ent_position e))"
      by (simp only: map_of_eq_Some_iff [OF d])
    finally show ?thesis using Some by (auto simp: zone_positionOf_def)
  qed
qed

lemma distinct_visiblePlayers: "zone_inv z \<Longrightarrow> distinct (visiblePlayers z p) \<and> sorted (visiblePlayers z p)"
  by (auto simp: visiblePlayers_def zone_inv_def distinct_map inj_on_def split: option.split)

section \<open>Properties\<close>

definition plaza :: zone where
  "plaza = projr (make_zone 1 default_zone_config)"

definition plaza_commands :: "zone_command list" where
  "plaza_commands =
     [EnterZoneCommand 4 1 \<lparr>zpos_x = 0, zpos_y = 0\<rparr>, EnterZoneCommand 2 1 \<lparr>zpos_x = 600, zpos_y = 800\<rparr>,
      EnterZoneCommand 9 1 \<lparr>zpos_x = 601, zpos_y = 800\<rparr>, ZoneSimulationTick,
      MoveInZoneCommand 9 1 \<lparr>zpos_x = - 600, zpos_y = - 800\<rparr>]"

lemma plaza_made: "make_zone 1 default_zone_config = Inr plaza"
  unfolding plaza_def by code_simp

lemma zone_run_inv: "make_zone ident c = Inr z \<Longrightarrow> zone_inv (snd (run zone_handle z cs))"
  by (rule zone.run_inv) (simp_all add: make_zone_inv list_all_iff)

text \<open>
  C18: The area of interest is exact. In every state a constructed zone reaches, the players
  visible to a player are listed once each in ascending order, and are exactly the other players
  whose Euclidean distance, computed on the unbounded integers from the signed 32-bit
  coordinates, is at most the radius: the 64-bit arithmetic never overflows. Visibility is
  mutual.
\<close>

theorem visible_players_exact:
  assumes "make_zone ident c = Inr z0" and "z = snd (run zone_handle z0 cs)"
  shows "sorted (visiblePlayers z p) \<and> distinct (visiblePlayers z p) \<and>
    (q \<in> set (visiblePlayers z p) \<longleftrightarrow>
       q \<noteq> p \<and> (\<exists>a b. zone_positionOf z p = Some a \<and> zone_positionOf z q = Some b \<and>
         within (sint (aoi_radius z)) a b)) \<and>
    (q \<in> set (visiblePlayers z p) \<longleftrightarrow> p \<in> set (visiblePlayers z q))"
proof -
  have inv: "zone_inv z" using zone_run_inv assms by blast
  have "q \<in> set (visiblePlayers z p) \<longleftrightarrow> p \<in> set (visiblePlayers z q)"
    unfolding set_visiblePlayers [OF inv] using within_commute by blast
  then show ?thesis using distinct_visiblePlayers [OF inv] set_visiblePlayers [OF inv] by simp
qed

theorem visible_players_exact_witness:
  "visiblePlayers (snd (run zone_handle plaza plaza_commands)) 4 = [2, 9] \<and>
   4 \<in> set (visiblePlayers (snd (run zone_handle plaza plaza_commands)) 9) \<and>
   visiblePlayers (snd (run zone_handle plaza (take 4 plaza_commands))) 4 = [2]"
proof -
  have v: "visiblePlayers (snd (run zone_handle plaza plaza_commands)) 4 = [2, 9]" by code_simp
  moreover have "4 \<in> set (visiblePlayers (snd (run zone_handle plaza plaza_commands)) 9)"
  proof -
    have "9 \<in> set (visiblePlayers (snd (run zone_handle plaza plaza_commands)) 4)" by (simp add: v)
    then show ?thesis
      using visible_players_exact [OF plaza_made refl, where q = 4 and p = 9 and cs = plaza_commands] by blast
  qed
  moreover have "visiblePlayers (snd (run zone_handle plaza (take 4 plaza_commands))) 4 = [2]" by code_simp
  ultimately show ?thesis by blast
qed

text \<open>The specification of one player's entry: only the player's own commands act on it, an entry
  is replaced only by a newer route epoch, and moves and leaves need the current epoch.\<close>

fun slot_step :: "player_id \<Rightarrow> zone_command \<Rightarrow> entity option \<Rightarrow> entity option" where
  "slot_step p (EnterZoneCommand q epoch position) slot =
     (if q = p \<and> (\<forall>e. slot = Some e \<longrightarrow> ent_route_epoch e < epoch)
      then Some \<lparr>ent_position = position, ent_route_epoch = epoch\<rparr> else slot)"
| "slot_step p (LeaveZoneCommand q epoch) slot =
     (if q = p \<and> map_option ent_route_epoch slot = Some epoch then None else slot)"
| "slot_step p (MoveInZoneCommand q epoch position) slot =
     (if q = p \<and> map_option ent_route_epoch slot = Some epoch
      then map_option (\<lambda>e. e\<lparr>ent_position := position\<rparr>) slot else slot)"
| "slot_step p ZoneSimulationTick slot = slot"

lemma zone_handle_slot:
  "map_of (players (snd (zone_handle z c))) p = slot_step p c (map_of (players z) p)"
  by (cases c)
    (auto simp: handleEnter_def handleLeaveZone_def handleMove_def handleZoneTick_def Let_def update_conv' delete_conv'
      split: option.split)

text \<open>
  C19: A zone is a family of independent player entries. Under any commands, from any state, the
  entry of each player evolves exactly by that player's own commands as the specification
  \<open>slot_step\<close> says: other players' commands, ticks and commands of an outdated route never
  touch it.
\<close>

theorem zone_refines_slots:
  "map_of (players (snd (run zone_handle z cs))) p = fold (slot_step p) cs (map_of (players z) p)"
  by (induction cs arbitrary: z) (simp_all add: zone_handle_slot)

fun occupied :: "zone \<Rightarrow> zone_command list \<Rightarrow> bool" where
  "occupied z [] = True"
| "occupied z (c # cs) = (players (snd (zone_handle z c)) \<noteq> [] \<and> occupied (snd (zone_handle z c)) cs)"

definition outstanding_ticks :: "zone \<Rightarrow> zone_command list \<Rightarrow> int" where
  "outstanding_ticks z cs =
     int (length (filter (\<lambda>r. zr_tick_after r \<noteq> None) (fst (run zone_handle z cs)))) -
     int (length (filter (\<lambda>c. c = ZoneSimulationTick) cs))"

lemma outstanding_Cons:
  "outstanding_ticks z (c # cs) =
     outstanding_ticks (snd (zone_handle z c)) cs +
     (if zr_tick_after (fst (zone_handle z c)) = None then 0 else 1) - (if c = ZoneSimulationTick then 1 else 0)"
  by (simp add: outstanding_ticks_def)

lemma tick_after_occupied:
  assumes "players z \<noteq> []"
  shows "zr_tick_after (fst (zone_handle z c)) \<noteq> None \<longleftrightarrow> c = ZoneSimulationTick"
  using assms
  by (cases c) (auto simp: handleEnter_def handleLeaveZone_def handleMove_def handleZoneTick_def Let_def zone_reply_def
      present_reply_def split: option.split)

lemma outstanding_occupied:
  assumes "players z \<noteq> []" and "occupied z cs"
  shows "outstanding_ticks z cs = 0"
  using assms
proof (induction cs arbitrary: z)
  case (Cons c cs)
  then show ?case using tick_after_occupied [of z c] by (auto simp: outstanding_Cons)
qed (simp add: outstanding_ticks_def)

lemma first_entry:
  assumes "players z = []" and "players (snd (zone_handle z c)) \<noteq> []"
  shows "zr_tick_after (fst (zone_handle z c)) \<noteq> None" "c \<noteq> ZoneSimulationTick"
  using assms
  by (cases c; simp add: handleEnter_def handleLeaveZone_def handleMove_def handleZoneTick_def Let_def)+

text \<open>
  C20: One tick is outstanding in a live zone. From the first entry into a constructed zone and
  for as long as at least one player is present, the ticks requested exceed the ticks delivered by
  exactly one: the simulation neither stops nor ticks twice per interval.
\<close>

theorem one_tick_outstanding:
  assumes "make_zone ident c = Inr z" and "cs \<noteq> []" and "occupied z cs"
  shows "outstanding_ticks z cs = 1"
proof -
  obtain d ds where cs: "cs = d # ds" using assms(2) by (cases cs) auto
  have "players z = []" using make_zone_inv assms(1) by blast
  moreover have "players (snd (zone_handle z d)) \<noteq> []" "occupied (snd (zone_handle z d)) ds"
    using assms(3) by (simp_all add: cs)
  ultimately show ?thesis
    using first_entry [of z d] outstanding_occupied [of "snd (zone_handle z d)" ds] by (simp add: cs outstanding_Cons)
qed

theorem one_tick_outstanding_witness:
  "outstanding_ticks plaza plaza_commands = 1"
  by (rule one_tick_outstanding [OF plaza_made]) code_simp+

end
