(* ===== verification/Frame_Codec.thy ===== *)
theory Frame_Codec
  imports SnF_Prelude
begin

text \<open>
  The wire framing of \<^verbatim>\<open>include/snf/protocol/frame.hpp\<close>, \<^verbatim>\<open>payload_writer.hpp\<close> and
  \<^verbatim>\<open>src/protocol/frame_codec.cpp\<close>: big-endian integers, the frame encoder, and the incremental decoder
  with its buffer and read offset. A message type is kept as the 16-bit value of the
  enumeration, since a received value need not be one of the enumerators.
\<close>

unbundle bit_operations_syntax

section \<open>Frames\<close>

datatype message_type =
  MtPing | MtPong | MtAuthenticate | MtAuthenticated | MtEnterZone | MtZoneEntered | MtMove | MtMoved
| MtLeaveZone | MtZoneLeft | MtPurchase | MtPurchaseResult | MtRoomJoin | MtRoomJoined | MtBattleStart
| MtBattleStarted | MtBattleCleared | MtRoomLeave | MtRoomLeft | MtReturnedToZone | MtUseSkill
| MtSkillApplied | MtBattleFailed | MtBattleDigest | MtSkillAcknowledged | MtSetMoveIntent
| MtMoveAcknowledged | MtEquipSkill | MtEquipSkillResult

primrec message_code :: "message_type \<Rightarrow> u16" where
  "message_code MtPing = 1" | "message_code MtPong = 2" | "message_code MtAuthenticate = 3"
| "message_code MtAuthenticated = 4" | "message_code MtEnterZone = 5" | "message_code MtZoneEntered = 6"
| "message_code MtMove = 7" | "message_code MtMoved = 8" | "message_code MtLeaveZone = 9"
| "message_code MtZoneLeft = 10" | "message_code MtPurchase = 11" | "message_code MtPurchaseResult = 12"
| "message_code MtRoomJoin = 17" | "message_code MtRoomJoined = 18" | "message_code MtBattleStart = 19"
| "message_code MtBattleStarted = 20" | "message_code MtBattleCleared = 21" | "message_code MtRoomLeave = 22"
| "message_code MtRoomLeft = 23" | "message_code MtReturnedToZone = 24" | "message_code MtUseSkill = 25"
| "message_code MtSkillApplied = 26" | "message_code MtBattleFailed = 27" | "message_code MtBattleDigest = 28"
| "message_code MtSkillAcknowledged = 29" | "message_code MtSetMoveIntent = 30"
| "message_code MtMoveAcknowledged = 31" | "message_code MtEquipSkill = 32" | "message_code MtEquipSkillResult = 33"

record frame =
  frame_type :: u16
  frame_request_id :: u32
  frame_payload :: bytes

definition FRAME_LENGTH_FIELD_SIZE :: u32 where "FRAME_LENGTH_FIELD_SIZE = 4"
definition FRAME_TYPE_SIZE :: u32 where "FRAME_TYPE_SIZE = 2"
definition FRAME_REQUEST_ID_SIZE :: u32 where "FRAME_REQUEST_ID_SIZE = 4"
definition MIN_BODY_SIZE :: u32 where "MIN_BODY_SIZE = FRAME_TYPE_SIZE + FRAME_REQUEST_ID_SIZE"
definition MAX_BODY_SIZE :: u32 where "MAX_BODY_SIZE = 64 * 1024"
definition MAX_PAYLOAD_SIZE :: u32 where "MAX_PAYLOAD_SIZE = MAX_BODY_SIZE - MIN_BODY_SIZE"
definition MAX_FRAME_SIZE :: u32 where "MAX_FRAME_SIZE = FRAME_LENGTH_FIELD_SIZE + MAX_BODY_SIZE"
definition UNSOLICITED_REQUEST_ID :: u32 where "UNSOLICITED_REQUEST_ID = 0"

lemmas frame_sizes = FRAME_LENGTH_FIELD_SIZE_def FRAME_TYPE_SIZE_def FRAME_REQUEST_ID_SIZE_def MIN_BODY_SIZE_def
  MAX_BODY_SIZE_def MAX_PAYLOAD_SIZE_def MAX_FRAME_SIZE_def

definition is_known_message_type :: "u16 \<Rightarrow> bool" where
  "is_known_message_type code \<longleftrightarrow>
     code \<in> set (map message_code
       [MtPing, MtPong, MtAuthenticate, MtAuthenticated, MtEnterZone, MtZoneEntered, MtMove, MtMoved,
        MtLeaveZone, MtZoneLeft, MtPurchase, MtPurchaseResult, MtRoomJoin, MtRoomJoined, MtBattleStart,
        MtBattleStarted, MtBattleCleared, MtRoomLeave, MtRoomLeft, MtReturnedToZone, MtUseSkill,
        MtSkillApplied, MtBattleFailed, MtBattleDigest, MtSkillAcknowledged, MtSetMoveIntent,
        MtMoveAcknowledged, MtEquipSkill, MtEquipSkillResult])"

section \<open>Integers on the wire\<close>

definition append_big_endian :: "nat \<Rightarrow> 'a::len word \<Rightarrow> bytes" where
  "append_big_endian n v =
     map (\<lambda>remaining. ucast (drop_bit ((remaining - 1) * 8) v AND 0xFF)) (rev [1 ..< Suc n])"

definition append_u16 :: "u16 \<Rightarrow> bytes" where "append_u16 v = append_big_endian 2 v"
definition append_u32 :: "u32 \<Rightarrow> bytes" where "append_u32 v = append_big_endian 4 v"
definition append_u64 :: "u64 \<Rightarrow> bytes" where "append_u64 v = append_big_endian 8 v"

definition read_u32_big_endian :: "bytes \<Rightarrow> nat \<Rightarrow> u32" where
  "read_u32_big_endian bytes offset =
     push_bit 24 (ucast (bytes ! offset)) OR push_bit 16 (ucast (bytes ! (offset + 1))) OR
     push_bit 8 (ucast (bytes ! (offset + 2))) OR ucast (bytes ! (offset + 3))"

definition read_u16_big_endian :: "bytes \<Rightarrow> nat \<Rightarrow> u16" where
  "read_u16_big_endian bytes offset =
     push_bit 8 (ucast (bytes ! offset)) OR ucast (bytes ! (offset + 1))"

section \<open>The encoder\<close>

datatype encode_error = UnknownType | BodyExceedsMaximum

definition encode_frame :: "frame \<Rightarrow> encode_error + bytes" where
  "encode_frame f =
     (if \<not> is_known_message_type (frame_type f) then Inl UnknownType
      else if length (frame_payload f) > unat MAX_PAYLOAD_SIZE then Inl BodyExceedsMaximum
      else let body_size = of_nat (unat MIN_BODY_SIZE + length (frame_payload f)) :: u32
           in Inr (append_u32 body_size @ append_u16 (frame_type f) @ append_u32 (frame_request_id f) @
                   frame_payload f))"

section \<open>The decoder\<close>

datatype decode_error = InvalidBodyLength | BodyTooLarge | UnknownMessageType

record decode_result =
  dr_frames :: "frame list"
  dr_error :: "decode_error option"

record decode_next_result =
  dn_frame :: "frame option"
  dn_error :: "decode_error option"

record frame_decoder =
  dec_buffer :: bytes
  read_offset :: nat

definition fresh_decoder :: frame_decoder where
  "fresh_decoder = \<lparr>dec_buffer = [], read_offset = 0\<rparr>"

definition compactConsumedPrefix :: "frame_decoder \<Rightarrow> frame_decoder" where
  "compactConsumedPrefix d =
     (if read_offset d = 0 then d
      else if read_offset d = length (dec_buffer d) then d\<lparr>dec_buffer := [], read_offset := 0\<rparr>
      else d\<lparr>dec_buffer := drop (read_offset d) (dec_buffer d), read_offset := 0\<rparr>)"

definition bufferedByteCount :: "frame_decoder \<Rightarrow> nat" where
  "bufferedByteCount d = length (dec_buffer d) - read_offset d"

definition decoder_reset :: "frame_decoder \<Rightarrow> frame_decoder" where
  "decoder_reset d = d\<lparr>dec_buffer := [], read_offset := 0\<rparr>"

definition decoder_fail :: "frame_decoder \<Rightarrow> decode_error \<Rightarrow> decode_next_result \<times> frame_decoder" where
  "decoder_fail d e = (\<lparr>dn_frame = None, dn_error = Some e\<rparr>, decoder_reset d)"

definition decoder_push :: "frame_decoder \<Rightarrow> bytes \<Rightarrow> frame_decoder" where
  "decoder_push d bytes = (let c = compactConsumedPrefix d in c\<lparr>dec_buffer := dec_buffer c @ bytes\<rparr>)"

definition needs_more :: decode_next_result where
  "needs_more = \<lparr>dn_frame = None, dn_error = None\<rparr>"

definition tryDecodeNext :: "frame_decoder \<Rightarrow> decode_next_result \<times> frame_decoder" where
  "tryDecodeNext d =
     (let available_bytes = length (dec_buffer d) - read_offset d
      in if available_bytes < unat FRAME_LENGTH_FIELD_SIZE then (needs_more, compactConsumedPrefix d)
         else let body_size = read_u32_big_endian (dec_buffer d) (read_offset d)
              in if body_size < MIN_BODY_SIZE then decoder_fail d InvalidBodyLength
                 else if body_size > MAX_BODY_SIZE then decoder_fail d BodyTooLarge
                 else let full_frame_size = unat FRAME_LENGTH_FIELD_SIZE + unat body_size
                      in if available_bytes < full_frame_size then (needs_more, compactConsumedPrefix d)
                         else let request_type = read_u16_big_endian (dec_buffer d)
                                    (read_offset d + unat FRAME_LENGTH_FIELD_SIZE)
                              in if \<not> is_known_message_type request_type then decoder_fail d UnknownMessageType
                                 else let request_id = read_u32_big_endian (dec_buffer d)
                                            (read_offset d + unat FRAME_LENGTH_FIELD_SIZE + unat FRAME_TYPE_SIZE);
                                          payload_begin = read_offset d + unat FRAME_LENGTH_FIELD_SIZE + unat MIN_BODY_SIZE;
                                          payload_size = unat (body_size - MIN_BODY_SIZE);
                                          f = \<lparr>frame_type = request_type, frame_request_id = request_id,
                                               frame_payload = take payload_size (drop payload_begin (dec_buffer d))\<rparr>;
                                          d1 = d\<lparr>read_offset := read_offset d + full_frame_size\<rparr>;
                                          d2 = (if read_offset d1 = length (dec_buffer d1) then compactConsumedPrefix d1 else d1)
                                      in (\<lparr>dn_frame = Some f, dn_error = None\<rparr>, d2))"

lemma tryDecodeNext_consumes:
  assumes "tryDecodeNext d = (next, d')" and "dn_frame next = Some f"
  shows "bufferedByteCount d' < bufferedByteCount d"
  using assms
  by (auto simp: tryDecodeNext_def Let_def needs_more_def decoder_fail_def bufferedByteCount_def compactConsumedPrefix_def
      frame_sizes split: if_splits)

text \<open>The loop of \<open>append\<close>: it ends because every frame it extracts consumes buffered bytes.\<close>

function decode_loop :: "frame_decoder \<Rightarrow> decode_result \<times> frame_decoder" where
  "decode_loop d =
     (let (next, d1) = tryDecodeNext d
      in case dn_frame next of
           Some f \<Rightarrow> let (result, d2) = decode_loop d1
                     in (result\<lparr>dr_frames := f # dr_frames result\<rparr>, d2)
         | None \<Rightarrow> (\<lparr>dr_frames = [], dr_error = dn_error next\<rparr>, d1))"
  by pat_completeness auto

termination
  by (relation "measure bufferedByteCount") (auto dest: tryDecodeNext_consumes [OF sym])

declare decode_loop.simps [simp del]

definition decoder_append :: "frame_decoder \<Rightarrow> bytes \<Rightarrow> decode_result \<times> frame_decoder" where
  "decoder_append d bytes = decode_loop (decoder_push d bytes)"

section \<open>Streams of self-delimiting units\<close>

text \<open>
  What an incremental decoder is for: \<open>next\<close> looks at the unread bytes and wants more, rejects the
  stream, or delivers a unit and its size. \<open>drains\<close> is the result of taking units until \<open>next\<close>
  wants more or rejects.
\<close>

inductive drains :: "('b list \<Rightarrow> ('e + 'f \<times> nat) option) \<Rightarrow> 'b list \<Rightarrow> 'f list \<Rightarrow> 'e option \<times> 'b list \<Rightarrow> bool"
  for "next" where
  wants_more: "next xs = None \<Longrightarrow> drains next xs [] (None, xs)"
| rejects: "next xs = Some (Inl e) \<Longrightarrow> drains next xs [] (Some e, [])"
| delivers: "next xs = Some (Inr (f, n)) \<Longrightarrow> drains next (drop n xs) fs r \<Longrightarrow> drains next xs (f # fs) r"

inductive_cases drainsE: "drains next xs fs r"

locale framing =
  fixes "next" :: "'b list \<Rightarrow> ('e + 'f \<times> nat) option"
  assumes stable: "next xs = Some r \<Longrightarrow> next (xs @ ys) = Some r"
    and consumes: "next xs = Some (Inr (f, n)) \<Longrightarrow> 0 < n \<and> n \<le> length xs"
begin

lemma drains_total: "\<exists>fs r. drains next xs fs r"
proof (induction "length xs" arbitrary: xs rule: less_induct)
  case less
  show ?case
  proof (cases "next xs")
    case None
    then show ?thesis by (blast intro: drains.intros)
  next
    case (Some a)
    show ?thesis
    proof (cases a)
      case (Inl e)
      then show ?thesis using Some by (blast intro: drains.intros)
    next
      case (Inr p)
      obtain f n where p: "p = (f, n)" by (cases p)
      have "length (drop n xs) < length xs"
        using consumes [of xs f n] Some Inr p by auto
      from less [OF this] show ?thesis
        using Some Inr p by (blast intro: drains.intros)
    qed
  qed
qed

lemma drains_unique: "drains next xs fs r \<Longrightarrow> drains next xs gs s \<Longrightarrow> gs = fs \<and> s = r"
proof (induction arbitrary: gs s rule: drains.induct)
  case (wants_more xs)
  from wants_more(2, 1) show ?case by (cases rule: drains.cases) auto
next
  case (rejects xs e)
  from rejects(2, 1) show ?case by (cases rule: drains.cases) auto
next
  case (delivers xs f n fs r)
  from delivers(4, 1, 3) show ?case by (cases rule: drains.cases) auto
qed

lemma drains_more: "drains next xs fs r \<Longrightarrow> r = (None, rest) \<Longrightarrow> drains next (rest @ ys) gs s \<Longrightarrow> drains next (xs @ ys) (fs @ gs) s"
proof (induction rule: drains.induct)
  case (delivers xs f n fs r)
  have "drop n (xs @ ys) = drop n xs @ ys"
    using consumes [OF delivers(1)] by simp
  then show ?case
    using delivers stable [OF delivers(1), of ys] by (auto intro!: drains.delivers)
qed auto

lemma drains_rejected: "drains next xs fs r \<Longrightarrow> r = (Some e, rest) \<Longrightarrow> drains next (xs @ ys) fs r"
proof (induction rule: drains.induct)
  case (rejects xs e)
  then show ?case by (auto intro: drains.rejects stable)
next
  case (delivers xs f n fs r)
  have "drop n (xs @ ys) = drop n xs @ ys"
    using consumes [OF delivers(1)] by simp
  then show ?case
    using delivers stable [OF delivers(1), of ys] by (auto intro!: drains.delivers)
qed auto

lemma drains_prefix:
  assumes whole: "drains next (xs @ ys) fs (None, rest)" and part: "drains next xs gs (e, rest')"
  shows "e = None \<and> (\<exists>hs. fs = gs @ hs \<and> drains next (rest' @ ys) hs (None, rest))"
proof (cases e)
  case (Some err)
  then have "drains next (xs @ ys) gs (Some err, rest')"
    using drains_rejected [OF part] by simp
  then show ?thesis using drains_unique [OF whole] by auto
next
  case None
  obtain hs s where "drains next (rest' @ ys) hs s" using drains_total by blast
  with drains_more [OF part] None drains_unique [OF whole] show ?thesis by blast
qed

lemma drains_rest: "drains next xs fs r \<Longrightarrow> r = (None, rest) \<Longrightarrow> next rest = None \<and> (\<exists>n. rest = drop n xs)"
  by (induction rule: drains.induct) (auto intro: exI [of _ 0])

end

lemma drains_error: "drains next xs fs r \<Longrightarrow> r = (Some e, rest) \<Longrightarrow> rest = []"
  by (induction rule: drains.induct) auto

section \<open>The frames of a byte stream\<close>

text \<open>What the protocol says of the unread bytes, without buffer, offset or compaction.\<close>

definition next_frame :: "bytes \<Rightarrow> (decode_error + frame \<times> nat) option" where
  "next_frame xs =
     (if length xs < 4 then None
      else let size = unat (read_u32_big_endian xs 0)
           in if size < 6 then Some (Inl InvalidBodyLength)
              else if size > 65536 then Some (Inl BodyTooLarge)
              else if length xs < 4 + size then None
              else if \<not> is_known_message_type (read_u16_big_endian xs 4) then Some (Inl UnknownMessageType)
              else Some (Inr (\<lparr>frame_type = read_u16_big_endian xs 4, frame_request_id = read_u32_big_endian xs 6,
                               frame_payload = take (size - 6) (drop 10 xs)\<rparr>, 4 + size)))"

lemma read_u32_append [simp]: "offset + 3 < length xs \<Longrightarrow> read_u32_big_endian (xs @ ys) offset = read_u32_big_endian xs offset"
  by (simp add: read_u32_big_endian_def nth_append)

lemma read_u16_append [simp]: "offset + 1 < length xs \<Longrightarrow> read_u16_big_endian (xs @ ys) offset = read_u16_big_endian xs offset"
  by (simp add: read_u16_big_endian_def nth_append)

lemma read_u32_drop: "k \<le> length xs \<Longrightarrow> read_u32_big_endian (drop k xs) offset = read_u32_big_endian xs (k + offset)"
  by (simp add: read_u32_big_endian_def add.assoc)

lemma read_u16_drop: "k \<le> length xs \<Longrightarrow> read_u16_big_endian (drop k xs) offset = read_u16_big_endian xs (k + offset)"
  by (simp add: read_u16_big_endian_def add.assoc)

lemma next_frame_stable: "next_frame xs = Some r \<Longrightarrow> next_frame (xs @ ys) = Some r"
  by (auto simp: next_frame_def Let_def split: if_splits)

lemma next_frame_consumes: "next_frame xs = Some (Inr (f, n)) \<Longrightarrow> 0 < n \<and> n \<le> length xs"
  by (auto simp: next_frame_def Let_def split: if_splits)

interpretation codec: framing next_frame
  by unfold_locales (auto dest: next_frame_stable next_frame_consumes)

lemma next_frame_short: "next_frame xs = None \<Longrightarrow> length xs < 65540"
  by (auto simp: next_frame_def Let_def split: if_splits)

section \<open>The decoder takes the frames of the stream\<close>

definition pending :: "frame_decoder \<Rightarrow> bytes" where
  "pending d = drop (read_offset d) (dec_buffer d)"

definition decoder_ok :: "frame_decoder \<Rightarrow> bool" where
  "decoder_ok d \<longleftrightarrow> read_offset d \<le> length (dec_buffer d)"

lemma length_pending: "bufferedByteCount d = length (pending d)"
  by (simp add: bufferedByteCount_def pending_def)

lemma fresh_pending [simp]: "pending fresh_decoder = []" "decoder_ok fresh_decoder"
  by (simp_all add: fresh_decoder_def pending_def decoder_ok_def)

lemma compact_pending [simp]:
  "decoder_ok d \<Longrightarrow> pending (compactConsumedPrefix d) = pending d"
  "decoder_ok d \<Longrightarrow> decoder_ok (compactConsumedPrefix d)"
  by (auto simp: compactConsumedPrefix_def pending_def decoder_ok_def)

lemma push_pending [simp]:
  assumes "decoder_ok d"
  shows "pending (decoder_push d bytes) = pending d @ bytes" "decoder_ok (decoder_push d bytes)"
  using compact_pending [OF assms]
  by (simp_all add: decoder_push_def Let_def) (simp_all add: pending_def decoder_ok_def)

lemma reset_pending [simp]: "pending (decoder_reset d) = []" "decoder_ok (decoder_reset d)"
  by (simp_all add: decoder_reset_def pending_def decoder_ok_def)

lemma body_size_bounds:
  "n < MIN_BODY_SIZE \<longleftrightarrow> unat n < 6" "n > MAX_BODY_SIZE \<longleftrightarrow> unat n > 65536"
  by (simp_all add: frame_sizes word_less_nat_alt)

lemma payload_size: "\<not> unat n < 6 \<Longrightarrow> unat (n - MIN_BODY_SIZE) = unat n - 6"
  by (simp add: frame_sizes unat_sub word_le_nat_alt)

lemma next_frame_pending:
  assumes "decoder_ok d"
  shows "next_frame (pending d) =
    (let buf = dec_buffer d; at = read_offset d; size = unat (read_u32_big_endian buf at)
     in if length buf - at < 4 then None
        else if size < 6 then Some (Inl InvalidBodyLength)
        else if size > 65536 then Some (Inl BodyTooLarge)
        else if length buf - at < 4 + size then None
        else if \<not> is_known_message_type (read_u16_big_endian buf (at + 4)) then Some (Inl UnknownMessageType)
        else Some (Inr (\<lparr>frame_type = read_u16_big_endian buf (at + 4), frame_request_id = read_u32_big_endian buf (at + 6),
                         frame_payload = take (size - 6) (drop (at + 10) buf)\<rparr>, 4 + size)))"
  using assms by (simp add: next_frame_def pending_def decoder_ok_def read_u32_drop read_u16_drop Let_def
      add.commute [of 10])

lemma tryDecodeNext_eq:
  "tryDecodeNext d =
    (let buf = dec_buffer d; at = read_offset d; size = unat (read_u32_big_endian buf at)
     in if length buf - at < 4 then (needs_more, compactConsumedPrefix d)
        else if size < 6 then decoder_fail d InvalidBodyLength
        else if size > 65536 then decoder_fail d BodyTooLarge
        else if length buf - at < 4 + size then (needs_more, compactConsumedPrefix d)
        else if \<not> is_known_message_type (read_u16_big_endian buf (at + 4)) then decoder_fail d UnknownMessageType
        else (\<lparr>dn_frame = Some \<lparr>frame_type = read_u16_big_endian buf (at + 4),
                 frame_request_id = read_u32_big_endian buf (at + 6),
                 frame_payload = take (size - 6) (drop (at + 10) buf)\<rparr>, dn_error = None\<rparr>,
              let d1 = d\<lparr>read_offset := at + 4 + size\<rparr>
              in if at + 4 + size = length buf then compactConsumedPrefix d1 else d1))"
proof -
  have sizes: "unat FRAME_LENGTH_FIELD_SIZE = 4" "unat FRAME_TYPE_SIZE = 2" "unat MIN_BODY_SIZE = 6"
    by (simp_all add: frame_sizes)
  show ?thesis
    by (simp add: tryDecodeNext_def Let_def body_size_bounds sizes payload_size add.assoc
        add.commute [of 6] cong: if_cong)
qed

lemma tryDecodeNext_spec:
  assumes ok: "decoder_ok d" and run: "tryDecodeNext d = (res, d')"
  shows "decoder_ok d' \<and>
    (case next_frame (pending d) of
       None \<Rightarrow> res = needs_more \<and> pending d' = pending d
     | Some (Inl e) \<Rightarrow> res = \<lparr>dn_frame = None, dn_error = Some e\<rparr> \<and> pending d' = []
     | Some (Inr (f, n)) \<Rightarrow> res = \<lparr>dn_frame = Some f, dn_error = None\<rparr> \<and> pending d' = drop n (pending d))"
proof -
  let ?buf = "dec_buffer d" and ?at = "read_offset d"
  let ?size = "unat (read_u32_big_endian ?buf ?at)"
  show ?thesis
  proof (cases "length ?buf - ?at < 4 \<or> ?size < 6 \<or> ?size > 65536 \<or> length ?buf - ?at < 4 + ?size \<or>
                \<not> is_known_message_type (read_u16_big_endian ?buf (?at + 4))")
    case True
    with ok run show ?thesis
      unfolding next_frame_pending [OF ok] tryDecodeNext_eq
      by (auto simp: Let_def decoder_fail_def split: if_splits)
  next
    case False
    let ?d1 = "d\<lparr>read_offset := ?at + 4 + ?size\<rparr>"
    have d1: "decoder_ok ?d1" "pending ?d1 = drop (4 + ?size) (pending d)"
      using ok False by (auto simp: decoder_ok_def pending_def algebra_simps)
    from False d1 run show ?thesis
      unfolding next_frame_pending [OF ok] tryDecodeNext_eq
      by (auto simp: Let_def split: if_splits)
  qed
qed

lemma decode_loop_drains:
  "decoder_ok d \<Longrightarrow> decode_loop d = (res, d') \<Longrightarrow>
     decoder_ok d' \<and> drains next_frame (pending d) (dr_frames res) (dr_error res, pending d')"
proof (induction d arbitrary: res d' rule: decode_loop.induct)
  case (1 d)
  obtain nx d1 where trial: "tryDecodeNext d = (nx, d1)" by fastforce
  note spec = tryDecodeNext_spec [OF 1(2) trial]
  show ?case
  proof (cases "next_frame (pending d)")
    case None
    with spec 1(3) show ?thesis
      by (auto simp: decode_loop.simps [of d] trial needs_more_def intro: drains.wants_more)
  next
    case (Some a)
    show ?thesis
    proof (cases a)
      case (Inl e)
      with Some spec 1(3) show ?thesis
        by (auto simp: decode_loop.simps [of d] trial intro: drains.rejects)
    next
      case (Inr p)
      obtain f n where p: "p = (f, n)" by (cases p)
      have nx: "nx = \<lparr>dn_frame = Some f, dn_error = None\<rparr>" "pending d1 = drop n (pending d)" "decoder_ok d1"
        using spec Some Inr p by auto
      obtain r d2 where loop: "decode_loop d1 = (r, d2)" by fastforce
      have "decoder_ok d2 \<and> drains next_frame (pending d1) (dr_frames r) (dr_error r, pending d2)"
        using 1(1) [OF refl trial [symmetric] _ nx(3) loop] nx(1) trial by simp
      with Some Inr p nx 1(3) loop show ?thesis
        by (auto simp: decode_loop.simps [of d] trial intro: drains.delivers)
    qed
  qed
qed

lemma append_drains:
  assumes "decoder_ok d" and "decoder_append d bytes = (res, d')"
  shows "decoder_ok d'" "drains next_frame (pending d @ bytes) (dr_frames res) (dr_error res, pending d')"
  using decode_loop_drains [of "decoder_push d bytes" res d'] assms by (simp_all add: decoder_append_def)

section \<open>Encoding and decoding\<close>

lemma upt_rows: "[Suc 0 ..< 3] = [1, 2]" "[Suc 0 ..< 5] = [1, 2, 3, 4]"
  by (simp_all add: upt_conv_Cons eval_nat_numeral)

lemma append_u32_length [simp]: "length (append_u32 v) = 4"
  by (simp add: append_u32_def append_big_endian_def)

lemma append_u16_length [simp]: "length (append_u16 v) = 2"
  by (simp add: append_u16_def append_big_endian_def)

lemma low_byte: "w AND 0xFF = take_bit 8 w" for w :: "'a::len word"
  by (simp add: take_bit_eq_mask mask_eq_exp_minus_1)

lemmas wire_bits = low_byte bit_or_iff bit_push_bit_iff bit_unsigned_iff bit_take_bit_iff bit_drop_bit_eq

lemma append_u32_bytes:
  "append_u32 v = [ucast (drop_bit 24 v AND 0xFF), ucast (drop_bit 16 v AND 0xFF), ucast (drop_bit 8 v AND 0xFF),
     ucast (drop_bit 0 v AND 0xFF)]"
  by (simp add: append_u32_def append_big_endian_def upt_rows)

lemma append_u16_bytes: "append_u16 v = [ucast (drop_bit 8 v AND 0xFF), ucast (drop_bit 0 v AND 0xFF)]"
  by (simp add: append_u16_def append_big_endian_def upt_rows)

lemma read_append_u32: "read_u32_big_endian (append_u32 v) 0 = v"
proof (rule bit_word_eqI)
  fix n assume "n < LENGTH(32)"
  then consider "n < 8" | "8 \<le> n" "n < 16" | "16 \<le> n" "n < 24" | "24 \<le> n" "n < 32" by fastforce
  then show "bit (read_u32_big_endian (append_u32 v) 0) n = bit v n"
    unfolding read_u32_big_endian_def append_u32_bytes
    by cases (auto simp: wire_bits)
qed

lemma read_append_u16: "read_u16_big_endian (append_u16 v) 0 = v"
proof (rule bit_word_eqI)
  fix n assume "n < LENGTH(16)"
  then consider "n < 8" | "8 \<le> n" "n < 16" by fastforce
  then show "bit (read_u16_big_endian (append_u16 v) 0) n = bit v n"
    unfolding read_u16_big_endian_def append_u16_bytes
    by cases (auto simp: wire_bits)
qed

lemma read_u32_at: "length xs = k \<Longrightarrow> read_u32_big_endian (xs @ append_u32 v @ ys) k = v"
  using read_u32_drop [of k "xs @ append_u32 v @ ys" 0] by (simp add: read_append_u32)

lemma read_u16_at: "length xs = k \<Longrightarrow> read_u16_big_endian (xs @ append_u16 v @ ys) k = v"
  using read_u16_drop [of k "xs @ append_u16 v @ ys" 0] by (simp add: read_append_u16)

lemma next_frame_encoded:
  assumes "encode_frame f = Inr bs"
  shows "next_frame (bs @ ys) = Some (Inr (f, length bs))"
proof -
  let ?size = "of_nat (6 + length (frame_payload f)) :: u32"
  have known: "is_known_message_type (frame_type f)" and len: "length (frame_payload f) \<le> 65530"
    and bs: "bs = append_u32 ?size @ append_u16 (frame_type f) @ append_u32 (frame_request_id f) @ frame_payload f"
    using assms by (auto simp: encode_frame_def Let_def frame_sizes split: if_splits)
  have size: "unat ?size = 6 + length (frame_payload f)"
    using len by (simp add: unat_of_nat del: of_nat_add)
  have "read_u32_big_endian (bs @ ys) 0 = ?size" "read_u16_big_endian (bs @ ys) 4 = frame_type f"
    "read_u32_big_endian (bs @ ys) 6 = frame_request_id f"
    using read_u32_at [of "[]" 0 ?size] read_u16_at [of "append_u32 ?size" 4 "frame_type f"]
      read_u32_at [of "append_u32 ?size @ append_u16 (frame_type f)" 6 "frame_request_id f"]
    by (simp_all add: bs)
  moreover have "length (bs @ ys) = 10 + length (frame_payload f) + length ys"
    and "drop 10 (bs @ ys) = frame_payload f @ ys" and "length bs = 10 + length (frame_payload f)"
    by (simp_all add: bs)
  ultimately show ?thesis
    using known len by (simp add: next_frame_def Let_def size del: of_nat_add)
qed

lemma encoded_stream_drains:
  "list_all2 (\<lambda>f bs. encode_frame f = Inr bs) fs bss \<Longrightarrow> drains next_frame (concat bss) fs (None, [])"
proof (induction rule: list_all2_induct)
  case Nil
  show ?case by (auto intro: drains.wants_more simp: next_frame_def)
next
  case (Cons f fs bs bss)
  show ?case
    using drains.delivers [of next_frame "bs @ concat bss" f "length bs" fs "(None, [])"]
      next_frame_encoded [OF Cons(1), of "concat bss"] Cons(3) by simp
qed

text \<open>A reader that hands the decoder one received chunk after the other and stops at the first error.\<close>

fun feed :: "frame_decoder \<Rightarrow> bytes list \<Rightarrow> decode_result \<times> frame_decoder" where
  "feed d [] = (\<lparr>dr_frames = [], dr_error = None\<rparr>, d)"
| "feed d (c # cs) =
     (let (r, d1) = decoder_append d c
      in case dr_error r of
           Some e \<Rightarrow> (r, d1)
         | None \<Rightarrow> let (r', d2) = feed d1 cs in (r'\<lparr>dr_frames := dr_frames r @ dr_frames r'\<rparr>, d2))"

lemma feed_drains:
  "decoder_ok d \<Longrightarrow> next_frame (pending d) = None \<Longrightarrow> feed d cs = (r, d') \<Longrightarrow>
     drains next_frame (pending d @ concat cs) (dr_frames r) (dr_error r, pending d')"
proof (induction cs arbitrary: d r d')
  case Nil
  then show ?case by (auto intro: drains.wants_more)
next
  case (Cons c cs)
  obtain r1 d1 where step: "decoder_append d c = (r1, d1)" by fastforce
  note d1 = append_drains [OF Cons(2) step]
  show ?case
  proof (cases "dr_error r1")
    case (Some e)
    then show ?thesis
      using Cons(4) step codec.drains_rejected [OF d1(2), of e "pending d1" "concat cs"] by simp
  next
    case None
    obtain r2 d2 where rest: "feed d1 cs = (r2, d2)" by fastforce
    have "next_frame (pending d1) = None"
      using codec.drains_rest [OF d1(2)] None by simp
    from Cons(1) [OF d1(1) this rest] codec.drains_more [OF d1(2), of "pending d1" "concat cs"]
    show ?thesis using Cons(4) step rest None by auto
  qed
qed

lemma feed_fresh_drains:
  "feed fresh_decoder cs = (r, d) \<Longrightarrow> drains next_frame (concat cs) (dr_frames r) (dr_error r, pending d)"
  using feed_drains [of fresh_decoder cs r d] by (simp add: next_frame_def)

text \<open>
  C21: Frames survive the wire under any segmentation. When every frame of \<open>fs\<close> is encoded and the
  encodings are cut into chunks at arbitrary places, the decoder returns exactly those frames in
  order, reports no error, and keeps no byte.
\<close>

theorem frames_roundtrip:
  assumes "list_all2 (\<lambda>f bs. encode_frame f = Inr bs) fs bss" and "concat chunks = concat bss"
  shows "fst (feed fresh_decoder chunks) = \<lparr>dr_frames = fs, dr_error = None\<rparr> \<and>
    bufferedByteCount (snd (feed fresh_decoder chunks)) = 0"
proof -
  obtain r d where feed: "feed fresh_decoder chunks = (r, d)" by fastforce
  have "dr_frames r = fs \<and> (dr_error r, pending d) = (None, [])"
    using codec.drains_unique [OF encoded_stream_drains [OF assms(1)] feed_fresh_drains [OF feed, unfolded assms(2)]] .
  then show ?thesis by (simp add: feed length_pending)
qed

text \<open>
  C22: The segmentation of the input is invisible. Two chunkings of the same bytes give the same
  frames, the same error and the same unread bytes, malformed streams included.
\<close>

theorem chunking_irrelevant:
  assumes "concat cs = concat cs'"
  shows "fst (feed fresh_decoder cs) = fst (feed fresh_decoder cs') \<and>
    pending (snd (feed fresh_decoder cs)) = pending (snd (feed fresh_decoder cs'))"
proof -
  obtain r d r' d' where feeds: "feed fresh_decoder cs = (r, d)" "feed fresh_decoder cs' = (r', d')" by fastforce
  have "dr_frames r' = dr_frames r \<and> (dr_error r', pending d') = (dr_error r, pending d)"
    using codec.drains_unique [OF feed_fresh_drains [OF feeds(1)] feed_fresh_drains [OF feeds(2), folded assms]] .
  then show ?thesis by (simp add: feeds)
qed

text \<open>
  One call of \<open>append\<close> implements the stream specification: from any decoder whose offset is
  inside its buffer it delivers the frames of the unread bytes followed by the new ones, up to the
  first incomplete or malformed frame, and afterwards holds less than one maximal frame.
\<close>

lemma append_refines_stream:
  assumes "decoder_ok d" and "decoder_append d bytes = (res, d')"
  shows "drains next_frame (pending d @ bytes) (dr_frames res) (dr_error res, pending d') \<and>
    decoder_ok d' \<and> bufferedByteCount d' < unat MAX_FRAME_SIZE"
proof -
  note d' = append_drains [OF assms]
  have "length (pending d') < 65540"
  proof (cases "dr_error res")
    case None
    then show ?thesis using codec.drains_rest [OF d'(2)] next_frame_short by simp
  next
    case (Some e)
    then show ?thesis using drains_error [OF d'(2)] by simp
  qed
  with d' show ?thesis by (simp add: length_pending frame_sizes)
qed

text \<open>
  The encoder's contract on every branch. An unknown type is refused first, then a payload
  above 65530 bytes; every other frame is encoded in its payload's length plus ten bytes.
\<close>

lemma encode_frame_total:
  "case encode_frame f of
     Inl UnknownType \<Rightarrow> \<not> is_known_message_type (frame_type f)
   | Inl BodyExceedsMaximum \<Rightarrow> is_known_message_type (frame_type f) \<and> length (frame_payload f) > 65530
   | Inr bs \<Rightarrow> is_known_message_type (frame_type f) \<and> length (frame_payload f) \<le> 65530 \<and>
       length bs = 10 + length (frame_payload f) \<and> length bs \<le> unat MAX_FRAME_SIZE"
  by (auto simp: encode_frame_def Let_def frame_sizes)

section \<open>Two frames on the wire\<close>

definition ping_frame :: frame where
  "ping_frame = \<lparr>frame_type = message_code MtPing, frame_request_id = 7, frame_payload = [1, 2]\<rparr>"

definition ping_bytes :: bytes where
  "ping_bytes = [0, 0, 0, 8, 0, 1, 0, 0, 0, 7, 1, 2]"

definition ping_chunks :: "bytes list" where
  "ping_chunks = [[0, 0, 0], [8, 0, 1, 0, 0, 0, 7, 1, 2, 0, 0], [0, 8, 0, 1, 0, 0, 0, 7, 1, 2]]"

lemma ping_encoded: "list_all2 (\<lambda>f bs. encode_frame f = Inr bs) [ping_frame, ping_frame] [ping_bytes, ping_bytes]"
  by (simp add: encode_frame_def ping_frame_def ping_bytes_def is_known_message_type_def frame_sizes Let_def
      append_u32_bytes append_u16_bytes)

lemma ping_chunks_concat: "concat ping_chunks = concat [ping_bytes, ping_bytes]"
  by (simp add: ping_chunks_def ping_bytes_def)

theorem frames_roundtrip_witness:
  "list_all2 (\<lambda>f bs. encode_frame f = Inr bs) [ping_frame, ping_frame] [ping_bytes, ping_bytes] \<and>
   fst (feed fresh_decoder ping_chunks) = \<lparr>dr_frames = [ping_frame, ping_frame], dr_error = None\<rparr>"
  using frames_roundtrip [OF ping_encoded ping_chunks_concat] ping_encoded by simp

lemmas decoding = decoder_append_def decoder_push_def compactConsumedPrefix_def fresh_decoder_def tryDecodeNext_eq
  decoder_fail_def decoder_reset_def needs_more_def read_u32_big_endian_def read_u16_big_endian_def Let_def
  is_known_message_type_def

lemma short_body_decoded:
  "feed fresh_decoder [[0, 0], [0, 5, 9]] = (\<lparr>dr_frames = [], dr_error = Some InvalidBodyLength\<rparr>, fresh_decoder)"
  by (simp add: decoding decode_loop.simps)

theorem chunking_irrelevant_witness:
  "fst (feed fresh_decoder [[0, 0, 0, 5, 9]]) = \<lparr>dr_frames = [], dr_error = Some InvalidBodyLength\<rparr>"
  using chunking_irrelevant [of "[[0, 0], [0, 5, 9]]" "[[0, 0, 0, 5, 9]]"] short_body_decoded by simp

theorem append_refines_stream_witness:
  "drains next_frame (ping_bytes @ [0, 0]) [ping_frame] (None, [0, 0])"
proof -
  have run: "decoder_append fresh_decoder (ping_bytes @ [0, 0]) =
      (\<lparr>dr_frames = [ping_frame], dr_error = None\<rparr>, \<lparr>dec_buffer = [0, 0], read_offset = 0\<rparr>)"
    by (simp add: decoding decode_loop.simps ping_frame_def ping_bytes_def)
  show ?thesis
    using append_refines_stream [OF fresh_pending(2) run] by (simp add: pending_def [of "\<lparr>dec_buffer = _, read_offset = _\<rparr>"])
qed

end
