(* ===== verification/Identity.thy ===== *)
theory Identity
  imports SnF_Prelude
begin

text \<open>
  The identities of \<^verbatim>\<open>include/snf/worker/identity.hpp\<close>: actor keys, activations, operations and
  connections, the placement hash with the worker it selects, and the worker-local sequence
  counters; the connection handle of \<^verbatim>\<open>connection.hpp\<close>; and the charged envelope of
  \<^verbatim>\<open>actor_envelope.hpp\<close>, whose payload type is a parameter.
\<close>

unbundle bit_operations_syntax

section \<open>Identifiers\<close>

datatype actor_kind = ProvisionalPlayer | KindPlayer | KindZone | KindRoom

primrec actor_kind_code :: "actor_kind \<Rightarrow> u8" where
  "actor_kind_code ProvisionalPlayer = 0"
| "actor_kind_code KindPlayer = 1"
| "actor_kind_code KindZone = 2"
| "actor_kind_code KindRoom = 3"

type_synonym entity_id = u64
type_synonym worker_id = u16
type_synonym actor_incarnation = u64
type_synonym operation_id = u64
type_synonym connection_id = u32
type_synonym connection_generation = u64

definition incarnation_isValid :: "u64 \<Rightarrow> bool" where
  "incarnation_isValid v \<longleftrightarrow> v \<noteq> 0"

record actor_key =
  ak_kind :: actor_kind
  ak_entity :: entity_id

record activation_ref =
  ar_actor :: actor_key
  ar_incarnation :: actor_incarnation

record connection_ref =
  cr_id :: connection_id
  cr_generation :: connection_generation
  cr_owner :: worker_id

record connection_handle =
  ch_id :: connection_id
  ch_generation :: connection_generation

record await_key =
  aw_actor :: actor_key
  aw_incarnation :: actor_incarnation
  aw_operation :: operation_id

definition handle_isValid :: "connection_handle \<Rightarrow> bool" where
  "handle_isValid h \<longleftrightarrow> ch_generation h \<noteq> 0"

text \<open>What arrives late is dropped unless it names the current holder, \<^verbatim>\<open>include/snf/worker/stale.hpp\<close>.\<close>

definition acceptsCompletion :: "await_key \<Rightarrow> await_key \<Rightarrow> bool" where
  "acceptsCompletion arriving blocked \<longleftrightarrow> incarnation_isValid (aw_incarnation arriving) \<and> incarnation_isValid (aw_operation arriving) \<and>
     incarnation_isValid (aw_incarnation blocked) \<and> incarnation_isValid (aw_operation blocked) \<and> arriving = blocked"

definition acceptsActivationEvent :: "activation_ref \<Rightarrow> actor_incarnation \<Rightarrow> bool" where
  "acceptsActivationEvent event current \<longleftrightarrow> incarnation_isValid (ar_incarnation event) \<and> incarnation_isValid current \<and>
     ar_incarnation event = current"

definition acceptsConnectionAction :: "connection_ref \<Rightarrow> connection_generation \<Rightarrow> bool" where
  "acceptsConnectionAction target current \<longleftrightarrow> incarnation_isValid (cr_generation target) \<and> incarnation_isValid current \<and>
     cr_generation target = current"

section \<open>Placement\<close>

definition stableActorHash :: "actor_key \<Rightarrow> u64 \<Rightarrow> u64" where
  "stableActorHash key placement_seed =
     (let v = ak_entity key;
          v = v XOR (ucast (actor_kind_code (ak_kind key)) * 0x9e3779b97f4a7c15);
          v = v XOR placement_seed;
          v = v XOR drop_bit 30 v;
          v = v * 0xbf58476d1ce4e5b9;
          v = v XOR drop_bit 27 v;
          v = v * 0x94d049bb133111eb
      in v XOR drop_bit 31 v)"

definition actor_key_hash :: "actor_key \<Rightarrow> u64" where
  "actor_key_hash key = stableActorHash key 0"

text \<open>The assertion on the worker count is the \<open>None\<close> branch.\<close>

definition ownerOf :: "actor_key \<Rightarrow> u16 \<Rightarrow> u64 \<Rightarrow> worker_id option" where
  "ownerOf key worker_count placement_seed =
     (if worker_count = 0 then None
      else Some (ucast (stableActorHash key placement_seed mod ucast worker_count)))"

section \<open>Sequence counters\<close>

record sequence_source =
  seq_last :: u64

definition sequence_next :: "sequence_source \<Rightarrow> u64 \<times> sequence_source" where
  "sequence_next s = (let s' = s\<lparr>seq_last := seq_last s + 1\<rparr> in (seq_last s', s'))"

definition fresh_sequence :: sequence_source where
  "fresh_sequence = \<lparr>seq_last = 0\<rparr>"

fun sequence_take :: "nat \<Rightarrow> sequence_source \<Rightarrow> u64 list \<times> sequence_source" where
  "sequence_take 0 s = ([], s)"
| "sequence_take (Suc n) s =
     (let (v, s1) = sequence_next s; (vs, s2) = sequence_take n s1 in (v # vs, s2))"

section \<open>Envelopes\<close>

record 'p payload_model =
  pm_value :: 'p
  pm_tag :: u32
  pm_charge :: u64

type_synonym 'p actor_envelope = "'p payload_model option"

definition envelope_tag :: "'p actor_envelope \<Rightarrow> u32" where
  "envelope_tag e = (case e of None \<Rightarrow> 0 | Some m \<Rightarrow> pm_tag m)"

definition chargedBytes :: "'p actor_envelope \<Rightarrow> u64" where
  "chargedBytes e = (case e of None \<Rightarrow> 0 | Some m \<Rightarrow> pm_charge m)"

section \<open>The placement hash separates entities\<close>

lemma xorshift_bit: "bit (v XOR drop_bit k v) n \<longleftrightarrow> (bit v n \<noteq> bit v (n + k))" for v :: u64
  by (simp add: bit_simps add.commute)

lemma xorshift_inj:
  fixes v w :: u64
  assumes eq: "v XOR drop_bit k v = w XOR drop_bit k w" and k: "0 < k"
  shows "v = w"
proof (rule bit_word_eqI)
  have "bit v n = bit w n" for n
  proof (induction "64 - n" arbitrary: n rule: less_induct)
    case less
    show ?case
    proof (cases "n < 64")
      case True
      then have "bit v (n + k) = bit w (n + k)"
        using k by (intro less) simp
      moreover have "(bit v n \<noteq> bit v (n + k)) = (bit w n \<noteq> bit w (n + k))"
        using eq xorshift_bit by metis
      ultimately show ?thesis by blast
    qed (auto dest: bit_imp_le_length)
  qed
  then show "bit v n = bit w n" for n .
qed

lemma mult_unit_inj:
  fixes a b c d :: u64
  assumes "a * c = b * c" and "c * d = 1"
  shows "a = b"
proof -
  have "a * c * d = b * c * d" using assms(1) by simp
  then show ?thesis by (simp add: mult.assoc assms(2))
qed

lemma first_multiplier_inj: "a * 0xbf58476d1ce4e5b9 = b * 0xbf58476d1ce4e5b9 \<Longrightarrow> a = b" for a b :: u64
  by (erule mult_unit_inj [where d = "0x96de1b173f119089"]) simp

lemma second_multiplier_inj: "a * 0x94d049bb133111eb = b * 0x94d049bb133111eb \<Longrightarrow> a = b" for a b :: u64
  by (erule mult_unit_inj [where d = "0x319642b2d24d8ec3"]) simp

lemma xor_left_inj:
  fixes a b c :: u64
  assumes "a XOR c = b XOR c"
  shows "a = b"
proof -
  have "(a XOR c) XOR c = (b XOR c) XOR c" using assms by simp
  then show ?thesis by (simp add: xor.assoc)
qed

lemma hash_rounds_inj:
  fixes v w :: u64
  defines "r30 \<equiv> \<lambda>v. v XOR drop_bit 30 v" and "r27 \<equiv> \<lambda>v. v XOR drop_bit 27 v" and "r31 \<equiv> \<lambda>v. v XOR drop_bit 31 v"
  assumes "r31 (r27 (r30 v * 0xbf58476d1ce4e5b9) * 0x94d049bb133111eb) =
    r31 (r27 (r30 w * 0xbf58476d1ce4e5b9) * 0x94d049bb133111eb)"
  shows "v = w"
proof -
  have inj: "r30 a = r30 b \<Longrightarrow> a = b" "r27 a = r27 b \<Longrightarrow> a = b" "r31 a = r31 b \<Longrightarrow> a = b" for a b :: u64
    unfolding r30_def r27_def r31_def by (erule xorshift_inj, simp)+
  show ?thesis
    using assms(4) by (rule inj(1) [OF first_multiplier_inj [OF inj(2) [OF second_multiplier_inj [OF inj(3)]]]])
qed

text \<open>
  The placement hash never collides within a kind: for a fixed seed it is injective in the
  entity, so two players, zones or rooms with different identifiers have different hash-table keys.
\<close>

lemma stable_hash_injective:
  assumes "ak_kind k = ak_kind k'"
  shows "stableActorHash k seed = stableActorHash k' seed \<longleftrightarrow> k = (k' :: actor_key)"
proof
  assume "stableActorHash k seed = stableActorHash k' seed"
  then have "ak_entity k = ak_entity k'"
    unfolding stableActorHash_def Let_def assms by (rule xor_left_inj [OF xor_left_inj [OF hash_rounds_inj]])
  with assms show "k = k'" by simp
qed simp

theorem stable_hash_injective_witness:
  "stableActorHash \<lparr>ak_kind = KindRoom, ak_entity = 9\<rparr> 5 \<noteq> stableActorHash \<lparr>ak_kind = KindRoom, ak_entity = 10\<rparr> 5"
  by (subst stable_hash_injective) simp_all

text \<open>
  Placement picks an existing worker. With at least one worker the owner is defined, is below
  the worker count, and is the hash modulo the count; without workers there is none.
\<close>

lemma owner_in_range:
  "case ownerOf key n seed of
     None \<Rightarrow> n = 0
   | Some w \<Rightarrow> w < n \<and> unat w = unat (stableActorHash key seed) mod unat n"
proof (cases "n = 0")
  case False
  have n: "0 < unat n" "unat n < 65536"
    using False unsigned_less [of n, where ?'a = nat] by (auto simp: unat_gt_0)
  then have "unat (ucast n :: u64) = unat n"
    by (simp add: unat_ucast_mod)
  then have "unat (ucast (stableActorHash key seed mod ucast n) :: u16) = unat (stableActorHash key seed) mod unat n"
    using n less_trans [OF mod_less_divisor [of "unat n" "unat (stableActorHash key seed)"] n(2)]
    by (simp add: unat_ucast_mod unat_mod_distrib)
  with n False show ?thesis
    by (simp add: ownerOf_def word_less_nat_alt)
qed (simp add: ownerOf_def)

lemma sequence_take_values:
  "sequence_take n s = (map (\<lambda>i. seq_last s + of_nat (Suc i)) [0 ..< n], \<lparr>seq_last = seq_last s + of_nat n\<rparr>)"
proof (induction n arbitrary: s)
  case (Suc n)
  have "[0 ..< Suc n] = 0 # map Suc [0 ..< n]"
    by (simp add: upt_conv_Cons map_Suc_upt del: upt_Suc)
  with Suc show ?case
    by (simp add: sequence_next_def Let_def comp_def algebra_simps del: upt_Suc)
qed simp

text \<open>
  A sequence counter hands out valid and pairwise distinct identifiers for as long as fewer
  than 2^64 have been taken: they are the numbers from one upwards, and none is the zero that
  marks an invalid incarnation, operation or generation.
\<close>

lemma sequence_valid_distinct:
  assumes "n < 2 ^ 64"
  shows "map unat (fst (sequence_take n fresh_sequence)) = [1 ..< Suc n] \<and>
    distinct (fst (sequence_take n fresh_sequence)) \<and>
    list_all incarnation_isValid (fst (sequence_take n fresh_sequence))"
proof -
  have one: "map unat (fst (sequence_take n fresh_sequence)) = [1 ..< Suc n]"
    using assms
    by (intro nth_equalityI) (auto simp: sequence_take_values fresh_sequence_def unat_of_nat simp del: of_nat_Suc upt_Suc)
  have "distinct (map unat (fst (sequence_take n fresh_sequence)))"
    by (simp only: one distinct_upt)
  then have "distinct (fst (sequence_take n fresh_sequence))"
    by (simp only: distinct_map)
  moreover have "\<forall>v \<in> set (fst (sequence_take n fresh_sequence)). unat v \<noteq> 0"
    using one by (metis atLeastLessThan_iff image_eqI list.set_map not_one_le_zero set_upt)
  ultimately show ?thesis
    using one by (auto simp: list_all_iff incarnation_isValid_def)
qed

theorem sequence_valid_distinct_witness:
  "map unat (fst (sequence_take 4 fresh_sequence)) = [1, 2, 3, 4]"
  using sequence_valid_distinct [of 4] by (simp add: upt_rec)

section \<open>Poll tokens\<close>

text \<open>The 64-bit cookie of \<^verbatim>\<open>include/snf/worker/poll_token.hpp\<close> that epoll carries for a registration.\<close>

definition MAX_POLL_INDEX :: u32 where "MAX_POLL_INDEX = 0xFFFFFF"

record poll_token =
  pt_kind :: u8
  pt_index :: u32
  pt_generation :: u32

definition encodePollToken :: "u8 \<Rightarrow> u32 \<Rightarrow> u32 \<Rightarrow> u64 option" where
  "encodePollToken kind index generation =
     (if index \<le> MAX_POLL_INDEX
      then Some (push_bit 56 (ucast kind) OR push_bit 32 (ucast index) OR ucast generation)
      else None)"

definition decodePollToken :: "u64 \<Rightarrow> poll_token" where
  "decodePollToken raw =
     \<lparr>pt_kind = ucast (drop_bit 56 raw AND 0xFF), pt_index = ucast (drop_bit 32 raw AND 0xFFFFFF),
      pt_generation = ucast (raw AND 0xFFFFFFFF)\<rparr>"

lemma low_bits:
  fixes w :: u64
  shows "w AND 0xFF = take_bit 8 w" "w AND 0xFFFFFF = take_bit 24 w" "w AND 0xFFFFFFFF = take_bit 32 w"
  by (simp_all add: take_bit_eq_mask mask_eq_exp_minus_1)

lemma small_index_bit:
  fixes i :: u32
  assumes "i \<le> MAX_POLL_INDEX"
  shows "bit i n \<Longrightarrow> n < 24"
proof -
  have "unat i < 2 ^ 24" using assms by (simp add: MAX_POLL_INDEX_def word_le_nat_alt)
  then have "unat (take_bit 24 i) = unat i" by (simp add: unsigned_take_bit_eq take_bit_nat_eq_self)
  then have "take_bit 24 i = i" by (simp add: word_unat_eq_iff)
  then show "bit i n \<Longrightarrow> n < 24" by (metis bit_take_bit_iff)
qed

lemma decode_encoded_token:
  fixes k :: u8 and i g :: u32
  defines "raw \<equiv> push_bit 56 (ucast k) OR push_bit 32 (ucast i) OR ucast g :: u64"
  assumes i: "\<And>n. bit i n \<Longrightarrow> n < 24"
  shows "decodePollToken raw = \<lparr>pt_kind = k, pt_index = i, pt_generation = g\<rparr>"
proof -
  have small: "\<not> bit k n" if "8 \<le> n" for n using that bit_imp_le_length [of k n] by auto
  have "ucast (take_bit 8 (drop_bit 56 raw)) = k"
    by (rule bit_word_eqI) (auto simp: raw_def bit_simps dest: i bit_imp_le_length)
  moreover have "ucast (take_bit 24 (drop_bit 32 raw)) = i"
    by (rule bit_word_eqI) (auto simp: raw_def bit_simps dest: i bit_imp_le_length)
  moreover have "ucast (take_bit 32 raw) = g"
    by (rule bit_word_eqI) (auto simp: raw_def bit_simps)
  ultimately show ?thesis by (simp add: decodePollToken_def low_bits)
qed

text \<open>
  A poll token carries its kind, index and generation unchanged whenever the index respects
  its 24-bit bound, and the encoder refuses every other index.
\<close>

lemma poll_token_roundtrip:
  "case encodePollToken k i g of
     None \<Rightarrow> i > MAX_POLL_INDEX
   | Some raw \<Rightarrow> decodePollToken raw = \<lparr>pt_kind = k, pt_index = i, pt_generation = g\<rparr>"
  using small_index_bit [of i] by (auto simp: encodePollToken_def intro!: decode_encoded_token)

section \<open>Generations keep stale handles out\<close>

text \<open>
  A table whose entries carry ever larger generations. \<open>present s h\<close>: handle \<open>h\<close> finds an entry;
  \<open>newest s\<close>: the last generation given out. An entry that appears in a step has a generation of that
  step, so a handle that has been given out and no longer finds its entry never finds one again.
\<close>

locale generational =
  fixes step :: "'s \<Rightarrow> 'c \<Rightarrow> 'r \<times> 's"
    and inv :: "'s \<Rightarrow> bool"
    and present :: "'s \<Rightarrow> 'h \<Rightarrow> bool"
    and generation :: "'h \<Rightarrow> nat"
    and newest :: "'s \<Rightarrow> nat"
  assumes keeps: "inv s \<Longrightarrow> inv (snd (step s c))"
    and grows: "inv s \<Longrightarrow> newest s \<le> newest (snd (step s c))"
    and appears: "inv s \<Longrightarrow> present (snd (step s c)) h \<Longrightarrow> present s h \<or> newest s < generation h"
begin

lemma stale_step: "inv s \<Longrightarrow> generation h \<le> newest s \<Longrightarrow> \<not> present s h \<Longrightarrow>
    generation h \<le> newest (snd (step s c)) \<and> \<not> present (snd (step s c)) h"
  using grows [of s c] appears [of s c h] by auto

lemma stale_forever:
  "inv s \<Longrightarrow> generation h \<le> newest s \<Longrightarrow> \<not> present s h \<Longrightarrow> \<not> present (snd (run step s cs)) h"
  using keeps stale_step by (induction cs arbitrary: s) simp_all

end

end
