(* ===== verification/Connection.thy ===== *)
theory Connection
  imports Identity Frame_Codec
begin

text \<open>
  One connection of a worker, from \<^verbatim>\<open>include/snf/worker/connection.hpp\<close> and
  \<^verbatim>\<open>src/worker/connection.cpp\<close>: the byte-owned write buffer with its soft and hard limits, and the
  slot that holds it together with the decoder and the closing state. Sizes (\<open>size_t\<close>) are \<^typ>\<open>nat\<close>. The
  socket is its descriptor number, \<open>-1\<close> when invalid.
\<close>

section \<open>The write buffer\<close>

datatype connection_state = ConnOpen | ConnClosing

datatype send_result = SendAccepted | SoftLimit | HardLimit | SendClosing | SendStale | SendRejected

record connection_limits =
  max_read_buffer_bytes :: nat
  write_soft_watermark_bytes :: nat
  write_hard_limit_bytes :: nat
  close_drain_deadline :: millis

definition default_connection_limits :: connection_limits where
  "default_connection_limits =
     \<lparr>max_read_buffer_bytes = 512 * 1024, write_soft_watermark_bytes = 1024 * 1024,
      write_hard_limit_bytes = 4 * 1024 * 1024, close_drain_deadline = 2000\<rparr>"

record pending_frame =
  pf_bytes :: bytes
  pf_offset :: nat

record write_buffer =
  soft_watermark :: nat
  hard_limit :: nat
  wb_frames :: "pending_frame list"
  queued_bytes :: nat

datatype connection_error = InvalidWatermarks | WrittenBeyondFrame | InvalidSlot

definition make_write_buffer :: "nat \<Rightarrow> nat \<Rightarrow> connection_error + write_buffer" where
  "make_write_buffer soft hard =
     (if soft = 0 \<or> hard = 0 \<or> soft > hard then Inl InvalidWatermarks
      else Inr \<lparr>soft_watermark = soft, hard_limit = hard, wb_frames = [], queued_bytes = 0\<rparr>)"

definition wb_append :: "write_buffer \<Rightarrow> frame \<Rightarrow> bool \<Rightarrow> send_result \<times> write_buffer" where
  "wb_append wb f critical =
     (case encode_frame f of
        Inl e \<Rightarrow> (SendRejected, wb)
      | Inr encoded \<Rightarrow>
          if length encoded > hard_limit wb \<or> queued_bytes wb > hard_limit wb - length encoded then (HardLimit, wb)
          else if \<not> critical \<and>
            (length encoded > soft_watermark wb \<or> queued_bytes wb > soft_watermark wb - length encoded)
          then (SoftLimit, wb)
          else (SendAccepted,
                wb\<lparr>wb_frames := wb_frames wb @ [\<lparr>pf_bytes = encoded, pf_offset = 0\<rparr>],
                   queued_bytes := queued_bytes wb + length encoded\<rparr>))"

definition frontBytes :: "write_buffer \<Rightarrow> bytes" where
  "frontBytes wb = (case wb_frames wb of [] \<Rightarrow> [] | p # _ \<Rightarrow> drop (pf_offset p) (pf_bytes p))"

definition wb_consume :: "write_buffer \<Rightarrow> nat \<Rightarrow> connection_error + bool \<times> write_buffer" where
  "wb_consume wb byte_count =
     (case wb_frames wb of
        [] \<Rightarrow> Inl WrittenBeyondFrame
      | p # ps \<Rightarrow>
          if byte_count > length (frontBytes wb) then Inl WrittenBeyondFrame
          else let p' = p\<lparr>pf_offset := pf_offset p + byte_count\<rparr>;
                   left = queued_bytes wb - byte_count
               in if pf_offset p' = length (pf_bytes p')
                  then Inr (True, wb\<lparr>wb_frames := ps, queued_bytes := left\<rparr>)
                  else Inr (False, wb\<lparr>wb_frames := p' # ps, queued_bytes := left\<rparr>))"

definition wb_clear :: "write_buffer \<Rightarrow> write_buffer" where
  "wb_clear wb = wb\<lparr>wb_frames := [], queued_bytes := 0\<rparr>"

section \<open>The slot\<close>

datatype close_reason =
  CloseShutdown | ProtocolViolation | SlowConsumer | PeerClosed | CloseTimeout | IoError | Overload | CloseApplication

record connection_slot =
  cs_socket :: int
  cs_reference :: connection_ref
  cs_state :: connection_state
  cs_close_deadline :: time_point
  cs_close_reason :: close_reason
  cs_read_queued :: bool
  cs_write_queued :: bool
  cs_waiting_epollout :: bool
  cs_decoder :: frame_decoder
  cs_write_buffer :: write_buffer
  cs_max_read_buffer_bytes :: nat

definition fd_isValid :: "int \<Rightarrow> bool" where
  "fd_isValid fd \<longleftrightarrow> fd \<noteq> -1"

definition make_connection_slot ::
  "int \<Rightarrow> connection_ref \<Rightarrow> connection_limits \<Rightarrow> connection_error + connection_slot" where
  "make_connection_slot socket reference limits =
     (case make_write_buffer (write_soft_watermark_bytes limits) (write_hard_limit_bytes limits) of
        Inl e \<Rightarrow> Inl e
      | Inr wb \<Rightarrow>
          if \<not> fd_isValid socket \<or> cr_generation reference = 0 \<or> max_read_buffer_bytes limits = 0 \<or>
             close_drain_deadline limits < 0
          then Inl InvalidSlot
          else Inr \<lparr>cs_socket = socket, cs_reference = reference, cs_state = ConnOpen, cs_close_deadline = 0,
                    cs_close_reason = CloseShutdown, cs_read_queued = False, cs_write_queued = False, cs_waiting_epollout = False,
                    cs_decoder = fresh_decoder, cs_write_buffer = wb,
                    cs_max_read_buffer_bytes = max_read_buffer_bytes limits\<rparr>)"

definition slot_handle :: "connection_slot \<Rightarrow> connection_handle" where
  "slot_handle s = \<lparr>ch_id = cr_id (cs_reference s), ch_generation = cr_generation (cs_reference s)\<rparr>"

definition beginClosing :: "connection_slot \<Rightarrow> time_point \<Rightarrow> close_reason \<Rightarrow> connection_slot" where
  "beginClosing s deadline reason =
     s\<lparr>cs_state := ConnClosing, cs_close_deadline := deadline, cs_close_reason := reason,
       cs_decoder := decoder_reset (cs_decoder s)\<rparr>"

definition slot_bufferedByteCount :: "connection_slot \<Rightarrow> nat" where
  "slot_bufferedByteCount s = bufferedByteCount (cs_decoder s)"

definition canBuffer :: "connection_slot \<Rightarrow> nat \<Rightarrow> bool" where
  "canBuffer s byte_count \<longleftrightarrow>
     byte_count \<le> cs_max_read_buffer_bytes s \<and>
     slot_bufferedByteCount s \<le> cs_max_read_buffer_bytes s - byte_count"

definition resetReadBuffer :: "connection_slot \<Rightarrow> connection_slot" where
  "resetReadBuffer s = s\<lparr>cs_decoder := decoder_reset (cs_decoder s)\<rparr>"

definition appendFrame :: "connection_slot \<Rightarrow> frame \<Rightarrow> bool \<Rightarrow> send_result \<times> connection_slot" where
  "appendFrame s f critical =
     (if cs_state s = ConnClosing then (SendClosing, s)
      else let (r, wb) = wb_append (cs_write_buffer s) f critical in (r, s\<lparr>cs_write_buffer := wb\<rparr>))"

definition consumeWrittenBytes :: "connection_slot \<Rightarrow> nat \<Rightarrow> connection_error + bool \<times> connection_slot" where
  "consumeWrittenBytes s byte_count =
     (case wb_consume (cs_write_buffer s) byte_count of
        Inl e \<Rightarrow> Inl e
      | Inr (finished, wb) \<Rightarrow> Inr (finished, s\<lparr>cs_write_buffer := wb\<rparr>))"

definition clearWriteBuffer :: "connection_slot \<Rightarrow> connection_slot" where
  "clearWriteBuffer s = s\<lparr>cs_write_buffer := wb_clear (cs_write_buffer s)\<rparr>"

definition remoteSendCharge :: "frame \<Rightarrow> u32" where
  "remoteSendCharge f =
     (let wire_size = ucast (FRAME_LENGTH_FIELD_SIZE + MIN_BODY_SIZE) + of_nat (length (frame_payload f)) :: u64
      in ucast wire_size)"

section \<open>What the buffer holds\<close>

definition unsent :: "pending_frame \<Rightarrow> bytes" where
  "unsent p = drop (pf_offset p) (pf_bytes p)"

definition wire :: "write_buffer \<Rightarrow> bytes" where
  "wire wb = concat (map unsent (wb_frames wb))"

definition wb_ok :: "write_buffer \<Rightarrow> bool" where
  "wb_ok wb \<longleftrightarrow>
     0 < soft_watermark wb \<and> soft_watermark wb \<le> hard_limit wb \<and>
     list_all (\<lambda>p. pf_offset p < length (pf_bytes p)) (wb_frames wb) \<and>
     queued_bytes wb = length (wire wb) \<and> queued_bytes wb \<le> hard_limit wb"

lemma encode_frame_nonempty: "encode_frame f = Inr bs \<Longrightarrow> bs \<noteq> []"
  by (auto simp: encode_frame_def Let_def append_u32_def append_big_endian_def split: if_splits)

lemma made_buffer_ok: "make_write_buffer soft hard = Inr wb \<Longrightarrow> wb_ok wb \<and> wire wb = []"
  by (auto simp: make_write_buffer_def wb_ok_def wire_def split: if_splits)

lemma wb_append_effect:
  assumes "wb_ok wb" and "wb_append wb f critical = (r, wb')"
  shows "wb_ok wb' \<and>
    (if r = SendAccepted then \<exists>bs. encode_frame f = Inr bs \<and> wire wb' = wire wb @ bs else wb' = wb)"
  using assms encode_frame_nonempty [of f]
  by (auto simp: wb_append_def wb_ok_def wire_def unsent_def split: sum.splits if_splits)

lemma wb_consume_effect:
  assumes "wb_ok wb" and "wb_consume wb n = Inr (finished, wb')"
  shows "wb_ok wb' \<and> take n (frontBytes wb) @ wire wb' = wire wb \<and> n \<le> length (frontBytes wb) \<and>
    (finished \<longrightarrow> length (wb_frames wb') < length (wb_frames wb))"
proof (cases "wb_frames wb")
  case Nil
  with assms show ?thesis by (simp add: wb_consume_def)
next
  case (Cons p ps)
  have n: "pf_offset p + n \<le> length (pf_bytes p)" "pf_offset p < length (pf_bytes p)"
    using assms Cons by (auto simp: wb_consume_def frontBytes_def wb_ok_def Let_def split: if_splits)
  have split: "unsent p = take n (unsent p) @ drop (pf_offset p + n) (pf_bytes p)"
    by (metis append_take_drop_id add.commute drop_drop unsent_def)
  have front: "frontBytes wb = unsent p" using Cons by (simp add: frontBytes_def unsent_def)
  have out: "wb' = wb\<lparr>wb_frames := (if finished then ps else p\<lparr>pf_offset := pf_offset p + n\<rparr> # ps),
      queued_bytes := queued_bytes wb - n\<rparr>" "finished \<longleftrightarrow> pf_offset p + n = length (pf_bytes p)"
    using assms(2) Cons by (auto simp: wb_consume_def Let_def split: if_splits)
  have "wire wb = take n (unsent p) @ wire wb'"
    using Cons n split by (cases finished) (auto simp: wire_def out unsent_def)
  moreover have "length (take n (unsent p)) = n" using n by (simp add: unsent_def)
  ultimately show ?thesis
    using assms(1) Cons n out front by (cases finished) (auto simp: wb_ok_def unsent_def)
qed

section \<open>Sending through partial writes\<close>

text \<open>
  The owner's use of the buffer: it queues frames, and after each successful \<open>send\<close> of a prefix
  of \<open>frontBytes\<close> it consumes the bytes the kernel took.
\<close>

datatype wire_op = OpSend frame bool | OpWrote nat

datatype wire_event = EvSend frame send_result | EvWrote bytes | EvFailed connection_error

fun wire_step :: "write_buffer \<Rightarrow> wire_op \<Rightarrow> wire_event \<times> write_buffer" where
  "wire_step wb (OpSend f critical) = (let (r, wb') = wb_append wb f critical in (EvSend f r, wb'))"
| "wire_step wb (OpWrote n) =
     (case wb_consume wb n of
        Inl e \<Rightarrow> (EvFailed e, wb)
      | Inr (finished, wb') \<Rightarrow> (EvWrote (take n (frontBytes wb)), wb'))"

fun accepted_frames :: "wire_event list \<Rightarrow> frame list" where
  "accepted_frames [] = []"
| "accepted_frames (EvSend f r # evs) = (if r = SendAccepted then f # accepted_frames evs else accepted_frames evs)"
| "accepted_frames (_ # evs) = accepted_frames evs"

fun sent_chunks :: "wire_event list \<Rightarrow> bytes list" where
  "sent_chunks [] = []"
| "sent_chunks (EvWrote bs # evs) = bs # sent_chunks evs"
| "sent_chunks (_ # evs) = sent_chunks evs"

lemma wire_step_cases:
  assumes "wb_ok wb" and "wire_step wb op = (ev, wb')"
  shows "wb_ok wb' \<and>
    (case ev of
       EvSend f r \<Rightarrow> (if r = SendAccepted then \<exists>bs. encode_frame f = Inr bs \<and> wire wb' = wire wb @ bs else wb' = wb)
     | EvWrote bs \<Rightarrow> bs @ wire wb' = wire wb
     | EvFailed e \<Rightarrow> wb' = wb)"
proof (cases op)
  case (OpSend f critical)
  obtain r wb1 where "wb_append wb f critical = (r, wb1)" by fastforce
  with wb_append_effect [OF assms(1) this] assms(2) OpSend show ?thesis by auto
next
  case (OpWrote n)
  show ?thesis
  proof (cases "wb_consume wb n")
    case (Inl e)
    with assms OpWrote show ?thesis by auto
  next
    case (Inr out)
    obtain finished wb1 where "out = (finished, wb1)" by (cases out)
    with wb_consume_effect [OF assms(1)] Inr assms(2) OpWrote show ?thesis by auto
  qed
qed

interpretation sender: invariant_machine wire_step "\<lambda>op. True" wb_ok
  using wire_step_cases by unfold_locales (metis prod.collapse)

lemma wire_run:
  "wb_ok wb \<Longrightarrow> run wire_step wb ops = (evs, wb') \<Longrightarrow>
     \<exists>bss. list_all2 (\<lambda>f bs. encode_frame f = Inr bs) (accepted_frames evs) bss \<and>
       concat (sent_chunks evs) @ wire wb' = wire wb @ concat bss"
proof (induction ops arbitrary: wb evs)
  case Nil
  then show ?case by (auto simp: run.simps intro!: exI [of _ "[]"])
next
  case (Cons op ops)
  obtain ev wb1 where step: "wire_step wb op = (ev, wb1)" by fastforce
  obtain evs1 where rest: "run wire_step wb1 ops = (evs1, wb')" and evs: "evs = ev # evs1"
    using Cons(3) step by (auto simp: run.simps split: prod.splits)
  note eff = wire_step_cases [OF Cons(2) step]
  obtain bss where bss: "list_all2 (\<lambda>f bs. encode_frame f = Inr bs) (accepted_frames evs1) bss"
    "concat (sent_chunks evs1) @ wire wb' = wire wb1 @ concat bss"
    using Cons(1) [OF _ rest] eff by blast
  show ?case
  proof (cases "\<exists>f. ev = EvSend f SendAccepted")
    case True
    then obtain f bs where "ev = EvSend f SendAccepted" "encode_frame f = Inr bs" "wire wb1 = wire wb @ bs"
      using eff by auto
    then show ?thesis using bss evs by (intro exI [of _ "bs # bss"]) simp
  next
    case False
    have acc: "accepted_frames evs = accepted_frames evs1" using False evs by (cases ev) auto
    have "concat (sent_chunks evs) @ wire wb' = wire wb @ concat bss"
      using False evs eff bss(2) by (cases ev) (auto simp: append.assoc [symmetric] split: if_splits)
    with acc bss(1) show ?thesis by auto
  qed
qed

text \<open>
  C23: What a connection accepts is what its peer decodes. Take any sequence of sends and partial
  writes on a fresh write buffer, cut the written bytes into any chunks, and feed them to a decoder:
  it reports no error and yields, in order, a prefix of the accepted frames. Once the buffer is
  empty it has yielded all of them and holds no byte.
\<close>

theorem accepted_frames_reach_peer:
  assumes "make_write_buffer soft hard = Inr wb" and "run wire_step wb ops = (evs, wb')"
    and "concat chunks = concat (sent_chunks evs)" and "feed fresh_decoder chunks = (res, d)"
  shows "dr_error res = None \<and> (\<exists>later. accepted_frames evs = dr_frames res @ later) \<and>
    (wb_frames wb' = [] \<longrightarrow> dr_frames res = accepted_frames evs \<and> bufferedByteCount d = 0)"
proof -
  have wb: "wb_ok wb" "wire wb = []" using made_buffer_ok [OF assms(1)] by simp_all
  obtain bss where "list_all2 (\<lambda>f bs. encode_frame f = Inr bs) (accepted_frames evs) bss"
    and all: "concat chunks @ wire wb' = concat bss"
    using wire_run [OF wb(1) assms(2)] wb(2) assms(3) by auto
  then have whole: "drains next_frame (concat chunks @ wire wb') (accepted_frames evs) (None, [])"
    using encoded_stream_drains by simp
  note part = feed_fresh_drains [OF assms(4)]
  obtain later where later: "dr_error res = None" "accepted_frames evs = dr_frames res @ later"
    "drains next_frame (pending d @ wire wb') later (None, [])"
    using codec.drains_prefix [OF whole part] by blast
  moreover have "dr_frames res = accepted_frames evs \<and> bufferedByteCount d = 0" if "wb_frames wb' = []"
  proof -
    have "wire wb' = []" using that by (simp add: wire_def)
    then show ?thesis using codec.drains_unique [OF whole] part later(1) by (auto simp: length_pending)
  qed
  ultimately show ?thesis by blast
qed

text \<open>
  The write buffer's counter is exact and bounded: after any sequence of sends and writes it
  equals the bytes still to be sent and does not exceed the hard limit, and every queued frame has
  bytes left.
\<close>

lemma write_buffer_bounded:
  assumes "make_write_buffer soft hard = Inr wb"
  shows "wb_ok (snd (run wire_step wb ops))"
  using made_buffer_ok [OF assms] by (intro sender.run_inv) (simp_all add: list_all_iff)

text \<open>
  Limits on every branch of a send. An invalid frame is rejected, a frame that would pass the
  hard limit is refused whoever sends it, one that would pass only the soft watermark is refused
  unless critical, and a refusal changes nothing.
\<close>

lemma send_limits:
  assumes "wb_ok wb"
  shows "case wb_append wb f critical of
     (r, wb') \<Rightarrow>
       (case encode_frame f of
          Inl e \<Rightarrow> r = SendRejected \<and> wb' = wb
        | Inr bs \<Rightarrow>
            r = (if queued_bytes wb + length bs > hard_limit wb then HardLimit
                 else if \<not> critical \<and> queued_bytes wb + length bs > soft_watermark wb then SoftLimit
                 else SendAccepted) \<and>
            (if r = SendAccepted then wire wb' = wire wb @ bs \<and> queued_bytes wb' = queued_bytes wb + length bs
             else wb' = wb))"
  using assms
  by (auto simp: wb_append_def wire_def unsent_def wb_ok_def split: sum.splits)

section \<open>One frame in two writes\<close>

definition demo_buffer :: write_buffer where
  "demo_buffer = \<lparr>soft_watermark = 20, hard_limit = 30, wb_frames = [], queued_bytes = 0\<rparr>"

lemma demo_buffer_made: "make_write_buffer 20 30 = Inr demo_buffer"
  by (simp add: make_write_buffer_def demo_buffer_def)

lemma ping_encode: "encode_frame ping_frame = Inr ping_bytes"
  using ping_encoded by simp

lemmas sending = wb_append_def wb_consume_def frontBytes_def demo_buffer_def ping_encode ping_bytes_def Let_def

definition demo_ops :: "wire_op list" where
  "demo_ops = [OpSend ping_frame False, OpWrote 5]"

lemma demo_run:
  "run wire_step demo_buffer demo_ops =
     ([EvSend ping_frame SendAccepted, EvWrote [0, 0, 0, 8, 0]],
      demo_buffer\<lparr>wb_frames := [\<lparr>pf_bytes = ping_bytes, pf_offset = 5\<rparr>], queued_bytes := 7\<rparr>)"
  by (simp add: sending demo_ops_def run.simps)

theorem accepted_frames_reach_peer_witness:
  "dr_error (fst (feed fresh_decoder [[0, 0], [0, 8, 0]])) = None"
proof -
  obtain res d where feed: "feed fresh_decoder [[0, 0], [0, 8, 0]] = (res, d)" by fastforce
  show ?thesis
    unfolding feed using accepted_frames_reach_peer [OF demo_buffer_made demo_run _ feed] by simp
qed

theorem write_buffer_bounded_witness:
  "wb_ok (snd (run wire_step demo_buffer demo_ops))"
  by (rule write_buffer_bounded [OF demo_buffer_made])

theorem send_limits_witness:
  "fst (wb_append demo_buffer ping_frame False) = SendAccepted"
  using send_limits [of demo_buffer, where f = ping_frame and critical = False] made_buffer_ok [OF demo_buffer_made]
  by (simp add: ping_encode case_prod_beta) (simp add: ping_bytes_def demo_buffer_def)

end
