(* ===== verification/Connection_Table.thy ===== *)
theory Connection_Table
  imports Connection "HOL-Library.Code_Target_Nat"
begin

text \<open>
  The worker's table of connections, from \<^verbatim>\<open>include/snf/worker/connection_table.hpp\<close> and
  \<^verbatim>\<open>src/worker/connection_table.cpp\<close>: slots that are free, reserved or committed, generations that make
  handles unique, and the reservation objects whose destruction rolls a slot back.
\<close>

section \<open>State and operations\<close>

record table_slot =
  tsl_connection :: "connection_slot option"
  tsl_reserved :: bool
  tsl_committed :: bool

record connection_table =
  ct_slots :: "table_slot list"
  ct_limits :: connection_limits
  ct_generations :: sequence_source
  ct_reserved_count :: nat
  ct_active_count :: nat

record ct_reservation =
  rv_index :: nat
  rv_handle :: connection_handle
  rv_attached :: bool
  rv_committed :: bool

datatype table_error =
  InvalidTableConfig | InvalidSocket | GenerationExhausted | SlotFailed connection_error

definition free_slot :: table_slot where
  "free_slot = \<lparr>tsl_connection = None, tsl_reserved = False, tsl_committed = False\<rparr>"

definition validatedConnectionCapacity :: "nat \<Rightarrow> connection_limits \<Rightarrow> table_error + nat" where
  "validatedConnectionCapacity capacity limits =
     (if capacity = 0 \<or> capacity > unat MAX_POLL_INDEX + 1 \<or> max_read_buffer_bytes limits = 0 \<or>
         write_soft_watermark_bytes limits = 0 \<or> write_hard_limit_bytes limits = 0 \<or>
         write_soft_watermark_bytes limits > write_hard_limit_bytes limits \<or> close_drain_deadline limits < 0
      then Inl InvalidTableConfig else Inr capacity)"

definition make_connection_table :: "nat \<Rightarrow> connection_limits \<Rightarrow> table_error + connection_table" where
  "make_connection_table capacity limits =
     (case validatedConnectionCapacity capacity limits of
        Inl e \<Rightarrow> Inl e
      | Inr n \<Rightarrow> Inr \<lparr>ct_slots = replicate n free_slot, ct_limits = limits, ct_generations = fresh_sequence,
                       ct_reserved_count = 0, ct_active_count = 0\<rparr>)"

definition ct_hasCapacity :: "connection_table \<Rightarrow> bool" where
  "ct_hasCapacity t \<longleftrightarrow> ct_reserved_count t + ct_active_count t < length (ct_slots t)"

definition ct_availableCount :: "connection_table \<Rightarrow> nat" where
  "ct_availableCount t = length (ct_slots t) - ct_reserved_count t - ct_active_count t"

definition nextGeneration :: "connection_table \<Rightarrow> table_error + connection_generation \<times> connection_table" where
  "nextGeneration t =
     (if seq_last (ct_generations t) = UINT64_MAX then Inl GenerationExhausted
      else let (g, src) = sequence_next (ct_generations t) in Inr (g, t\<lparr>ct_generations := src\<rparr>))"

fun first_free :: "table_slot list \<Rightarrow> nat option" where
  "first_free [] = None"
| "first_free (s # ss) =
     (if tsl_reserved s \<or> tsl_committed s then map_option Suc (first_free ss) else Some 0)"

definition ct_tryReserve ::
  "connection_table \<Rightarrow> int \<Rightarrow> worker_id \<Rightarrow> (table_error + ct_reservation option) \<times> connection_table" where
  "ct_tryReserve t socket owner =
     (if \<not> fd_isValid socket then (Inl InvalidSocket, t)
      else if \<not> ct_hasCapacity t then (Inr None, t)
      else case first_free (ct_slots t) of
             None \<Rightarrow> (Inr None, t)
           | Some index \<Rightarrow>
               (case nextGeneration t of
                  Inl e \<Rightarrow> (Inl e, t)
                | Inr (generation, t1) \<Rightarrow>
                    let reference = \<lparr>cr_id = of_nat index, cr_generation = generation, cr_owner = owner\<rparr>
                    in case make_connection_slot socket reference (ct_limits t1) of
                         Inl e \<Rightarrow> (Inl (SlotFailed e), t1)
                       | Inr c \<Rightarrow>
                           (Inr (Some \<lparr>rv_index = index,
                                       rv_handle = \<lparr>ch_id = cr_id reference, ch_generation = cr_generation reference\<rparr>,
                                       rv_attached = True, rv_committed = False\<rparr>),
                            t1\<lparr>ct_slots := (ct_slots t1)[index :=
                                 \<lparr>tsl_connection = Some c, tsl_reserved = True, tsl_committed = False\<rparr>],
                               ct_reserved_count := ct_reserved_count t1 + 1\<rparr>)))"

definition reservation_commit :: "ct_reservation \<Rightarrow> connection_table \<Rightarrow> ct_reservation \<times> connection_table" where
  "reservation_commit r t =
     (if \<not> rv_attached r \<or> rv_committed r then (r, t)
      else (r\<lparr>rv_committed := True\<rparr>,
            t\<lparr>ct_slots := (ct_slots t)[rv_index r :=
                 (ct_slots t ! rv_index r)\<lparr>tsl_reserved := False, tsl_committed := True\<rparr>],
              ct_reserved_count := ct_reserved_count t - 1, ct_active_count := ct_active_count t + 1\<rparr>))"

definition table_rollback :: "connection_table \<Rightarrow> nat \<Rightarrow> connection_table" where
  "table_rollback t index =
     (let s = ct_slots t ! index
      in if \<not> tsl_reserved s \<or> tsl_committed s then t
         else t\<lparr>ct_slots := (ct_slots t)[index := s\<lparr>tsl_connection := None, tsl_reserved := False\<rparr>],
                ct_reserved_count := ct_reserved_count t - 1\<rparr>)"

definition reservation_rollback :: "ct_reservation \<Rightarrow> connection_table \<Rightarrow> ct_reservation \<times> connection_table" where
  "reservation_rollback r t =
     (if \<not> rv_attached r \<or> rv_committed r then (r, t)
      else (r\<lparr>rv_attached := False\<rparr>, table_rollback t (rv_index r)))"

definition ct_find :: "connection_table \<Rightarrow> connection_handle \<Rightarrow> connection_slot option" where
  "ct_find t h =
     (if \<not> handle_isValid h \<or> unat (ch_id h) \<ge> length (ct_slots t) then None
      else let s = ct_slots t ! unat (ch_id h)
           in if \<not> tsl_committed s then None
              else case tsl_connection s of
                     None \<Rightarrow> None
                   | Some c \<Rightarrow> if slot_handle c \<noteq> h then None else Some c)"

definition ct_release :: "connection_table \<Rightarrow> connection_handle \<Rightarrow> bool \<times> connection_table" where
  "ct_release t h =
     (if \<not> handle_isValid h \<or> unat (ch_id h) \<ge> length (ct_slots t) then (False, t)
      else let s = ct_slots t ! unat (ch_id h)
           in if \<not> tsl_committed s then (False, t)
              else case tsl_connection s of
                     None \<Rightarrow> (False, t)
                   | Some c \<Rightarrow>
                       if slot_handle c \<noteq> h then (False, t)
                       else (True, t\<lparr>ct_slots := (ct_slots t)[unat (ch_id h) :=
                                        s\<lparr>tsl_connection := None, tsl_committed := False\<rparr>],
                                     ct_active_count := ct_active_count t - 1\<rparr>))"

definition ct_activeHandles :: "connection_table \<Rightarrow> connection_handle list" where
  "ct_activeHandles t =
     List.map_filter (\<lambda>s. if tsl_committed s then map_option slot_handle (tsl_connection s) else None) (ct_slots t)"

section \<open>The invariant\<close>

definition slot_ok :: "nat \<Rightarrow> nat \<Rightarrow> table_slot \<Rightarrow> bool" where
  "slot_ok newest i s \<longleftrightarrow>
     (case tsl_connection s of
        None \<Rightarrow> \<not> tsl_reserved s \<and> \<not> tsl_committed s
      | Some c \<Rightarrow> tsl_reserved s \<noteq> tsl_committed s \<and> cr_id (cs_reference c) = of_nat i \<and>
          0 < unat (cr_generation (cs_reference c)) \<and> unat (cr_generation (cs_reference c)) \<le> newest)"

definition newest_generation :: "connection_table \<Rightarrow> nat" where
  "newest_generation t = unat (seq_last (ct_generations t))"

definition table_ok :: "connection_table \<Rightarrow> bool" where
  "table_ok t \<longleftrightarrow>
     0 < length (ct_slots t) \<and> length (ct_slots t) \<le> 16777216 \<and>
     validatedConnectionCapacity (length (ct_slots t)) (ct_limits t) = Inr (length (ct_slots t)) \<and>
     (\<forall>i < length (ct_slots t). slot_ok (newest_generation t) i (ct_slots t ! i)) \<and>
     ct_reserved_count t = length (filter tsl_reserved (ct_slots t)) \<and>
     ct_active_count t = length (filter tsl_committed (ct_slots t))"

text \<open>A slot holds \<open>h\<close> from its reservation until it is rolled back or released.\<close>

definition holds :: "connection_table \<Rightarrow> connection_handle \<Rightarrow> bool" where
  "holds t h \<longleftrightarrow>
     unat (ch_id h) < length (ct_slots t) \<and>
     (case tsl_connection (ct_slots t ! unat (ch_id h)) of None \<Rightarrow> False | Some c \<Rightarrow> slot_handle c = h)"

lemma find_holds: "ct_find t h = Some c \<Longrightarrow> holds t h"
  by (auto simp: ct_find_def holds_def Let_def split: if_splits option.splits)

lemma filter_update:
  "i < length xs \<Longrightarrow>
     length (filter P (xs[i := x])) + (if P (xs ! i) then 1 else 0) = length (filter P xs) + (if P x then 1 else 0)"
proof (induction xs arbitrary: i)
  case (Cons y ys)
  then show ?case by (cases i) (auto split: if_splits)
qed simp

lemma first_free_Some:
  "first_free ss = Some i \<Longrightarrow> i < length ss \<and> \<not> tsl_reserved (ss ! i) \<and> \<not> tsl_committed (ss ! i)"
  by (induction ss arbitrary: i) (auto split: if_splits)

lemma first_free_None:
  "first_free ss = None \<Longrightarrow> list_all (\<lambda>s. tsl_reserved s \<or> tsl_committed s) ss"
  by (induction ss) (auto split: if_splits)

lemma index_of_nat: "i < 16777216 \<Longrightarrow> unat (of_nat i :: u32) = i"
  by (simp add: unat_of_nat)

section \<open>Every operation keeps it\<close>

lemma put_slot_ok:
  assumes ok: "table_ok t" and i: "i < length (ct_slots t)" and s: "slot_ok newest' i s"
    and g: "newest_generation t \<le> newest'" "unat (seq_last src) = newest'"
    and r: "r + (if tsl_reserved (ct_slots t ! i) then 1 else 0) = ct_reserved_count t + (if tsl_reserved s then 1 else 0)"
    and a: "a + (if tsl_committed (ct_slots t ! i) then 1 else 0) = ct_active_count t + (if tsl_committed s then 1 else 0)"
  shows "table_ok (t\<lparr>ct_slots := (ct_slots t)[i := s], ct_generations := src, ct_reserved_count := r, ct_active_count := a\<rparr>)"
proof -
  have mono: "slot_ok newest' j x" if "slot_ok (newest_generation t) j x" for j x
    using that g(1) by (auto simp: slot_ok_def split: option.splits)
  have "\<forall>j < length (ct_slots t). slot_ok newest' j ((ct_slots t)[i := s] ! j)"
  proof (intro allI impI)
    fix j assume j: "j < length (ct_slots t)"
    then have "slot_ok (newest_generation t) j (ct_slots t ! j)" using ok by (simp add: table_ok_def)
    with s mono show "slot_ok newest' j ((ct_slots t)[i := s] ! j)" by (cases "j = i") (auto simp: i)
  qed
  then show ?thesis
    using ok i r a g(2) filter_update [OF i, of tsl_reserved s] filter_update [OF i, of tsl_committed s]
    by (auto simp: table_ok_def newest_generation_def)
qed

lemma slot_at:
  assumes "table_ok t" and "i < length (ct_slots t)"
  shows "slot_ok (newest_generation t) i (ct_slots t ! i)"
  using assms by (simp add: table_ok_def)

lemma made_table_ok: "make_connection_table n limits = Inr t \<Longrightarrow> table_ok t"
  by (auto simp: make_connection_table_def validatedConnectionCapacity_def table_ok_def slot_ok_def free_slot_def
      MAX_POLL_INDEX_def split: if_splits)

lemma holds_generation:
  assumes "table_ok t" and "holds t h"
  shows "unat (ch_generation h) \<le> newest_generation t"
proof -
  obtain c where c: "unat (ch_id h) < length (ct_slots t)" "tsl_connection (ct_slots t ! unat (ch_id h)) = Some c"
    "slot_handle c = h"
    using assms(2) by (auto simp: holds_def split: option.splits)
  then have "ch_generation h = cr_generation (cs_reference c)" by (auto simp: slot_handle_def)
  with slot_at [OF assms(1) c(1)] c(2) show ?thesis by (simp add: slot_ok_def)
qed

lemma made_slot:
  assumes "validatedConnectionCapacity n limits = Inr n" and "fd_isValid socket" and "cr_generation ref \<noteq> 0"
  shows "\<exists>c. make_connection_slot socket ref limits = Inr c \<and> cs_reference c = ref"
  using assms by (auto simp: validatedConnectionCapacity_def make_connection_slot_def make_write_buffer_def split: if_splits)

lemma next_generation_unat:
  assumes "nextGeneration t = Inr (g, t1)"
  shows "unat g = Suc (newest_generation t) \<and> t1 = t\<lparr>ct_generations := \<lparr>seq_last = g\<rparr>\<rparr>"
proof -
  have "seq_last (ct_generations t) \<noteq> UINT64_MAX" and g: "g = seq_last (ct_generations t) + 1"
    and t1: "t1 = t\<lparr>ct_generations := \<lparr>seq_last = g\<rparr>\<rparr>"
    using assms by (auto simp: nextGeneration_def sequence_next_def Let_def split: if_splits)
  then have "unat (seq_last (ct_generations t)) \<noteq> unat UINT64_MAX" by (metis word_unat_eq_iff)
  then have "unat (seq_last (ct_generations t)) + unat (1 :: u64) < 2 ^ LENGTH(64)"
    using unat_u64_lt [of "seq_last (ct_generations t)"] by (simp add: unat_u64_max)
  then have "unat g = Suc (unat (seq_last (ct_generations t)))"
    unfolding g by (subst unat_add_small) simp_all
  with t1 show ?thesis by (simp add: newest_generation_def)
qed

text \<open>The outcomes of a reservation. A table with capacity always finds a free slot.\<close>

lemma free_slot_exists:
  assumes "table_ok t" and "ct_hasCapacity t"
  shows "first_free (ct_slots t) \<noteq> None"
proof
  assume "first_free (ct_slots t) = None"
  then have all: "\<forall>s \<in> set (ct_slots t). tsl_reserved s \<or> tsl_committed s"
    using first_free_None by (auto simp: list_all_iff)
  have "\<forall>s \<in> set ss. P s \<or> Q s \<Longrightarrow> length ss \<le> length (filter P ss) + length (filter Q ss)" for ss :: "table_slot list" and P Q
    by (induction ss) auto
  from this [OF all]
  have "length (ct_slots t) \<le> length (filter tsl_reserved (ct_slots t)) + length (filter tsl_committed (ct_slots t))" .
  then show False using assms by (simp add: table_ok_def ct_hasCapacity_def)
qed

lemma tryReserve_cases:
  assumes ok: "table_ok t"
  shows "case ct_tryReserve t socket owner of
     (Inl e, t') \<Rightarrow> t' = t \<and> (e = InvalidSocket \<or> e = GenerationExhausted)
   | (Inr None, t') \<Rightarrow> t' = t \<and> \<not> ct_hasCapacity t
   | (Inr (Some r), t') \<Rightarrow>
       table_ok t' \<and> rv_attached r \<and> \<not> rv_committed r \<and> rv_index r < length (ct_slots t) \<and>
       tsl_connection (ct_slots t ! rv_index r) = None \<and>
       newest_generation t' = Suc (newest_generation t) \<and> unat (ch_generation (rv_handle r)) = newest_generation t' \<and>
       unat (ch_id (rv_handle r)) = rv_index r \<and>
       (\<exists>c. slot_handle c = rv_handle r \<and> cr_owner (cs_reference c) = owner \<and> cs_socket c = socket \<and>
          ct_slots t' = (ct_slots t)[rv_index r :=
            \<lparr>tsl_connection = Some c, tsl_reserved = True, tsl_committed = False\<rparr>])"
proof (cases "fd_isValid socket \<and> ct_hasCapacity t")
  case False
  then show ?thesis by (auto simp: ct_tryReserve_def)
next
  case True
  then obtain i where i: "first_free (ct_slots t) = Some i" using free_slot_exists [OF ok] by auto
  note free = first_free_Some [OF i]
  show ?thesis
  proof (cases "nextGeneration t")
    case (Inl e)
    then have "e = GenerationExhausted" by (auto simp: nextGeneration_def Let_def split: if_splits prod.splits)
    with True i Inl show ?thesis by (simp add: ct_tryReserve_def)
  next
    case (Inr gt)
    obtain g t1 where "gt = (g, t1)" by (cases gt)
    with Inr have g: "unat g = Suc (newest_generation t)" "t1 = t\<lparr>ct_generations := \<lparr>seq_last = g\<rparr>\<rparr>"
      using next_generation_unat [of t g t1] by simp_all
    let ?ref = "\<lparr>cr_id = of_nat i, cr_generation = g, cr_owner = owner\<rparr> :: connection_ref"
    have "g \<noteq> 0" using g(1) by auto
    then obtain c where c: "make_connection_slot socket ?ref (ct_limits t) = Inr c" "cs_reference c = ?ref"
      using made_slot [of "length (ct_slots t)" "ct_limits t" socket ?ref] ok True by (auto simp: table_ok_def)
    have socket: "cs_socket c = socket"
      using c(1) by (auto simp: make_connection_slot_def split: sum.splits if_splits)
    let ?s = "\<lparr>tsl_connection = Some c, tsl_reserved = True, tsl_committed = False\<rparr>"
    let ?t = "t\<lparr>ct_slots := (ct_slots t)[i := ?s], ct_generations := \<lparr>seq_last = g\<rparr>,
      ct_reserved_count := ct_reserved_count t + 1, ct_active_count := ct_active_count t\<rparr>"
    have "table_ok ?t"
      using free g(1) c(2) by (intro put_slot_ok [OF ok, where newest' = "unat g"]) (auto simp: slot_ok_def)
    moreover have "tsl_connection (ct_slots t ! i) = None"
      using slot_at [OF ok, of i] free by (auto simp: slot_ok_def split: option.splits)
    moreover have "ct_tryReserve t socket owner =
        (Inr (Some \<lparr>rv_index = i, rv_handle = \<lparr>ch_id = of_nat i, ch_generation = g\<rparr>, rv_attached = True, rv_committed = False\<rparr>), ?t)"
      using True i Inr \<open>gt = (g, t1)\<close> g(2) c(1) by (simp add: ct_tryReserve_def Let_def)
    moreover have "unat (of_nat i :: u32) = i"
      using free ok by (intro index_of_nat) (simp add: table_ok_def)
    ultimately show ?thesis
      using free g(1) c(2) socket by (auto simp: newest_generation_def slot_handle_def intro!: exI [of _ c])
  qed
qed

lemma commit_ok:
  assumes "table_ok t" and "rv_index r < length (ct_slots t)" and "tsl_reserved (ct_slots t ! rv_index r)"
    and "rv_attached r" and "\<not> rv_committed r"
  shows "table_ok (snd (reservation_commit r t))"
proof -
  let ?s = "ct_slots t ! rv_index r"
  have "slot_ok (newest_generation t) (rv_index r) (?s\<lparr>tsl_reserved := False, tsl_committed := True\<rparr>)"
    and nc: "\<not> tsl_committed ?s"
    using slot_at [OF assms(1,2)] assms(3) by (auto simp: slot_ok_def split: option.splits)
  moreover have "0 < ct_reserved_count t"
    using assms(1-3) by (auto simp: table_ok_def length_filter_conv_card card_gt_0_iff)
  ultimately have "table_ok (t\<lparr>ct_slots := (ct_slots t)[rv_index r := ?s\<lparr>tsl_reserved := False, tsl_committed := True\<rparr>],
      ct_generations := ct_generations t, ct_reserved_count := ct_reserved_count t - 1, ct_active_count := ct_active_count t + 1\<rparr>)"
    using assms by (intro put_slot_ok [where newest' = "newest_generation t"]) (auto simp: newest_generation_def)
  then show ?thesis using assms(4,5) by (simp add: reservation_commit_def)
qed

lemma rollback_ok:
  assumes "table_ok t" and "i < length (ct_slots t)"
  shows "table_ok (table_rollback t i)"
proof (cases "tsl_reserved (ct_slots t ! i)")
  case True
  let ?s = "ct_slots t ! i"
  have nc: "\<not> tsl_committed ?s" and "slot_ok (newest_generation t) i (?s\<lparr>tsl_connection := None, tsl_reserved := False\<rparr>)"
    using slot_at [OF assms] True by (auto simp: slot_ok_def split: option.splits)
  moreover have "0 < ct_reserved_count t"
    using assms True by (auto simp: table_ok_def length_filter_conv_card card_gt_0_iff)
  ultimately have "table_ok (t\<lparr>ct_slots := (ct_slots t)[i := ?s\<lparr>tsl_connection := None, tsl_reserved := False\<rparr>],
      ct_generations := ct_generations t, ct_reserved_count := ct_reserved_count t - 1, ct_active_count := ct_active_count t\<rparr>)"
    using assms True by (intro put_slot_ok [where newest' = "newest_generation t"]) (auto simp: newest_generation_def)
  then show ?thesis using True nc by (simp add: table_rollback_def Let_def)
qed (use assms in \<open>simp add: table_rollback_def Let_def\<close>)

lemma release_cases:
  assumes "table_ok t"
  shows "case ct_release t h of
     (False, t') \<Rightarrow> t' = t \<and> ct_find t h = None
   | (True, t') \<Rightarrow> table_ok t' \<and> ct_find t h \<noteq> None \<and> newest_generation t' = newest_generation t \<and>
       ct_slots t' = (ct_slots t)[unat (ch_id h) := (ct_slots t ! unat (ch_id h))\<lparr>tsl_connection := None, tsl_committed := False\<rparr>]"
proof (cases "ct_find t h")
  case None
  then show ?thesis by (auto simp: ct_find_def ct_release_def Let_def split: option.splits if_splits)
next
  case (Some c)
  let ?i = "unat (ch_id h)"
  let ?s = "ct_slots t ! ?i"
  have i: "?i < length (ct_slots t)" and s: "tsl_committed ?s" "tsl_connection ?s = Some c" "slot_handle c = h" "handle_isValid h"
    using Some by (auto simp: ct_find_def Let_def split: option.splits if_splits)
  have "slot_ok (newest_generation t) ?i (?s\<lparr>tsl_connection := None, tsl_committed := False\<rparr>)"
    using slot_at [OF assms i] s by (auto simp: slot_ok_def)
  moreover have "0 < ct_active_count t"
    using assms i s by (auto simp: table_ok_def length_filter_conv_card card_gt_0_iff)
  ultimately have "table_ok (t\<lparr>ct_slots := (ct_slots t)[?i := ?s\<lparr>tsl_connection := None, tsl_committed := False\<rparr>],
      ct_generations := ct_generations t, ct_reserved_count := ct_reserved_count t, ct_active_count := ct_active_count t - 1\<rparr>)"
    using assms i s by (intro put_slot_ok [where newest' = "newest_generation t"]) (auto simp: newest_generation_def)
  then show ?thesis using i s Some by (simp add: ct_release_def Let_def newest_generation_def not_le)
qed

section \<open>The owner's calls\<close>

text \<open>
  The owner keeps the reservations it was given and commits or rolls them back by position; the
  pointer that \<open>find\<close> returns is used to queue frames, consume written bytes and begin closing.
\<close>

definition ct_modify :: "connection_table \<Rightarrow> connection_handle \<Rightarrow> (connection_slot \<Rightarrow> connection_slot) \<Rightarrow> connection_table" where
  "ct_modify t h f =
     (case ct_find t h of
        None \<Rightarrow> t
      | Some c \<Rightarrow> t\<lparr>ct_slots := (ct_slots t)[unat (ch_id h) := (ct_slots t ! unat (ch_id h))\<lparr>tsl_connection := Some (f c)\<rparr>]\<rparr>)"

record table_owner =
  to_table :: connection_table
  to_reservations :: "ct_reservation list"

datatype table_call =
  CtReserve int worker_id
| CtCommit nat
| CtRollback nat
| CtRelease connection_handle
| CtSend connection_handle frame bool
| CtBeginClosing connection_handle time_point close_reason

datatype table_reply =
  ReplyReserved ct_reservation | ReplyFull | ReplyError table_error | ReplyReleased bool | ReplyDone

definition with_reservation ::
  "(ct_reservation \<Rightarrow> connection_table \<Rightarrow> ct_reservation \<times> connection_table) \<Rightarrow> nat \<Rightarrow> table_owner \<Rightarrow> table_owner" where
  "with_reservation act k o' =
     (if k < length (to_reservations o')
      then let (r, t) = act (to_reservations o' ! k) (to_table o')
           in \<lparr>to_table = t, to_reservations = (to_reservations o')[k := r]\<rparr>
      else o')"

fun table_step :: "table_owner \<Rightarrow> table_call \<Rightarrow> table_reply \<times> table_owner" where
  "table_step w (CtReserve socket owner) =
     (case ct_tryReserve (to_table w) socket owner of
        (Inl e, t) \<Rightarrow> (ReplyError e, w\<lparr>to_table := t\<rparr>)
      | (Inr None, t) \<Rightarrow> (ReplyFull, w\<lparr>to_table := t\<rparr>)
      | (Inr (Some r), t) \<Rightarrow> (ReplyReserved r, \<lparr>to_table = t, to_reservations = to_reservations w @ [r]\<rparr>))"
| "table_step w (CtCommit k) = (ReplyDone, with_reservation reservation_commit k w)"
| "table_step w (CtRollback k) = (ReplyDone, with_reservation reservation_rollback k w)"
| "table_step w (CtRelease h) =
     (let (ok, t) = ct_release (to_table w) h in (ReplyReleased ok, w\<lparr>to_table := t\<rparr>))"
| "table_step w (CtSend h f critical) =
     (ReplyDone, w\<lparr>to_table := ct_modify (to_table w) h (\<lambda>c. snd (appendFrame c f critical))\<rparr>)"
| "table_step w (CtBeginClosing h deadline reason) =
     (ReplyDone, w\<lparr>to_table := ct_modify (to_table w) h (\<lambda>c. beginClosing c deadline reason)\<rparr>)"

definition outstanding :: "ct_reservation \<Rightarrow> bool" where
  "outstanding r \<longleftrightarrow> rv_attached r \<and> \<not> rv_committed r"

definition backed :: "connection_table \<Rightarrow> ct_reservation \<Rightarrow> bool" where
  "backed t r \<longleftrightarrow>
     (outstanding r \<longrightarrow> rv_index r < length (ct_slots t) \<and> tsl_reserved (ct_slots t ! rv_index r) \<and>
        \<not> tsl_committed (ct_slots t ! rv_index r))"

definition owner_ok :: "table_owner \<Rightarrow> bool" where
  "owner_ok w \<longleftrightarrow>
     table_ok (to_table w) \<and> list_all (backed (to_table w)) (to_reservations w) \<and>
     distinct (map rv_index (filter outstanding (to_reservations w)))"

lemma modify_ok:
  assumes "table_ok t" and ref: "\<And>c. cs_reference (f c) = cs_reference c"
  shows "table_ok (ct_modify t h f)"
    and "map tsl_reserved (ct_slots (ct_modify t h f)) = map tsl_reserved (ct_slots t)"
    and "map tsl_committed (ct_slots (ct_modify t h f)) = map tsl_committed (ct_slots t)"
    and "newest_generation (ct_modify t h f) = newest_generation t"
    and "holds (ct_modify t h f) k \<Longrightarrow> holds t k"
proof -
  let ?i = "unat (ch_id h)"
  let ?s = "ct_slots t ! ?i"
  have "table_ok (ct_modify t h f) \<and> map tsl_reserved (ct_slots (ct_modify t h f)) = map tsl_reserved (ct_slots t) \<and>
      map tsl_committed (ct_slots (ct_modify t h f)) = map tsl_committed (ct_slots t) \<and>
      newest_generation (ct_modify t h f) = newest_generation t \<and> (holds (ct_modify t h f) k \<longrightarrow> holds t k)"
  proof (cases "ct_find t h")
    case (Some c)
    then have i: "?i < length (ct_slots t)" and s: "tsl_connection ?s = Some c" "tsl_committed ?s"
      by (auto simp: ct_find_def Let_def split: option.splits if_splits)
    have "slot_ok (newest_generation t) ?i (?s\<lparr>tsl_connection := Some (f c)\<rparr>)"
      using slot_at [OF assms(1) i] s ref by (auto simp: slot_ok_def)
    then have "table_ok (t\<lparr>ct_slots := (ct_slots t)[?i := ?s\<lparr>tsl_connection := Some (f c)\<rparr>],
        ct_generations := ct_generations t, ct_reserved_count := ct_reserved_count t, ct_active_count := ct_active_count t\<rparr>)"
      using assms i by (intro put_slot_ok [where newest' = "newest_generation t"]) (auto simp: newest_generation_def)
    moreover have "holds t k" if "holds (ct_modify t h f) k"
      using that Some i s ref
      by (cases "unat (ch_id k) = ?i") (auto simp: holds_def ct_modify_def slot_handle_def)
    ultimately show ?thesis
      using Some i by (auto simp: ct_modify_def newest_generation_def map_update intro!: list_update_same_conv [THEN iffD2])
  qed (use assms in \<open>simp add: ct_modify_def\<close>)
  then show "table_ok (ct_modify t h f)"
    and "map tsl_reserved (ct_slots (ct_modify t h f)) = map tsl_reserved (ct_slots t)"
    and "map tsl_committed (ct_slots (ct_modify t h f)) = map tsl_committed (ct_slots t)"
    and "newest_generation (ct_modify t h f) = newest_generation t"
    and "holds (ct_modify t h f) k \<Longrightarrow> holds t k"
    by blast+
qed

lemma slot_flags_nth:
  assumes "map g xs = map g ys" and "i < length xs"
  shows "i < length ys" "g (xs ! i) = g (ys ! i)"
  using assms by (metis length_map, metis length_map nth_map)

lemma backed_flags:
  assumes "map tsl_reserved (ct_slots t') = map tsl_reserved (ct_slots t)"
    and "map tsl_committed (ct_slots t') = map tsl_committed (ct_slots t)"
  shows "backed t' r = backed t r"
proof -
  have "length (ct_slots t') = length (ct_slots t)" using assms(1) by (metis length_map)
  then show ?thesis
    using slot_flags_nth [OF assms(1)] slot_flags_nth [OF assms(2)] by (auto simp: backed_def)
qed

lemma backed_update:
  assumes "backed t r" and "ct_slots t' = (ct_slots t)[i := s]" and "outstanding r \<longrightarrow> rv_index r \<noteq> i"
  shows "backed t' r"
  using assms by (auto simp: backed_def)

lemma distinct_outstanding_update:
  assumes "distinct (map rv_index (filter outstanding rs))" and "k < length rs" and "\<not> outstanding r"
  shows "distinct (map rv_index (filter outstanding (rs[k := r])))"
proof -
  have "filter outstanding (rs[k := r]) = filter outstanding (take k rs) @ filter outstanding (drop (Suc k) rs)"
    using assms(2,3) by (simp add: upd_conv_take_nth_drop)
  moreover have "filter outstanding rs =
      filter outstanding (take k rs) @ filter outstanding [rs ! k] @ filter outstanding (drop (Suc k) rs)"
    using assms(2) by (metis append_Cons append_Nil filter_append id_take_nth_drop)
  ultimately show ?thesis using assms(1) by auto
qed

lemma outstanding_elsewhere:
  assumes "distinct (map rv_index (filter outstanding rs))" and "k < length rs" and "outstanding (rs ! k)"
    and "j < length rs" and "j \<noteq> k" and "outstanding (rs ! j)"
  shows "rv_index (rs ! j) \<noteq> rv_index (rs ! k)"
  using assms
proof (induction rs arbitrary: j k)
  case (Cons r rs)
  have away: "rv_index r \<noteq> rv_index (rs ! i)" if "i < length rs" "outstanding r" "outstanding (rs ! i)" for i
    using Cons(2) that nth_mem [OF that(1)] by auto
  show ?case
    using Cons away [of "j - 1"] away [of "k - 1"] by (cases j; cases k) (auto split: if_splits)
qed simp

lemma settle_ok:
  assumes ok: "owner_ok w" and k: "k < length (to_reservations w)"
    and live: "outstanding (to_reservations w ! k)" and r: "\<not> outstanding r"
    and t: "table_ok t" "ct_slots t = (ct_slots (to_table w))[rv_index (to_reservations w ! k) := s]"
  shows "owner_ok \<lparr>to_table = t, to_reservations = (to_reservations w)[k := r]\<rparr>"
proof -
  let ?rs = "to_reservations w"
  have d: "distinct (map rv_index (filter outstanding ?rs))" and b: "list_all (backed (to_table w)) ?rs"
    using ok by (auto simp: owner_ok_def)
  have "backed t (?rs[k := r] ! j)" if "j < length ?rs" for j
  proof (cases "j = k")
    case True
    then show ?thesis using r k by (simp add: backed_def)
  next
    case False
    then show ?thesis
      using backed_update [OF _ t(2)] b that outstanding_elsewhere [OF d k live that] by (auto simp: list_all_length)
  qed
  then show ?thesis
    using t(1) distinct_outstanding_update [OF d k r] by (simp add: owner_ok_def list_all_length)
qed

lemma with_commit_ok:
  assumes ok: "owner_ok w"
  shows "owner_ok (with_reservation reservation_commit k w) \<and>
    newest_generation (to_table (with_reservation reservation_commit k w)) = newest_generation (to_table w) \<and>
    (\<forall>h. holds (to_table (with_reservation reservation_commit k w)) h \<longrightarrow> holds (to_table w) h)"
proof (cases "k < length (to_reservations w) \<and> outstanding (to_reservations w ! k)")
  case False
  then have "with_reservation reservation_commit k w = w"
    by (auto simp: with_reservation_def reservation_commit_def outstanding_def)
  with ok show ?thesis by simp
next
  case True
  let ?r = "to_reservations w ! k" and ?t = "to_table w"
  have b: "rv_index ?r < length (ct_slots ?t)" "tsl_reserved (ct_slots ?t ! rv_index ?r)"
    using ok True by (auto simp: owner_ok_def list_all_length backed_def)
  have live: "rv_attached ?r" "\<not> rv_committed ?r" using True by (auto simp: outstanding_def)
  have eq: "with_reservation reservation_commit k w =
      \<lparr>to_table = snd (reservation_commit ?r ?t), to_reservations = (to_reservations w)[k := ?r\<lparr>rv_committed := True\<rparr>]\<rparr>"
    using True live by (simp add: with_reservation_def reservation_commit_def)
  have "owner_ok (with_reservation reservation_commit k w)"
    unfolding eq using ok True live b
    by (intro settle_ok commit_ok) (auto simp: owner_ok_def outstanding_def reservation_commit_def)
  then show ?thesis
    unfolding eq using live b
    by (auto simp: reservation_commit_def newest_generation_def holds_def nth_list_update split: option.splits if_splits)
qed

lemma with_rollback_ok:
  assumes ok: "owner_ok w"
  shows "owner_ok (with_reservation reservation_rollback k w) \<and>
    newest_generation (to_table (with_reservation reservation_rollback k w)) = newest_generation (to_table w) \<and>
    (\<forall>h. holds (to_table (with_reservation reservation_rollback k w)) h \<longrightarrow> holds (to_table w) h)"
proof (cases "k < length (to_reservations w) \<and> outstanding (to_reservations w ! k)")
  case False
  then have "with_reservation reservation_rollback k w = w"
    by (auto simp: with_reservation_def reservation_rollback_def outstanding_def)
  with ok show ?thesis by simp
next
  case True
  let ?r = "to_reservations w ! k" and ?t = "to_table w"
  have b: "rv_index ?r < length (ct_slots ?t)" "tsl_reserved (ct_slots ?t ! rv_index ?r)"
    "\<not> tsl_committed (ct_slots ?t ! rv_index ?r)"
    using ok True by (auto simp: owner_ok_def list_all_length backed_def)
  have live: "rv_attached ?r" "\<not> rv_committed ?r" using True by (auto simp: outstanding_def)
  have eq: "with_reservation reservation_rollback k w =
      \<lparr>to_table = table_rollback ?t (rv_index ?r), to_reservations = (to_reservations w)[k := ?r\<lparr>rv_attached := False\<rparr>]\<rparr>"
    using True live by (simp add: with_reservation_def reservation_rollback_def)
  have slots: "ct_slots (table_rollback ?t (rv_index ?r)) = (ct_slots ?t)[rv_index ?r :=
      (ct_slots ?t ! rv_index ?r)\<lparr>tsl_connection := None, tsl_reserved := False\<rparr>]"
    using b by (simp add: table_rollback_def Let_def)
  have "owner_ok (with_reservation reservation_rollback k w)"
    unfolding eq using ok True b slots
    by (intro settle_ok rollback_ok) (auto simp: owner_ok_def outstanding_def)
  then show ?thesis
    unfolding eq using b
    by (auto simp: table_rollback_def Let_def newest_generation_def holds_def nth_list_update split: option.splits if_splits)
qed

definition steady :: "table_owner \<Rightarrow> table_owner \<Rightarrow> bool" where
  "steady w w' \<longleftrightarrow>
     owner_ok w' \<and> newest_generation (to_table w) \<le> newest_generation (to_table w') \<and>
     (\<forall>h. holds (to_table w') h \<longrightarrow>
        holds (to_table w) h \<or> newest_generation (to_table w) < unat (ch_generation h))"

lemma steady_modify:
  assumes "owner_ok w" and "\<And>c. cs_reference (f c) = cs_reference c"
  shows "steady w (w\<lparr>to_table := ct_modify (to_table w) h f\<rparr>)"
  using assms modify_ok [of "to_table w" f h] backed_flags [of "ct_modify (to_table w) h f" "to_table w"]
  by (auto simp: steady_def owner_ok_def list_all_iff)

lemma steady_reserve:
  assumes ok: "owner_ok w"
  shows "steady w (snd (table_step w (CtReserve socket owner)))"
proof -
  have t: "table_ok (to_table w)" using ok by (simp add: owner_ok_def)
  obtain out t' where res: "ct_tryReserve (to_table w) socket owner = (out, t')" by fastforce
  note cases = tryReserve_cases [OF t, where socket = socket and owner = owner, unfolded res]
  show ?thesis
  proof (cases "\<exists>r. out = Inr (Some r)")
    case False
    then have "snd (table_step w (CtReserve socket owner)) = w"
      using cases res by (cases out; cases "projr out") auto
    with ok show ?thesis by (simp add: steady_def)
  next
    case True
    then obtain r where out: "out = Inr (Some r)" by auto
    obtain c where c: "slot_handle c = rv_handle r" "ct_slots t' = (ct_slots (to_table w))[rv_index r :=
        \<lparr>tsl_connection = Some c, tsl_reserved = True, tsl_committed = False\<rparr>]"
      using cases out by auto
    have facts: "table_ok t'" "rv_attached r" "\<not> rv_committed r" "rv_index r < length (ct_slots (to_table w))"
      "tsl_connection (ct_slots (to_table w) ! rv_index r) = None" "newest_generation t' = Suc (newest_generation (to_table w))"
      "unat (ch_generation (rv_handle r)) = newest_generation t'"
      using cases out by auto
    have free: "\<not> tsl_reserved (ct_slots (to_table w) ! rv_index r)"
      using slot_at [OF t facts(4)] facts(5) by (simp add: slot_ok_def)
    have apart: "outstanding x \<longrightarrow> rv_index x \<noteq> rv_index r" if "x \<in> set (to_reservations w)" for x
      using ok that free by (auto simp: owner_ok_def list_all_iff backed_def)
    have "list_all (backed t') (to_reservations w)"
      using ok apart backed_update [OF _ c(2)] by (auto simp: owner_ok_def list_all_iff)
    moreover have "backed t' r" using facts(4) c(2) by (simp add: backed_def)
    moreover have "rv_index r \<notin> rv_index ` {x \<in> set (to_reservations w). outstanding x}" using apart by fastforce
    ultimately have "owner_ok \<lparr>to_table = t', to_reservations = to_reservations w @ [r]\<rparr>"
      using ok facts(1) by (simp add: owner_ok_def)
    moreover have "holds (to_table w) h \<or> newest_generation (to_table w) < unat (ch_generation h)" if "holds t' h" for h
      using that facts c by (cases "unat (ch_id h) = rv_index r") (auto simp: holds_def)
    ultimately show ?thesis using res out facts(6) by (simp add: steady_def)
  qed
qed

lemma steady_release:
  assumes ok: "owner_ok w"
  shows "steady w (snd (table_step w (CtRelease h)))"
proof -
  have t: "table_ok (to_table w)" using ok by (simp add: owner_ok_def)
  obtain found t' where res: "ct_release (to_table w) h = (found, t')" by fastforce
  note cases = release_cases [OF t, of h, unfolded res]
  show ?thesis
  proof (cases found)
    case False
    with cases have "t' = to_table w" by simp
    with ok res show ?thesis by (simp add: steady_def)
  next
    case True
    let ?i = "unat (ch_id h)"
    have t': "table_ok t'" "newest_generation t' = newest_generation (to_table w)" "ct_find (to_table w) h \<noteq> None"
      and slots: "ct_slots t' = (ct_slots (to_table w))[?i :=
        (ct_slots (to_table w) ! ?i)\<lparr>tsl_connection := None, tsl_committed := False\<rparr>]"
      using cases True by auto
    have "tsl_committed (ct_slots (to_table w) ! ?i)"
      using t'(3) by (auto simp: ct_find_def Let_def split: if_splits)
    then have apart: "outstanding x \<longrightarrow> rv_index x \<noteq> ?i" if "x \<in> set (to_reservations w)" for x
      using ok that by (auto simp: owner_ok_def list_all_iff backed_def)
    have "owner_ok (w\<lparr>to_table := t'\<rparr>)"
      using ok t' apart backed_update [OF _ slots] by (auto simp: owner_ok_def list_all_iff)
    moreover have "holds (to_table w) k" if "holds t' k" for k
      using that slots by (cases "unat (ch_id k) = ?i") (auto simp: holds_def)
    ultimately show ?thesis using res t'(2) by (simp add: steady_def)
  qed
qed

lemma appendFrame_reference: "cs_reference (snd (appendFrame c f critical)) = cs_reference c"
  by (simp add: appendFrame_def case_prod_beta)

lemma table_step_steady: "owner_ok w \<Longrightarrow> steady w (snd (table_step w c))"
proof (cases c)
  case (CtReserve socket owner)
  assume "owner_ok w"
  then show ?thesis unfolding CtReserve by (rule steady_reserve)
next
  case (CtRelease h)
  assume "owner_ok w"
  then show ?thesis unfolding CtRelease by (rule steady_release)
next
  case (CtSend h f critical)
  assume "owner_ok w"
  then show ?thesis
    using CtSend steady_modify [OF _ appendFrame_reference] by simp
next
  case (CtBeginClosing h deadline reason)
  assume "owner_ok w"
  then show ?thesis using CtBeginClosing steady_modify [of w "\<lambda>c. beginClosing c deadline reason" h]
    by (simp add: beginClosing_def)
next
  case (CtCommit k)
  assume "owner_ok w"
  then show ?thesis using CtCommit with_commit_ok [of w k] by (simp add: steady_def)
next
  case (CtRollback k)
  assume "owner_ok w"
  then show ?thesis using CtRollback with_rollback_ok [of w k] by (simp add: steady_def)
qed

interpretation connections: generational table_step owner_ok "\<lambda>w. holds (to_table w)"
  "\<lambda>h. unat (ch_generation h)" "\<lambda>w. newest_generation (to_table w)"
  using table_step_steady by unfold_locales (auto simp: steady_def)

interpretation table_machine: invariant_machine table_step "\<lambda>c. True" owner_ok
  by unfold_locales (rule connections.keeps)

definition fresh_owner :: "connection_table \<Rightarrow> table_owner" where
  "fresh_owner t = \<lparr>to_table = t, to_reservations = []\<rparr>"

lemma fresh_owner_ok: "make_connection_table n limits = Inr t \<Longrightarrow> owner_ok (fresh_owner t)"
  by (simp add: owner_ok_def fresh_owner_def made_table_ok)

text \<open>
  C24: A released handle stays dead. Once a connection has been released, no later sequence of
  calls (new reservations of the same slot included) makes its handle find a connection again.
\<close>

theorem released_handle_stays_stale:
  assumes "make_connection_table n limits = Inr t"
    and "ct_release (to_table (snd (run table_step (fresh_owner t) before))) h = (True, t')"
  shows "ct_find (to_table (snd (run table_step (fresh_owner t) (before @ CtRelease h # later)))) h = None"
proof -
  let ?w = "snd (run table_step (fresh_owner t) before)"
  let ?v = "?w\<lparr>to_table := t'\<rparr>"
  have w: "owner_ok ?w"
    by (rule table_machine.run_inv [OF fresh_owner_ok [OF assms(1)]]) (simp add: list_all_iff)
  then have ok: "table_ok (to_table ?w)" by (simp add: owner_ok_def)
  have step: "snd (table_step ?w (CtRelease h)) = ?v" using assms(2) by simp
  have v: "owner_ok ?v" using connections.keeps [OF w, of "CtRelease h"] step by simp
  note cases = release_cases [OF ok, of h, unfolded assms(2), simplified]
  have held: "holds (to_table ?w) h" using cases find_holds [of "to_table ?w" h] by auto
  then have old: "unat (ch_generation h) \<le> newest_generation (to_table ?v)"
    using holds_generation [OF ok held] cases by simp
  have "\<not> holds (to_table ?v) h"
    using cases held by (auto simp: holds_def)
  from connections.stale_forever [OF v old this, of later]
  have "\<not> holds (to_table (snd (run table_step ?v later))) h" .
  moreover have "snd (run table_step (fresh_owner t) (before @ CtRelease h # later)) = snd (run table_step ?v later)"
    using step by (simp add: run_append case_prod_beta)
  ultimately show ?thesis using find_holds by fastforce
qed

lemma count_split:
  "\<forall>s \<in> set ss. \<not> (P s \<and> Q s) \<Longrightarrow>
     length (filter P ss) + length (filter Q ss) + length (filter (\<lambda>s. \<not> P s \<and> \<not> Q s) ss) = length ss"
  by (induction ss) auto

lemma capacity_iff:
  assumes "table_ok t"
  shows "ct_hasCapacity t \<longleftrightarrow> (\<exists>s \<in> set (ct_slots t). \<not> tsl_reserved s \<and> \<not> tsl_committed s)"
proof -
  have "\<forall>s \<in> set (ct_slots t). \<not> (tsl_reserved s \<and> tsl_committed s)"
    using slot_at [OF assms] by (fastforce simp: in_set_conv_nth slot_ok_def split: option.splits)
  note split = count_split [OF this]
  have "ct_hasCapacity t \<longleftrightarrow> 0 < length (filter (\<lambda>s. \<not> tsl_reserved s \<and> \<not> tsl_committed s) (ct_slots t))"
  proof -
    have "ct_reserved_count t = length (filter tsl_reserved (ct_slots t))"
      "ct_active_count t = length (filter tsl_committed (ct_slots t))"
      using assms by (simp_all add: table_ok_def)
    with split show ?thesis unfolding ct_hasCapacity_def by linarith
  qed
  then show ?thesis by (simp add: filter_empty_conv)
qed

text \<open>
  C25: The table's counters are exact, so a valid socket is turned away for want of room only when
  every slot is reserved or committed: after any calls the counts are those of the slots, and a
  table that reports capacity has a free slot which the reservation finds.
\<close>

theorem capacity_is_real:
  assumes "make_connection_table n limits = Inr t"
    and "t' = to_table (snd (run table_step (fresh_owner t) calls))"
  shows "ct_reserved_count t' = length (filter tsl_reserved (ct_slots t')) \<and>
    ct_active_count t' = length (filter tsl_committed (ct_slots t')) \<and>
    (ct_hasCapacity t' \<longleftrightarrow> (\<exists>s \<in> set (ct_slots t'). \<not> tsl_reserved s \<and> \<not> tsl_committed s)) \<and>
    (fst (ct_tryReserve t' socket owner) = Inr None \<longleftrightarrow> fd_isValid socket \<and> \<not> ct_hasCapacity t')"
proof -
  have "owner_ok (snd (run table_step (fresh_owner t) calls))"
    by (rule table_machine.run_inv [OF fresh_owner_ok [OF assms(1)]]) (simp add: list_all_iff)
  then have ok: "table_ok t'" using assms(2) by (simp add: owner_ok_def)
  have "fst (ct_tryReserve t' socket owner) = Inr None \<longleftrightarrow> fd_isValid socket \<and> \<not> ct_hasCapacity t'"
  proof (cases "fd_isValid socket \<and> ct_hasCapacity t'")
    case True
    then show ?thesis
      using tryReserve_cases [OF ok, where socket = socket and owner = owner]
      by (auto split: prod.splits sum.splits option.splits)
  next
    case False
    then show ?thesis by (auto simp: ct_tryReserve_def)
  qed
  moreover have "ct_reserved_count t' = length (filter tsl_reserved (ct_slots t'))"
    "ct_active_count t' = length (filter tsl_committed (ct_slots t'))"
    using ok by (simp_all add: table_ok_def)
  ultimately show ?thesis using capacity_iff [OF ok] by blast
qed

section \<open>A slot used twice\<close>

definition small_table :: connection_table where
  "small_table = projr (make_connection_table 1 default_connection_limits)"

lemma small_table_made: "make_connection_table 1 default_connection_limits = Inr small_table"
  by (simp add: small_table_def make_connection_table_def validatedConnectionCapacity_def default_connection_limits_def)

definition first_handle :: connection_handle where
  "first_handle = \<lparr>ch_id = 0, ch_generation = 1\<rparr>"

theorem released_handle_stays_stale_witness:
  "ct_find (to_table (snd (run table_step (fresh_owner small_table)
     ([CtReserve 5 0, CtCommit 0] @ CtRelease first_handle # [CtReserve 6 0, CtCommit 1])))) first_handle = None"
proof -
  have "fst (ct_release (to_table (snd (run table_step (fresh_owner small_table) [CtReserve 5 0, CtCommit 0]))) first_handle)"
    by code_simp
  then obtain t' where
    "ct_release (to_table (snd (run table_step (fresh_owner small_table) [CtReserve 5 0, CtCommit 0]))) first_handle = (True, t')"
    by (metis prod.collapse)
  from released_handle_stays_stale [OF small_table_made this] show ?thesis .
qed

theorem capacity_is_real_witness:
  "\<not> ct_hasCapacity (to_table (snd (run table_step (fresh_owner small_table) [CtReserve 5 0]))) \<and>
   fst (ct_tryReserve (to_table (snd (run table_step (fresh_owner small_table) [CtReserve 5 0]))) 6 0) = Inr None"
proof -
  have full: "\<not> ct_hasCapacity (to_table (snd (run table_step (fresh_owner small_table) [CtReserve 5 0])))"
    by code_simp
  with capacity_is_real [OF small_table_made refl, of "[CtReserve 5 0]" 6 0] show ?thesis
    by (simp add: fd_isValid_def)
qed

end
