(* ===== verification/Queues.thy ===== *)
theory Queues
  imports Identity
begin

text \<open>
  The bounded first-in first-out queues of the server: the worker's ring of connection handles
  (\<^verbatim>\<open>src/worker/connection_work_queue.cpp\<close>), the ring of ready actors (\<open>ReadyActorQueue\<close> of
  \<^verbatim>\<open>src/worker/actor_table.cpp\<close>) and the mutex-guarded \<open>BoundedQueue\<close> of
  \<^verbatim>\<open>include/snf/runtime/bounded_queue.hpp\<close>. The locale \<open>bounded_fifo\<close> is what their users rely on. Each
  operation of the last one holds its mutex throughout, so an interleaving of threads is a sequence
  of operations; a call whose wait predicate is false is the value \<open>Blocks\<close>.
\<close>

section \<open>The interface\<close>

datatype 'a queue_op = Push 'a | Pop

datatype 'a queue_event = Pushed 'a | PushRefused 'a | Popped 'a | PopEmpty

fun pushed_items :: "'a queue_event list \<Rightarrow> 'a list" where
  "pushed_items [] = []"
| "pushed_items (Pushed x # evs) = x # pushed_items evs"
| "pushed_items (_ # evs) = pushed_items evs"

fun popped_items :: "'a queue_event list \<Rightarrow> 'a list" where
  "popped_items [] = []"
| "popped_items (Popped x # evs) = x # popped_items evs"
| "popped_items (_ # evs) = popped_items evs"

lemma items_Cons:
  "pushed_items (ev # evs) = pushed_items [ev] @ pushed_items evs"
  "popped_items (ev # evs) = popped_items [ev] @ popped_items evs"
  by (cases ev; simp)+

fun queue_step :: "('s \<Rightarrow> 'a \<Rightarrow> bool \<times> 's) \<Rightarrow> ('s \<Rightarrow> 'a option \<times> 's) \<Rightarrow> 's \<Rightarrow> 'a queue_op \<Rightarrow> 'a queue_event \<times> 's" where
  "queue_step push pop s (Push x) = (let (ok, s') = push s x in (if ok then Pushed x else PushRefused x, s'))"
| "queue_step push pop s Pop =
     (case pop s of (None, s') \<Rightarrow> (PopEmpty, s') | (Some x, s') \<Rightarrow> (Popped x, s'))"

locale bounded_fifo =
  fixes contents :: "'s \<Rightarrow> 'a list"
    and ok :: "'s \<Rightarrow> bool"
    and capacity :: "'s \<Rightarrow> nat"
    and push :: "'s \<Rightarrow> 'a \<Rightarrow> bool \<times> 's"
    and pop :: "'s \<Rightarrow> 'a option \<times> 's"
  assumes push_full: "ok s \<Longrightarrow> length (contents s) = capacity s \<Longrightarrow> push s x = (False, s)"
    and push_room: "ok s \<Longrightarrow> length (contents s) < capacity s \<Longrightarrow>
      \<exists>s'. push s x = (True, s') \<and> ok s' \<and> contents s' = contents s @ [x] \<and> capacity s' = capacity s"
    and pop_empty: "ok s \<Longrightarrow> contents s = [] \<Longrightarrow> pop s = (None, s)"
    and pop_front: "ok s \<Longrightarrow> contents s = x # xs \<Longrightarrow>
      \<exists>s'. pop s = (Some x, s') \<and> ok s' \<and> contents s' = xs \<and> capacity s' = capacity s"
    and bounded: "ok s \<Longrightarrow> length (contents s) \<le> capacity s"
begin

lemma step_cases:
  assumes "ok s"
  shows "case queue_step push pop s op of
     (ev, s') \<Rightarrow> ok s' \<and> capacity s' = capacity s \<and>
       contents s @ pushed_items [ev] = popped_items [ev] @ contents s' \<and>
       (ev = PopEmpty \<longrightarrow> contents s = []) \<and>
       (\<forall>x. ev = PushRefused x \<longrightarrow> length (contents s) = capacity s)"
proof (cases op)
  case (Push x)
  show ?thesis
  proof (cases "length (contents s) = capacity s")
    case True
    with Push assms show ?thesis by (simp add: push_full)
  next
    case False
    with bounded [OF assms] have "length (contents s) < capacity s" by simp
    from push_room [OF assms this, of x] Push show ?thesis by auto
  qed
next
  case Pop
  show ?thesis
  proof (cases "contents s")
    case Nil
    with Pop assms show ?thesis by (simp add: pop_empty)
  next
    case (Cons x xs)
    from pop_front [OF assms this] Pop Cons show ?thesis by auto
  qed
qed

lemma fifo:
  "ok s \<Longrightarrow> run (queue_step push pop) s ops = (evs, s') \<Longrightarrow>
     contents s @ pushed_items evs = popped_items evs @ contents s' \<and> ok s' \<and> capacity s' = capacity s"
proof (induction ops arbitrary: s evs)
  case Nil
  then show ?case by (simp add: run.simps)
next
  case (Cons op ops)
  obtain ev s1 where step: "queue_step push pop s op = (ev, s1)" by fastforce
  then obtain evs1 where rest: "run (queue_step push pop) s1 ops = (evs1, s')" and evs: "evs = ev # evs1"
    using Cons(3) by (auto simp: run.simps split: prod.splits)
  have eff: "ok s1" "capacity s1 = capacity s" "contents s @ pushed_items [ev] = popped_items [ev] @ contents s1"
    using step_cases [OF Cons(2), of op] step by auto
  have "contents s1 @ pushed_items evs1 = popped_items evs1 @ contents s'" "ok s'" "capacity s' = capacity s1"
    using Cons(1) [OF eff(1) rest] by auto
  with eff evs show ?case
    using items_Cons [of ev evs1] by (metis append.assoc)
qed

end

section \<open>Rings\<close>

text \<open>
  \<open>ConnectionWorkQueue\<close> and \<open>ReadyActorQueue\<close> are the same ring over a fixed vector; the second
  raises instead of returning a flag.
\<close>

record 'a ring_queue =
  rq_items :: "'a list"
  rq_head :: nat
  rq_tail :: nat
  rq_size :: nat

datatype ring_error = ZeroCapacity | RingFull | RingUnderflow

definition make_ring :: "'a \<Rightarrow> nat \<Rightarrow> ring_error + 'a ring_queue" where
  "make_ring blank capacity =
     (if capacity = 0 then Inl ZeroCapacity
      else Inr \<lparr>rq_items = replicate capacity blank, rq_head = 0, rq_tail = 0, rq_size = 0\<rparr>)"

definition work_tryPush :: "'a ring_queue \<Rightarrow> 'a \<Rightarrow> bool \<times> 'a ring_queue" where
  "work_tryPush q x =
     (if rq_size q = length (rq_items q) then (False, q)
      else (True, q\<lparr>rq_items := (rq_items q)[rq_tail q := x],
                    rq_tail := (rq_tail q + 1) mod length (rq_items q), rq_size := rq_size q + 1\<rparr>))"

definition work_tryPop :: "'a ring_queue \<Rightarrow> 'a option \<times> 'a ring_queue" where
  "work_tryPop q =
     (if rq_size q = 0 then (None, q)
      else (Some (rq_items q ! rq_head q),
            q\<lparr>rq_head := (rq_head q + 1) mod length (rq_items q), rq_size := rq_size q - 1\<rparr>))"

definition work_clear :: "'a ring_queue \<Rightarrow> 'a ring_queue" where
  "work_clear q = q\<lparr>rq_head := 0, rq_tail := 0, rq_size := 0\<rparr>"

definition ready_push :: "'a ring_queue \<Rightarrow> 'a \<Rightarrow> ring_error + 'a ring_queue" where
  "ready_push q x =
     (if rq_size q = length (rq_items q) then Inl RingFull
      else Inr (q\<lparr>rq_items := (rq_items q)[rq_tail q := x],
                  rq_tail := (rq_tail q + 1) mod length (rq_items q), rq_size := rq_size q + 1\<rparr>))"

definition ready_pop :: "'a ring_queue \<Rightarrow> ring_error + 'a \<times> 'a ring_queue" where
  "ready_pop q =
     (if rq_size q = 0 then Inl RingUnderflow
      else Inr (rq_items q ! rq_head q,
                q\<lparr>rq_head := (rq_head q + 1) mod length (rq_items q), rq_size := rq_size q - 1\<rparr>))"

definition ring_ok :: "'a ring_queue \<Rightarrow> bool" where
  "ring_ok q \<longleftrightarrow>
     0 < length (rq_items q) \<and> rq_head q < length (rq_items q) \<and> rq_size q \<le> length (rq_items q) \<and>
     rq_tail q = (rq_head q + rq_size q) mod length (rq_items q)"

definition ring_contents :: "'a ring_queue \<Rightarrow> 'a list" where
  "ring_contents q = map (\<lambda>k. rq_items q ! ((rq_head q + k) mod length (rq_items q))) [0 ..< rq_size q]"

lemma mod_add_cancel_left_less:
  fixes i j n h :: nat
  assumes "i < n" and "j < n" and "(h + i) mod n = (h + j) mod n"
  shows "i = j"
proof -
  have "(int h + int i) mod int n = (int h + int j) mod int n"
    using assms(3) by (metis of_nat_add of_nat_mod)
  then have "int i mod int n = int j mod int n"
    by (metis add_diff_cancel_left' mod_diff_left_eq)
  then show ?thesis using assms(1,2) by simp
qed

lemma ring_positions_distinct:
  fixes i j n h :: nat
  assumes "i < n" and "j < n" and "i \<noteq> j"
  shows "(h + i) mod n \<noteq> (h + j) mod n"
  using assms mod_add_cancel_left_less [of i n j h] by blast

lemma ring_push_contents:
  assumes "ring_ok q" and "rq_size q < length (rq_items q)"
  shows "ring_contents (q\<lparr>rq_items := (rq_items q)[rq_tail q := x],
     rq_tail := (rq_tail q + 1) mod length (rq_items q), rq_size := rq_size q + 1\<rparr>) = ring_contents q @ [x]"
proof -
  let ?n = "length (rq_items q)"
  have tail: "rq_tail q = (rq_head q + rq_size q) mod ?n" "rq_tail q < ?n" using assms by (auto simp: ring_ok_def)
  have "(rq_items q)[rq_tail q := x] ! ((rq_head q + k) mod ?n) = rq_items q ! ((rq_head q + k) mod ?n)"
    if "k < rq_size q" for k
    using ring_positions_distinct [of "rq_size q" ?n k "rq_head q"] that assms(2) tail(1) by simp
  then show ?thesis using tail by (simp add: ring_contents_def)
qed

lemma ring_pop_contents:
  assumes "ring_ok q" and "rq_size q \<noteq> 0"
  shows "ring_contents q = rq_items q ! rq_head q #
    ring_contents (q\<lparr>rq_head := (rq_head q + 1) mod length (rq_items q), rq_size := rq_size q - 1\<rparr>)"
proof -
  have "[0 ..< rq_size q] = 0 # map Suc [0 ..< rq_size q - 1]"
    using assms(2) by (simp add: upt_conv_Cons map_Suc_upt)
  then show ?thesis
    using assms by (simp add: ring_contents_def ring_ok_def comp_def mod_simps)
qed

interpretation work_ring: bounded_fifo ring_contents ring_ok "\<lambda>q. length (rq_items q)" work_tryPush work_tryPop
proof
  fix q :: "'a ring_queue" and x
  assume ok: "ring_ok q"
  have len: "length (ring_contents q) = rq_size q" by (simp add: ring_contents_def)
  show "length (ring_contents q) \<le> length (rq_items q)" using ok len by (simp add: ring_ok_def)
  show "length (ring_contents q) = length (rq_items q) \<Longrightarrow> work_tryPush q x = (False, q)"
    using len by (simp add: work_tryPush_def)
  show "ring_contents q = [] \<Longrightarrow> work_tryPop q = (None, q)"
    using len by (auto simp: work_tryPop_def)
  show "\<exists>q'. work_tryPush q x = (True, q') \<and> ring_ok q' \<and> ring_contents q' = ring_contents q @ [x] \<and>
      length (rq_items q') = length (rq_items q)" if "length (ring_contents q) < length (rq_items q)"
    using that ok len ring_push_contents [OF ok, of x]
    by (auto simp: work_tryPush_def ring_ok_def mod_simps)
  show "\<exists>q'. work_tryPop q = (Some y, q') \<and> ring_ok q' \<and> ring_contents q' = ys \<and>
      length (rq_items q') = length (rq_items q)" if "ring_contents q = y # ys" for y ys
  proof -
    have size: "rq_size q \<noteq> 0" using that len by auto
    then have "(rq_head q + rq_size q) mod length (rq_items q) =
        (Suc (rq_head q) mod length (rq_items q) + (rq_size q - Suc 0)) mod length (rq_items q)"
      by (simp only: mod_add_left_eq) simp
    with size that ok ring_pop_contents [OF ok] show ?thesis
      by (auto simp: work_tryPop_def ring_ok_def mod_simps)
  qed
qed

text \<open>The raising ring is the flag-returning ring with its refusals as errors, so it shares the facts.\<close>

lemma ready_push_work:
  "ready_push q x = (case work_tryPush q x of (ok, q') \<Rightarrow> if ok then Inr q' else Inl RingFull)"
  by (simp add: ready_push_def work_tryPush_def)

lemma ready_pop_work:
  "ready_pop q = (case work_tryPop q of (None, _) \<Rightarrow> Inl RingUnderflow | (Some x, q') \<Rightarrow> Inr (x, q'))"
  by (simp add: ready_pop_def work_tryPop_def)

lemma make_ring_ok: "make_ring blank capacity = Inr q \<Longrightarrow>
    ring_ok q \<and> ring_contents q = [] \<and> length (rq_items q) = capacity"
  by (auto simp: make_ring_def ring_ok_def ring_contents_def split: if_splits)

lemma work_clear_ok: "ring_ok q \<Longrightarrow> ring_ok (work_clear q) \<and> ring_contents (work_clear q) = []"
  by (auto simp: work_clear_def ring_ok_def ring_contents_def)

lemma ready_push_room:
  assumes "ring_ok q" and "length (ring_contents q) < length (rq_items q)"
  obtains q' where "ready_push q x = Inr q'" "ring_ok q'" "ring_contents q' = ring_contents q @ [x]"
    "length (rq_items q') = length (rq_items q)"
  using work_ring.push_room [OF assms, of x] by (auto simp: ready_push_work)

lemma ready_pop_front:
  assumes "ring_ok q" and "ring_contents q = x # xs"
  obtains q' where "ready_pop q = Inr (x, q')" "ring_ok q'" "ring_contents q' = xs"
    "length (rq_items q') = length (rq_items q)"
  using work_ring.pop_front [OF assms] by (auto simp: ready_pop_work)

text \<open>
  A work queue of any positive capacity delivers, in the order of arrival and without loss or
  duplication, exactly the handles it accepted: after any interleaving of pushes and pops, the
  accepted handles are the delivered ones followed by those still in the ring, at most
  \<open>capacity\<close> of them.
\<close>

lemma work_queue_fifo:
  assumes "make_ring blank capacity = Inr q"
    and "run (queue_step work_tryPush work_tryPop) q ops = (evs, q')"
  shows "pushed_items evs = popped_items evs @ ring_contents q' \<and> length (ring_contents q') \<le> capacity"
  using make_ring_ok [OF assms(1)] work_ring.fifo [OF _ assms(2)] work_ring.bounded [of q']
  by simp

theorem work_queue_fifo_witness:
  "case make_ring (0 :: nat) 2 of Inl _ \<Rightarrow> False
   | Inr q \<Rightarrow> (case run (queue_step work_tryPush work_tryPop) q [Push 7, Push 8, Push 9, Pop, Push 5, Pop] of
       (evs, q') \<Rightarrow> pushed_items evs = [7, 8, 5] \<and> popped_items evs = [7, 8] \<and> ring_contents q' = [5] \<and>
         pushed_items evs = popped_items evs @ ring_contents q' \<and> length (ring_contents q') \<le> 2)"
  using work_queue_fifo [of "0 :: nat" 2 _ "[Push 7, Push 8, Push 9, Pop, Push 5, Pop]"]
  by (simp add: make_ring_def run.simps work_tryPush_def work_tryPop_def ring_contents_def
      numeral_2_eq_2 split: prod.splits)

section \<open>The mutex-guarded queue\<close>

datatype 'r awaited = Blocks | Returns 'r

record 'a bounded_queue =
  bq_capacity :: nat
  bq_items :: "'a list"
  bq_high_water_mark :: nat
  bq_closed :: bool
  bq_cancelled :: bool

definition BoundedQueue :: "nat \<Rightarrow> 'a bounded_queue option" where
  "BoundedQueue capacity =
     (if capacity = 0 then None
      else Some \<lparr>bq_capacity = capacity, bq_items = [], bq_high_water_mark = 0,
                 bq_closed = False, bq_cancelled = False\<rparr>)"

definition updateHighWaterMark :: "'a bounded_queue \<Rightarrow> 'a bounded_queue" where
  "updateHighWaterMark q =
     (if bq_high_water_mark q < length (bq_items q) then q\<lparr>bq_high_water_mark := length (bq_items q)\<rparr> else q)"

definition bq_tryPush :: "'a bounded_queue \<Rightarrow> 'a \<Rightarrow> bool \<times> 'a bounded_queue" where
  "bq_tryPush q x =
     (if bq_closed q \<or> bq_cancelled q \<or> length (bq_items q) = bq_capacity q then (False, q)
      else (True, updateHighWaterMark (q\<lparr>bq_items := bq_items q @ [x]\<rparr>)))"

definition bq_push :: "'a bounded_queue \<Rightarrow> 'a \<Rightarrow> bool awaited \<times> 'a bounded_queue" where
  "bq_push q x =
     (if \<not> (bq_cancelled q \<or> bq_closed q \<or> length (bq_items q) < bq_capacity q) then (Blocks, q)
      else if bq_closed q \<or> bq_cancelled q then (Returns False, q)
      else (Returns True, updateHighWaterMark (q\<lparr>bq_items := bq_items q @ [x]\<rparr>)))"

text \<open>With a stop token, a requested stop ends the wait and the predicate's value is what it returns.\<close>

definition bq_push_stoppable :: "'a bounded_queue \<Rightarrow> 'a \<Rightarrow> bool \<Rightarrow> bool awaited \<times> 'a bounded_queue" where
  "bq_push_stoppable q x stop_requested =
     (let can_push = bq_cancelled q \<or> bq_closed q \<or> length (bq_items q) < bq_capacity q in
      if \<not> can_push \<and> \<not> stop_requested then (Blocks, q)
      else if \<not> can_push \<or> stop_requested \<or> bq_closed q \<or> bq_cancelled q then (Returns False, q)
      else (Returns True, updateHighWaterMark (q\<lparr>bq_items := bq_items q @ [x]\<rparr>)))"

definition bq_pop :: "'a bounded_queue \<Rightarrow> 'a option awaited \<times> 'a bounded_queue" where
  "bq_pop q =
     (if \<not> (bq_cancelled q \<or> bq_items q \<noteq> [] \<or> bq_closed q) then (Blocks, q)
      else if bq_cancelled q \<or> bq_items q = [] then (Returns None, q)
      else (Returns (Some (hd (bq_items q))), q\<lparr>bq_items := tl (bq_items q)\<rparr>))"

definition bq_tryPop :: "'a bounded_queue \<Rightarrow> 'a option \<times> 'a bounded_queue" where
  "bq_tryPop q =
     (if bq_cancelled q \<or> bq_items q = [] then (None, q)
      else (Some (hd (bq_items q)), q\<lparr>bq_items := tl (bq_items q)\<rparr>))"

definition bq_close :: "'a bounded_queue \<Rightarrow> 'a bounded_queue" where
  "bq_close q = q\<lparr>bq_closed := True\<rparr>"

definition bq_cancel :: "'a bounded_queue \<Rightarrow> nat \<times> 'a bounded_queue" where
  "bq_cancel q = (length (bq_items q), q\<lparr>bq_cancelled := True, bq_items := []\<rparr>)"

lemma updateHighWaterMark_fields [simp]:
  "bq_items (updateHighWaterMark q) = bq_items q" "bq_capacity (updateHighWaterMark q) = bq_capacity q"
  "bq_closed (updateHighWaterMark q) = bq_closed q" "bq_cancelled (updateHighWaterMark q) = bq_cancelled q"
  "bq_high_water_mark (updateHighWaterMark q) = max (bq_high_water_mark q) (length (bq_items q))"
  by (auto simp: updateHighWaterMark_def)

text \<open>While it is open, the guarded queue is a bounded FIFO.\<close>

definition bq_open_ok :: "'a bounded_queue \<Rightarrow> bool" where
  "bq_open_ok q \<longleftrightarrow> \<not> bq_closed q \<and> \<not> bq_cancelled q \<and> length (bq_items q) \<le> bq_capacity q"

interpretation guarded: bounded_fifo bq_items bq_open_ok bq_capacity bq_tryPush bq_tryPop
  by unfold_locales (auto simp: bq_open_ok_def bq_tryPush_def bq_tryPop_def)

text \<open>Any call of any thread, in the order in which the calls take the mutex.\<close>

datatype 'a bq_call =
    TryPushCall 'a | PushCall 'a | PushStoppableCall 'a bool | PopCall | TryPopCall | CloseCall | CancelCall

datatype 'a bq_event = Accepted 'a | Delivered 'a | Refused | NoItem | Waits | Done | Discarded nat

fun bq_step :: "'a bounded_queue \<Rightarrow> 'a bq_call \<Rightarrow> 'a bq_event \<times> 'a bounded_queue" where
  "bq_step q (TryPushCall x) = (case bq_tryPush q x of (ok, q') \<Rightarrow> (if ok then Accepted x else Refused, q'))"
| "bq_step q (PushCall x) = (case bq_push q x of (Blocks, q') \<Rightarrow> (Waits, q')
     | (Returns ok, q') \<Rightarrow> (if ok then Accepted x else Refused, q'))"
| "bq_step q (PushStoppableCall x stop) = (case bq_push_stoppable q x stop of (Blocks, q') \<Rightarrow> (Waits, q')
     | (Returns ok, q') \<Rightarrow> (if ok then Accepted x else Refused, q'))"
| "bq_step q PopCall = (case bq_pop q of (Blocks, q') \<Rightarrow> (Waits, q')
     | (Returns None, q') \<Rightarrow> (NoItem, q') | (Returns (Some x), q') \<Rightarrow> (Delivered x, q'))"
| "bq_step q TryPopCall = (case bq_tryPop q of (None, q') \<Rightarrow> (NoItem, q') | (Some x, q') \<Rightarrow> (Delivered x, q'))"
| "bq_step q CloseCall = (Done, bq_close q)"
| "bq_step q CancelCall = (case bq_cancel q of (n, q') \<Rightarrow> (Discarded n, q'))"

lemmas bq_op_defs = bq_tryPush_def bq_push_def bq_push_stoppable_def bq_pop_def bq_tryPop_def
  bq_close_def bq_cancel_def

fun accepted_of :: "'a bq_event list \<Rightarrow> 'a list" where
  "accepted_of [] = []"
| "accepted_of (Accepted x # evs) = x # accepted_of evs"
| "accepted_of (_ # evs) = accepted_of evs"

fun delivered_of :: "'a bq_event list \<Rightarrow> 'a list" where
  "delivered_of [] = []"
| "delivered_of (Delivered x # evs) = x # delivered_of evs"
| "delivered_of (_ # evs) = delivered_of evs"

fun discarded_of :: "'a bq_event list \<Rightarrow> nat" where
  "discarded_of [] = 0"
| "discarded_of (Discarded n # evs) = n + discarded_of evs"
| "discarded_of (_ # evs) = discarded_of evs"

lemma bq_events_Cons:
  "accepted_of (ev # evs) = accepted_of [ev] @ accepted_of evs"
  "delivered_of (ev # evs) = delivered_of [ev] @ delivered_of evs"
  "discarded_of (ev # evs) = discarded_of [ev] + discarded_of evs"
  by (cases ev; simp)+

definition bq_inv :: "'a bounded_queue \<Rightarrow> bool" where
  "bq_inv q \<longleftrightarrow> 0 < bq_capacity q \<and> length (bq_items q) \<le> bq_high_water_mark q \<and>
     bq_high_water_mark q \<le> bq_capacity q \<and> (bq_cancelled q \<longrightarrow> bq_items q = [])"

lemma bq_step_effect:
  assumes "bq_inv q" and "bq_step q c = (ev, q')"
  shows "bq_inv q' \<and> bq_capacity q' = bq_capacity q \<and> (bq_closed q \<longrightarrow> bq_closed q' \<and> accepted_of [ev] = []) \<and>
    (bq_cancelled q \<longrightarrow> bq_cancelled q' \<and> accepted_of [ev] = [] \<and> delivered_of [ev] = []) \<and>
    (\<exists>lost. bq_items q @ accepted_of [ev] = delivered_of [ev] @ lost @ bq_items q' \<and>
       length lost = discarded_of [ev] \<and> (lost \<noteq> [] \<longrightarrow> bq_cancelled q'))"
proof (cases c)
  case CancelCall
  with assms show ?thesis by (auto simp: bq_op_defs bq_inv_def)
next
  case PopCall
  with assms show ?thesis
    by (cases "bq_items q") (auto simp: bq_op_defs bq_inv_def split: if_splits)
next
  case TryPopCall
  with assms show ?thesis
    by (cases "bq_items q") (auto simp: bq_op_defs bq_inv_def split: if_splits)
qed (use assms in \<open>auto simp: bq_op_defs bq_inv_def Let_def split: if_splits\<close>)

lemma bq_run_effect:
  "bq_inv q \<Longrightarrow> run bq_step q cs = (evs, q') \<Longrightarrow>
   bq_inv q' \<and> bq_capacity q' = bq_capacity q \<and> (bq_cancelled q \<longrightarrow> bq_cancelled q' \<and> delivered_of evs = []) \<and>
   (bq_closed q \<or> bq_cancelled q \<longrightarrow> accepted_of evs = []) \<and>
   (\<exists>lost. bq_items q @ accepted_of evs = delivered_of evs @ lost @ bq_items q' \<and> length lost = discarded_of evs)"
proof (induction cs arbitrary: q evs)
  case Nil
  then show ?case by (simp add: run.simps)
next
  case (Cons c cs)
  obtain ev q1 where step: "bq_step q c = (ev, q1)" by fastforce
  then obtain evs1 where rest: "run bq_step q1 cs = (evs1, q')" and evs: "evs = ev # evs1"
    using Cons(3) by (auto simp: run.simps split: prod.splits)
  note eff = bq_step_effect [OF Cons(2) step]
  then have IH: "bq_inv q'" "bq_capacity q' = bq_capacity q1"
      "bq_cancelled q1 \<longrightarrow> bq_cancelled q' \<and> delivered_of evs1 = []"
      "bq_closed q1 \<or> bq_cancelled q1 \<longrightarrow> accepted_of evs1 = []"
    using Cons(1) [OF _ rest] by blast+
  obtain lost1 where l1: "bq_items q @ accepted_of [ev] = delivered_of [ev] @ lost1 @ bq_items q1"
      "length lost1 = discarded_of [ev]" "lost1 \<noteq> [] \<longrightarrow> bq_cancelled q1" using eff by blast
  obtain lost2 where l2: "bq_items q1 @ accepted_of evs1 = delivered_of evs1 @ lost2 @ bq_items q'"
      "length lost2 = discarded_of evs1" using Cons(1) [OF _ rest] eff by blast
  have "lost1 @ delivered_of evs1 = delivered_of evs1 @ lost1" using l1(3) IH(3) by (cases lost1) auto
  then have "bq_items q @ accepted_of evs = delivered_of evs @ (lost1 @ lost2) @ bq_items q'"
    using l1(1) l2(1) evs bq_events_Cons [of ev evs1] by (metis append.assoc)
  moreover have "length (lost1 @ lost2) = discarded_of evs"
    using l1(2) l2(2) evs bq_events_Cons [of ev evs1] by simp
  ultimately show ?case using IH eff evs bq_events_Cons [of ev evs1] by (metis append_Nil)
qed


text \<open>
  Whatever calls the threads make and in whatever order they take the mutex, a guarded queue
  accounts for every item it accepted: the accepted sequence is the delivered sequence, then the
  items a \<open>cancel\<close> discarded (as many as it reported), then the items still queued. Its size never
  exceeds the high-water mark, nor that the capacity.
\<close>

lemma bounded_queue_accounts:
  assumes "BoundedQueue capacity = Some q" and "run bq_step q cs = (evs, q')"
  shows "(\<exists>lost. accepted_of evs = delivered_of evs @ lost @ bq_items q' \<and> length lost = discarded_of evs) \<and>
    length (bq_items q') \<le> bq_high_water_mark q' \<and> bq_high_water_mark q' \<le> capacity"
proof -
  have start: "bq_inv q" "bq_items q = []" "bq_capacity q = capacity"
    using assms(1) by (auto simp: BoundedQueue_def bq_inv_def split: if_splits)
  show ?thesis using bq_run_effect [OF start(1) assms(2)] start(2,3) unfolding bq_inv_def by simp
qed

theorem bounded_queue_accounts_witness:
  "case BoundedQueue 2 of None \<Rightarrow> False
   | Some q \<Rightarrow> (case run bq_step q [PushCall 1, TryPushCall 2, PushCall 3, PopCall, PushCall (4 :: nat), CancelCall, PopCall] of
       (evs, q') \<Rightarrow> evs = [Accepted 1, Accepted 2, Waits, Delivered 1, Accepted 4, Discarded 2, NoItem] \<and>
         (\<exists>lost. accepted_of evs = delivered_of evs @ lost @ bq_items q' \<and> length lost = discarded_of evs) \<and>
         length (bq_items q') \<le> bq_high_water_mark q' \<and> bq_high_water_mark q' \<le> 2)"
proof -
  let ?cs = "[PushCall 1, TryPushCall 2, PushCall 3, PopCall, PushCall (4 :: nat), CancelCall, PopCall]"
  obtain q :: "nat bounded_queue" where q: "BoundedQueue 2 = Some q" by (simp add: BoundedQueue_def)
  obtain evs q' where r: "run bq_step q ?cs = (evs, q')" by fastforce
  have "evs = [Accepted 1, Accepted 2, Waits, Delivered 1, Accepted 4, Discarded 2, NoItem]"
    using q r by (auto simp: BoundedQueue_def run.simps bq_op_defs numeral_2_eq_2)
  with bounded_queue_accounts [OF q r] q r show ?thesis by simp
qed

text \<open>
  No two sides wait for each other: when a producer has to wait, a consumer does not, and once the
  queue is closed or cancelled nobody does. A closed queue still delivers what it holds.
\<close>

lemma no_mutual_wait:
  assumes "bq_inv q"
  shows "fst (bq_push q x) \<noteq> Blocks \<or> fst (bq_pop q) \<noteq> Blocks"
  using assms by (auto simp: bq_op_defs bq_inv_def)

lemma closed_never_blocks:
  "bq_closed q \<or> bq_cancelled q \<Longrightarrow> fst (bq_push q x) = Returns False \<and> fst (bq_pop q) \<noteq> Blocks"
  by (auto simp: bq_op_defs)

lemma closed_drains:
  "bq_closed q \<Longrightarrow> \<not> bq_cancelled q \<Longrightarrow> bq_items q = x # xs \<Longrightarrow>
     bq_pop q = (Returns (Some x), q\<lparr>bq_items := xs\<rparr>)"
  by (simp add: bq_op_defs)

end
