(* ===== verification/Inbox_Lane.thy ===== *)
theory Inbox_Lane
  imports Queues
begin

text \<open>
  One lane of a worker's inbox (\<open>InboxLane\<close> of \<^verbatim>\<open>include/snf/worker/inbox.hpp\<close> and
  \<^verbatim>\<open>src/worker/inbox.cpp\<close>): a lock-free ring between one producer thread and one consumer thread.
  \<open>lane_tryPush\<close> and \<open>lane_tryPop\<close> are the two methods run without interference. For their
  interleaving each method is split into its accesses of the shared fields, one step per atomic load
  or store and one per construction or destruction of a slot; a step on a slot in the wrong state
  leads to a fault. The steps interleave in a sequentially consistent memory, which is what the
  acquire and release orders of the source give for the accesses the algorithm depends on.
\<close>

section \<open>The lane and its methods\<close>

record 'e worker_envelope =
  we_event :: 'e
  we_charged_bytes :: u32

datatype inbox_push_result = InboxAccepted | InboxFull | InboxClosed

abbreviation LANE_CAPACITY :: nat where
  "LANE_CAPACITY \<equiv> 1024"

record 'e inbox_lane =
  il_max_queued_bytes :: u64
  il_closed :: bool
  il_tail :: u64
  il_produced_bytes :: u64
  il_head :: u64
  il_consumed_bytes :: u64
  il_slots :: "'e worker_envelope option list"

definition InboxLane :: "u64 \<Rightarrow> 'e inbox_lane" where
  "InboxLane max_queued_bytes =
     \<lparr>il_max_queued_bytes = max_queued_bytes, il_closed = False, il_tail = 0, il_produced_bytes = 0,
      il_head = 0, il_consumed_bytes = 0, il_slots = replicate LANE_CAPACITY None\<rparr>"

definition configure :: "'e inbox_lane \<Rightarrow> u64 \<Rightarrow> 'e inbox_lane" where
  "configure l max_queued_bytes = l\<lparr>il_max_queued_bytes := max_queued_bytes\<rparr>"

definition slot_index :: "u64 \<Rightarrow> nat" where
  "slot_index position = unat (position AND 1023)"

definition queued_between :: "u64 \<Rightarrow> u64 \<Rightarrow> u64" where
  "queued_between produced consumed = (if produced \<ge> consumed then produced - consumed else 0)"

definition lane_tryPush :: "'e inbox_lane \<Rightarrow> 'e worker_envelope \<Rightarrow> inbox_push_result \<times> 'e inbox_lane" where
  "lane_tryPush l envelope =
     (if il_closed l then (InboxClosed, l)
      else if il_tail l - il_head l \<ge> 1024 then (InboxFull, l)
      else if queued_between (il_produced_bytes l) (il_consumed_bytes l) + ucast (we_charged_bytes envelope)
              > il_max_queued_bytes l then (InboxFull, l)
      else (InboxAccepted,
            l\<lparr>il_slots := (il_slots l)[slot_index (il_tail l) := Some envelope],
              il_produced_bytes := il_produced_bytes l + ucast (we_charged_bytes envelope),
              il_tail := il_tail l + 1\<rparr>))"

text \<open>The slot between head and tail holds an envelope; \<open>lane_no_loss\<close> below shows it.\<close>

definition lane_tryPop :: "'e inbox_lane \<Rightarrow> 'e worker_envelope option \<times> 'e inbox_lane" where
  "lane_tryPop l =
     (if il_head l = il_tail l then (None, l)
      else case il_slots l ! slot_index (il_head l) of
        None \<Rightarrow> (None, l)
      | Some envelope \<Rightarrow>
         (Some envelope,
          l\<lparr>il_slots := (il_slots l)[slot_index (il_head l) := None],
            il_consumed_bytes := il_consumed_bytes l + ucast (we_charged_bytes envelope),
            il_head := il_head l + 1\<rparr>))"

definition lane_close :: "'e inbox_lane \<Rightarrow> 'e inbox_lane" where
  "lane_close l = l\<lparr>il_closed := True\<rparr>"

definition lane_approximateQueuedBytes :: "'e inbox_lane \<Rightarrow> u64" where
  "lane_approximateQueuedBytes l = queued_between (il_produced_bytes l) (il_consumed_bytes l)"

definition lane_isEmpty :: "'e inbox_lane \<Rightarrow> bool" where
  "lane_isEmpty l \<longleftrightarrow> il_head l = il_tail l"

section \<open>The methods as interleaved steps\<close>

datatype 'e producer_pc =
    PIdle "inbox_push_result option"
  | PClosedLoad "'e worker_envelope"
  | PTailLoad "'e worker_envelope"
  | PHeadLoad "'e worker_envelope" u64
  | PProducedLoad "'e worker_envelope" u64
  | PConsumedLoad "'e worker_envelope" u64 u64
  | PConstruct "'e worker_envelope" u64 u64
  | PBytesStore "'e worker_envelope" u64 u64
  | PTailStore "'e worker_envelope" u64
  | PFault

datatype 'e consumer_pc =
    CIdle "'e worker_envelope option"
  | CHeadLoad
  | CTailLoad u64
  | CTake u64
  | CConsumedLoad u64 "'e worker_envelope"
  | CBytesStore u64 "'e worker_envelope" u64
  | CHeadStore u64 "'e worker_envelope"
  | CFault

fun producer_step :: "'e inbox_lane \<Rightarrow> 'e producer_pc \<Rightarrow> 'e inbox_lane \<times> 'e producer_pc" where
  "producer_step l (PClosedLoad e) = (l, if il_closed l then PIdle (Some InboxClosed) else PTailLoad e)"
| "producer_step l (PTailLoad e) = (l, PHeadLoad e (il_tail l))"
| "producer_step l (PHeadLoad e tail) =
     (l, if tail - il_head l \<ge> 1024 then PIdle (Some InboxFull) else PProducedLoad e tail)"
| "producer_step l (PProducedLoad e tail) = (l, PConsumedLoad e tail (il_produced_bytes l))"
| "producer_step l (PConsumedLoad e tail produced) =
     (l, if queued_between produced (il_consumed_bytes l) + ucast (we_charged_bytes e) > il_max_queued_bytes l
         then PIdle (Some InboxFull) else PConstruct e tail produced)"
| "producer_step l (PConstruct e tail produced) =
     (if il_slots l ! slot_index tail = None
      then (l\<lparr>il_slots := (il_slots l)[slot_index tail := Some e]\<rparr>, PBytesStore e tail produced)
      else (l, PFault))"
| "producer_step l (PBytesStore e tail produced) =
     (l\<lparr>il_produced_bytes := produced + ucast (we_charged_bytes e)\<rparr>, PTailStore e tail)"
| "producer_step l (PTailStore e tail) = (l\<lparr>il_tail := tail + 1\<rparr>, PIdle (Some InboxAccepted))"
| "producer_step l pc = (l, pc)"

fun consumer_step :: "'e inbox_lane \<Rightarrow> 'e consumer_pc \<Rightarrow> 'e inbox_lane \<times> 'e consumer_pc" where
  "consumer_step l CHeadLoad = (l, CTailLoad (il_head l))"
| "consumer_step l (CTailLoad head) = (l, if head = il_tail l then CIdle None else CTake head)"
| "consumer_step l (CTake head) =
     (case il_slots l ! slot_index head of
        Some e \<Rightarrow> (l\<lparr>il_slots := (il_slots l)[slot_index head := None]\<rparr>, CConsumedLoad head e)
      | None \<Rightarrow> (l, CFault))"
| "consumer_step l (CConsumedLoad head e) = (l, CBytesStore head e (il_consumed_bytes l))"
| "consumer_step l (CBytesStore head e consumed) =
     (l\<lparr>il_consumed_bytes := consumed + ucast (we_charged_bytes e)\<rparr>, CHeadStore head e)"
| "consumer_step l (CHeadStore head e) = (l\<lparr>il_head := head + 1\<rparr>, CIdle (Some e))"
| "consumer_step l pc = (l, pc)"

text \<open>
  The two threads around one lane, with the history of what \<open>tryPush\<close> accepted (recorded by its
  store of the tail) and of what \<open>tryPop\<close> returned (recorded by its store of the head).
\<close>

record 'e lane_system =
  ls_lane :: "'e inbox_lane"
  ls_producer :: "'e producer_pc"
  ls_consumer :: "'e consumer_pc"
  ls_accepted :: "'e worker_envelope list"
  ls_delivered :: "'e worker_envelope list"

datatype 'e lane_thread_action = CallPush "'e worker_envelope" | StepProducer | CallPop | StepConsumer | CloseLane

definition lane_system_init :: "u64 \<Rightarrow> 'e lane_system" where
  "lane_system_init max_queued_bytes =
     \<lparr>ls_lane = InboxLane max_queued_bytes, ls_producer = PIdle None, ls_consumer = CIdle None,
      ls_accepted = [], ls_delivered = []\<rparr>"

fun lane_action :: "'e lane_system \<Rightarrow> 'e lane_thread_action \<Rightarrow> 'e lane_system" where
  "lane_action s (CallPush e) = (case ls_producer s of PIdle _ \<Rightarrow> s\<lparr>ls_producer := PClosedLoad e\<rparr> | _ \<Rightarrow> s)"
| "lane_action s StepProducer =
     (case producer_step (ls_lane s) (ls_producer s) of (l, pc) \<Rightarrow>
        s\<lparr>ls_lane := l, ls_producer := pc,
          ls_accepted := (case ls_producer s of PTailStore e _ \<Rightarrow> ls_accepted s @ [e] | _ \<Rightarrow> ls_accepted s)\<rparr>)"
| "lane_action s CallPop = (case ls_consumer s of CIdle _ \<Rightarrow> s\<lparr>ls_consumer := CHeadLoad\<rparr> | _ \<Rightarrow> s)"
| "lane_action s StepConsumer =
     (case consumer_step (ls_lane s) (ls_consumer s) of (l, pc) \<Rightarrow>
        s\<lparr>ls_lane := l, ls_consumer := pc,
          ls_delivered := (case ls_consumer s of CHeadStore _ e \<Rightarrow> ls_delivered s @ [e] | _ \<Rightarrow> ls_delivered s)\<rparr>)"
| "lane_action s CloseLane = s\<lparr>ls_lane := lane_close (ls_lane s)\<rparr>"

inductive lane_reachable :: "u64 \<Rightarrow> 'e lane_system \<Rightarrow> bool" for max_queued_bytes :: u64 where
  start: "lane_reachable max_queued_bytes (lane_system_init max_queued_bytes)"
| step: "lane_reachable max_queued_bytes s \<Longrightarrow> lane_reachable max_queued_bytes (lane_action s a)"

lemma lane_reachable_foldl: "lane_reachable m s \<Longrightarrow> lane_reachable m (foldl lane_action s as)"
  by (induction as arbitrary: s) (auto intro: lane_reachable.step)

section \<open>The window of occupied slots\<close>

lemma slot_index_of_nat: "slot_index (of_nat n) = n mod LANE_CAPACITY"
proof -
  have "(of_nat n :: u64) AND 1023 = take_bit 10 (of_nat n)"
    by (simp add: take_bit_eq_mask mask_eq_exp_minus_1)
  then have "slot_index (of_nat n) = take_bit 10 (unat (of_nat n :: u64))"
    by (simp only: slot_index_def unsigned_take_bit_eq)
  then show ?thesis by (simp only: unsigned_of_nat take_bit_take_bit) (simp add: take_bit_eq_mod mod_mod_cancel)
qed

definition slots_hold :: "'a option list \<Rightarrow> nat \<Rightarrow> 'a list \<Rightarrow> bool" where
  "slots_hold slots lo full \<longleftrightarrow>
     length slots = LANE_CAPACITY \<and> lo \<le> length full \<and> length full \<le> lo + LANE_CAPACITY \<and>
     (\<forall>i. lo \<le> i \<longrightarrow> i < lo + LANE_CAPACITY \<longrightarrow>
        slots ! (i mod LANE_CAPACITY) = (if i < length full then Some (full ! i) else None))"

lemma window_distinct:
  fixes i j :: nat
  assumes "lo \<le> i" "i < lo + LANE_CAPACITY" "lo \<le> j" "j < lo + LANE_CAPACITY" "i \<noteq> j"
  shows "i mod LANE_CAPACITY \<noteq> j mod LANE_CAPACITY"
  using ring_positions_distinct [of "i - lo" LANE_CAPACITY "j - lo" lo] assms by simp

lemma slots_build:
  assumes "slots_hold slots lo full" and "length full < lo + LANE_CAPACITY"
  shows "slots ! (length full mod LANE_CAPACITY) = None"
    and "slots_hold (slots[length full mod LANE_CAPACITY := Some e]) lo (full @ [e])"
proof -
  show "slots ! (length full mod LANE_CAPACITY) = None" using assms by (simp add: slots_hold_def)
  have "slots[length full mod LANE_CAPACITY := Some e] ! (i mod LANE_CAPACITY) =
      (if i < length (full @ [e]) then Some ((full @ [e]) ! i) else None)"
    if "lo \<le> i" "i < lo + LANE_CAPACITY" for i
  proof (cases "i = length full")
    case True
    then show ?thesis using assms(1) by (simp add: slots_hold_def)
  next
    case False
    then show ?thesis
      using assms that window_distinct [of lo i "length full"] by (auto simp: slots_hold_def nth_append)
  qed
  then show "slots_hold (slots[length full mod LANE_CAPACITY := Some e]) lo (full @ [e])"
    using assms by (simp add: slots_hold_def)
qed

lemma slots_take:
  assumes "slots_hold slots lo full" and "lo < length full"
  shows "slots ! (lo mod LANE_CAPACITY) = Some (full ! lo)"
    and "slots_hold (slots[lo mod LANE_CAPACITY := None]) (Suc lo) full"
proof -
  show "slots ! (lo mod LANE_CAPACITY) = Some (full ! lo)" using assms by (simp add: slots_hold_def)
  have "slots[lo mod LANE_CAPACITY := None] ! (i mod LANE_CAPACITY) =
      (if i < length full then Some (full ! i) else None)"
    if "Suc lo \<le> i" "i < Suc lo + LANE_CAPACITY" for i
  proof (cases "i = lo + LANE_CAPACITY")
    case True
    then show ?thesis using assms(1) by (simp add: slots_hold_def)
  next
    case False
    then show ?thesis
      using assms that window_distinct [of lo i lo] by (auto simp: slots_hold_def)
  qed
  then show "slots_hold (slots[lo mod LANE_CAPACITY := None]) (Suc lo) full"
    using assms by (simp add: slots_hold_def)
qed

section \<open>The invariant of the two threads\<close>

primrec producer_constructed :: "'e producer_pc \<Rightarrow> 'e worker_envelope list" where
  "producer_constructed (PIdle r) = []"
| "producer_constructed (PClosedLoad e) = []"
| "producer_constructed (PTailLoad e) = []"
| "producer_constructed (PHeadLoad e t) = []"
| "producer_constructed (PProducedLoad e t) = []"
| "producer_constructed (PConsumedLoad e t p) = []"
| "producer_constructed (PConstruct e t p) = []"
| "producer_constructed (PBytesStore e t p) = [e]"
| "producer_constructed (PTailStore e t) = [e]"
| "producer_constructed PFault = []"

primrec consumer_taken :: "'e consumer_pc \<Rightarrow> nat" where
  "consumer_taken (CIdle r) = 0"
| "consumer_taken CHeadLoad = 0"
| "consumer_taken (CTailLoad h) = 0"
| "consumer_taken (CTake h) = 0"
| "consumer_taken (CConsumedLoad h e) = 1"
| "consumer_taken (CBytesStore h e c) = 1"
| "consumer_taken (CHeadStore h e) = 1"
| "consumer_taken CFault = 0"

text \<open>What the locals of each thread say about the shared fields; \<open>room\<close> is a free slot.\<close>

primrec producer_ok :: "'e inbox_lane \<Rightarrow> bool \<Rightarrow> 'e producer_pc \<Rightarrow> bool" where
  "producer_ok l room (PIdle r) = True"
| "producer_ok l room (PClosedLoad e) = True"
| "producer_ok l room (PTailLoad e) = True"
| "producer_ok l room (PHeadLoad e t) = (t = il_tail l)"
| "producer_ok l room (PProducedLoad e t) = (t = il_tail l \<and> room)"
| "producer_ok l room (PConsumedLoad e t p) = (t = il_tail l \<and> room \<and> p = il_produced_bytes l)"
| "producer_ok l room (PConstruct e t p) = (t = il_tail l \<and> room \<and> p = il_produced_bytes l)"
| "producer_ok l room (PBytesStore e t p) = (t = il_tail l \<and> room \<and> p = il_produced_bytes l)"
| "producer_ok l room (PTailStore e t) = (t = il_tail l \<and> room)"
| "producer_ok l room PFault = False"

primrec consumer_ok :: "'e inbox_lane \<Rightarrow> 'e worker_envelope list \<Rightarrow> 'e consumer_pc \<Rightarrow> bool" where
  "consumer_ok l queued (CIdle r) = True"
| "consumer_ok l queued CHeadLoad = True"
| "consumer_ok l queued (CTailLoad h) = (h = il_head l)"
| "consumer_ok l queued (CTake h) = (h = il_head l \<and> queued \<noteq> [])"
| "consumer_ok l queued (CConsumedLoad h e) = (h = il_head l \<and> queued \<noteq> [] \<and> e = hd queued)"
| "consumer_ok l queued (CBytesStore h e c) =
     (h = il_head l \<and> queued \<noteq> [] \<and> e = hd queued \<and> c = il_consumed_bytes l)"
| "consumer_ok l queued (CHeadStore h e) = (h = il_head l \<and> queued \<noteq> [] \<and> e = hd queued)"
| "consumer_ok l queued CFault = False"

definition queued_of :: "'e lane_system \<Rightarrow> 'e worker_envelope list" where
  "queued_of s = drop (length (ls_delivered s)) (ls_accepted s)"

definition lane_inv :: "'e lane_system \<Rightarrow> bool" where
  "lane_inv s \<longleftrightarrow>
     ls_accepted s = ls_delivered s @ queued_of s \<and> length (queued_of s) \<le> LANE_CAPACITY \<and>
     il_tail (ls_lane s) = of_nat (length (ls_accepted s)) \<and>
     il_head (ls_lane s) = of_nat (length (ls_delivered s)) \<and>
     slots_hold (il_slots (ls_lane s)) (length (ls_delivered s) + consumer_taken (ls_consumer s))
       (ls_accepted s @ producer_constructed (ls_producer s)) \<and>
     producer_ok (ls_lane s) (length (queued_of s) < LANE_CAPACITY) (ls_producer s) \<and>
     consumer_ok (ls_lane s) (queued_of s) (ls_consumer s)"

lemma lane_inv_init: "lane_inv (lane_system_init m)"
  by (simp add: lane_inv_def lane_system_init_def InboxLane_def queued_of_def slots_hold_def)

lemma producer_ok_mono:
  "producer_ok l room pc \<Longrightarrow> (room \<longrightarrow> room') \<Longrightarrow> il_tail l' = il_tail l \<Longrightarrow>
    il_produced_bytes l' = il_produced_bytes l \<Longrightarrow> producer_ok l' room' pc"
  by (cases pc) auto

lemma consumer_ok_mono:
  "consumer_ok l queued pc \<Longrightarrow> il_head l' = il_head l \<Longrightarrow> il_consumed_bytes l' = il_consumed_bytes l \<Longrightarrow>
    consumer_ok l' (queued @ later) pc"
  by (cases pc) auto

lemma head_distance:
  assumes "length queued \<le> LANE_CAPACITY"
  shows "unat ((of_nat (length del + length queued) :: u64) - of_nat (length del)) = length queued"
proof -
  have "(of_nat (length del + length queued) :: u64) - of_nat (length del) = of_nat (length queued)" by simp
  then show ?thesis using assms by (simp add: unat_of_nat take_bit_nat_eq_self)
qed

lemma lane_inv_fullE:
  assumes "lane_inv s" and "t = il_tail (ls_lane s)"
  shows "(t - il_head (ls_lane s) \<ge> 1024) = (length (queued_of s) = LANE_CAPACITY)"
    and "(il_head (ls_lane s) = t) = (queued_of s = [])"
proof -
  have len: "length (ls_accepted s) = length (ls_delivered s) + length (queued_of s)"
    and cap: "length (queued_of s) \<le> LANE_CAPACITY"
    and tail: "t = of_nat (length (ls_accepted s))" "il_head (ls_lane s) = of_nat (length (ls_delivered s))"
    using assms unfolding lane_inv_def by (metis length_append)+
  have d: "unat (t - il_head (ls_lane s)) = length (queued_of s)"
    using head_distance [OF cap, of "ls_delivered s"] len tail by simp
  show "(t - il_head (ls_lane s) \<ge> 1024) = (length (queued_of s) = LANE_CAPACITY)"
    using d cap by (auto simp: word_le_nat_alt)
  show "(il_head (ls_lane s) = t) = (queued_of s = [])"
    using d by (metis eq_iff_diff_eq_0 length_0_conv unat_0_iff)
qed

lemma lane_invD:
  assumes "lane_inv s"
  shows "producer_ok (ls_lane s) (length (queued_of s) < LANE_CAPACITY) (ls_producer s)"
    and "consumer_ok (ls_lane s) (queued_of s) (ls_consumer s)"
    and "length (ls_delivered s) \<le> length (ls_accepted s)"
proof -
  show "length (ls_delivered s) \<le> length (ls_accepted s)"
    using assms unfolding lane_inv_def by (metis le_add1 length_append)
qed (use assms in \<open>simp_all add: lane_inv_def\<close>)

lemma lane_inv_producer:
  assumes "lane_inv s"
  shows "lane_inv (lane_action s StepProducer)"
proof (cases "ls_producer s")
  case (PHeadLoad e t)
  with assms lane_inv_fullE(1) [OF assms, of t] show ?thesis
    by (auto simp: lane_inv_def queued_of_def)
next
  case (PConstruct e t p)
  have hold: "slots_hold (il_slots (ls_lane s)) (length (ls_delivered s) + consumer_taken (ls_consumer s)) (ls_accepted s)"
    and room: "length (ls_accepted s) < length (ls_delivered s) + consumer_taken (ls_consumer s) + LANE_CAPACITY"
    and t: "slot_index t = length (ls_accepted s) mod LANE_CAPACITY"
    using assms PConstruct slot_index_of_nat [of "length (ls_accepted s)"]
    by (auto simp: lane_inv_def queued_of_def)
  note built = slots_build [OF hold room]
  have cons: "consumer_ok (ls_lane s\<lparr>il_slots := sl\<rparr>) (queued_of s) (ls_consumer s)" for sl
    using consumer_ok_mono [OF lane_invD(2) [OF assms], of _ "[]"] by simp
  show ?thesis
    using assms PConstruct built(1) built(2) [of e] cons t by (simp add: lane_inv_def queued_of_def)
next
  case (PBytesStore e t p)
  have "consumer_ok (ls_lane s\<lparr>il_produced_bytes := b\<rparr>) (queued_of s) (ls_consumer s)" for b
    using consumer_ok_mono [OF lane_invD(2) [OF assms], of _ "[]"] by simp
  with assms PBytesStore show ?thesis by (auto simp: lane_inv_def queued_of_def)
next
  case (PTailStore e t)
  have q: "queued_of (lane_action s StepProducer) = queued_of s @ [e]"
    and acc: "ls_accepted (lane_action s StepProducer) = ls_accepted s @ [e]"
    using lane_invD(3) [OF assms] PTailStore by (auto simp: queued_of_def)
  have "consumer_ok (ls_lane s\<lparr>il_tail := b\<rparr>) (queued_of s @ [e]) (ls_consumer s)" for b
    using consumer_ok_mono [OF lane_invD(2) [OF assms], of _ "[e]"] by simp
  with assms PTailStore q acc show ?thesis
    by (auto simp: lane_inv_def add.commute)
qed (use assms in \<open>auto simp: lane_inv_def queued_of_def\<close>)

lemma lane_inv_consumer:
  assumes "lane_inv s"
  shows "lane_inv (lane_action s StepConsumer)"
proof (cases "ls_consumer s")
  case (CTailLoad h)
  with assms lane_inv_fullE(2) [OF assms] show ?thesis
    by (auto simp: lane_inv_def queued_of_def)
next
  case (CTake h)
  let ?full = "ls_accepted s @ producer_constructed (ls_producer s)"
  have hold: "slots_hold (il_slots (ls_lane s)) (length (ls_delivered s)) ?full"
    and less: "length (ls_delivered s) < length ?full"
    and h: "slot_index h = length (ls_delivered s) mod LANE_CAPACITY"
    and hd: "?full ! length (ls_delivered s) = hd (queued_of s)"
    using assms CTake slot_index_of_nat [of "length (ls_delivered s)"]
    by (auto simp: lane_inv_def queued_of_def hd_drop_conv_nth nth_append)
  note taken = slots_take [OF hold less]
  have "producer_ok (ls_lane s\<lparr>il_slots := b\<rparr>) (length (queued_of s) < LANE_CAPACITY) (ls_producer s)" for b
    by (rule producer_ok_mono [OF lane_invD(1) [OF assms]]) simp_all
  with assms CTake taken h hd show ?thesis by (auto simp: lane_inv_def queued_of_def)
next
  case (CBytesStore h e c)
  have "producer_ok (ls_lane s\<lparr>il_consumed_bytes := b\<rparr>) (length (queued_of s) < LANE_CAPACITY) (ls_producer s)" for b
    by (rule producer_ok_mono [OF lane_invD(1) [OF assms]]) simp_all
  with assms CBytesStore show ?thesis by (auto simp: lane_inv_def queued_of_def)
next
  case (CHeadStore h e)
  then obtain rest where q: "queued_of s = e # rest"
    using assms by (cases "queued_of s") (auto simp: lane_inv_def)
  have acc: "ls_accepted s = ls_delivered s @ e # rest" using assms q by (simp add: lane_inv_def)
  have q': "queued_of (lane_action s StepConsumer) = rest"
    and del: "ls_delivered (lane_action s StepConsumer) = ls_delivered s @ [e]"
    and acc': "ls_accepted (lane_action s StepConsumer) = ls_accepted s"
    using CHeadStore acc by (auto simp: queued_of_def)
  have "producer_ok (ls_lane s\<lparr>il_head := b\<rparr>) (length rest < LANE_CAPACITY) (ls_producer s)" for b
    by (rule producer_ok_mono [OF lane_invD(1) [OF assms]]) (simp_all add: q)
  with assms CHeadStore acc q q' del acc' show ?thesis by (auto simp: lane_inv_def add.commute)
qed (use assms in \<open>auto simp: lane_inv_def queued_of_def\<close>)

lemma lane_inv_action:
  assumes "lane_inv s"
  shows "lane_inv (lane_action s a)"
proof (cases a)
  case (CallPush e)
  with assms show ?thesis by (cases "ls_producer s") (auto simp: lane_inv_def queued_of_def)
next
  case CallPop
  with assms show ?thesis by (cases "ls_consumer s") (auto simp: lane_inv_def queued_of_def)
next
  case CloseLane
  have "producer_ok (lane_close (ls_lane s)) room (ls_producer s) = producer_ok (ls_lane s) room (ls_producer s)"
    "consumer_ok (lane_close (ls_lane s)) q (ls_consumer s) = consumer_ok (ls_lane s) q (ls_consumer s)" for room q
    by (cases "ls_producer s"; simp add: lane_close_def)(cases "ls_consumer s"; simp add: lane_close_def)
  with assms CloseLane show ?thesis by (auto simp: lane_inv_def queued_of_def lane_close_def)
qed (use assms lane_inv_producer lane_inv_consumer in auto)

lemma lane_reachable_inv: "lane_reachable m s \<Longrightarrow> lane_inv s"
  by (induction rule: lane_reachable.induct) (auto intro: lane_inv_init lane_inv_action simp del: lane_action.simps)

section \<open>The byte limit\<close>

definition charge_of :: "'e worker_envelope list \<Rightarrow> nat" where
  "charge_of es = sum_list (map (\<lambda>e. unat (we_charged_bytes e)) es)"

lemma charge_of_simps [simp]:
  "charge_of [] = 0" "charge_of (e # es) = unat (we_charged_bytes e) + charge_of es" "charge_of (es @ fs) = charge_of es + charge_of fs"
  by (simp_all add: charge_of_def)

lemma charge_of_split: "charge_of es = charge_of (take n es) + charge_of (drop n es)"
  by (metis append_take_drop_id charge_of_simps(3))

primrec producer_counted :: "'e producer_pc \<Rightarrow> 'e worker_envelope list" where
  "producer_counted (PIdle r) = []"
| "producer_counted (PClosedLoad e) = []"
| "producer_counted (PTailLoad e) = []"
| "producer_counted (PHeadLoad e t) = []"
| "producer_counted (PProducedLoad e t) = []"
| "producer_counted (PConsumedLoad e t p) = []"
| "producer_counted (PConstruct e t p) = []"
| "producer_counted (PBytesStore e t p) = []"
| "producer_counted (PTailStore e t) = [e]"
| "producer_counted PFault = []"

primrec producer_admitted :: "'e producer_pc \<Rightarrow> 'e worker_envelope list" where
  "producer_admitted (PIdle r) = []"
| "producer_admitted (PClosedLoad e) = []"
| "producer_admitted (PTailLoad e) = []"
| "producer_admitted (PHeadLoad e t) = []"
| "producer_admitted (PProducedLoad e t) = []"
| "producer_admitted (PConsumedLoad e t p) = []"
| "producer_admitted (PConstruct e t p) = [e]"
| "producer_admitted (PBytesStore e t p) = [e]"
| "producer_admitted (PTailStore e t) = [e]"
| "producer_admitted PFault = []"

primrec consumer_counted :: "'e consumer_pc \<Rightarrow> 'e worker_envelope list" where
  "consumer_counted (CIdle r) = []"
| "consumer_counted CHeadLoad = []"
| "consumer_counted (CTailLoad h) = []"
| "consumer_counted (CTake h) = []"
| "consumer_counted (CConsumedLoad h e) = []"
| "consumer_counted (CBytesStore h e c) = []"
| "consumer_counted (CHeadStore h e) = [e]"
| "consumer_counted CFault = []"

definition produced_total :: "'e lane_system \<Rightarrow> nat" where
  "produced_total s = charge_of (ls_accepted s @ producer_counted (ls_producer s))"

definition admitted_total :: "'e lane_system \<Rightarrow> nat" where
  "admitted_total s = charge_of (ls_accepted s @ producer_admitted (ls_producer s))"

definition consumed_total :: "'e lane_system \<Rightarrow> nat" where
  "consumed_total s = charge_of (ls_delivered s @ consumer_counted (ls_consumer s))"

lemmas lane_totals = produced_total_def admitted_total_def consumed_total_def

definition byte_inv :: "u64 \<Rightarrow> 'e lane_system \<Rightarrow> bool" where
  "byte_inv m s \<longleftrightarrow>
     il_max_queued_bytes (ls_lane s) = m \<and>
     il_produced_bytes (ls_lane s) = of_nat (produced_total s) \<and>
     il_consumed_bytes (ls_lane s) = of_nat (consumed_total s) \<and>
     (admitted_total s < 2 ^ 64 \<longrightarrow> admitted_total s \<le> unat m + consumed_total s)"

lemma consumed_le_produced:
  assumes "lane_inv s"
  shows "consumed_total s \<le> produced_total s"
proof -
  have acc: "charge_of (ls_accepted s) = charge_of (ls_delivered s) + charge_of (queued_of s)"
    using assms unfolding lane_inv_def by (metis charge_of_simps(3))
  have "charge_of (consumer_counted (ls_consumer s)) \<le> charge_of (queued_of s)"
    using lane_invD(2) [OF assms] by (cases "ls_consumer s"; cases "queued_of s") auto
  with acc show ?thesis by (simp add: lane_totals)
qed

lemma counted_le_admitted: "produced_total s \<le> admitted_total s"
  by (cases "ls_producer s") (auto simp: lane_totals)

lemma admission_check:
  fixes m :: u64
  assumes "p < 2 ^ 64" and "c \<le> p" and "p \<le> unat m + c" and "unat m + 2 ^ 32 \<le> 2 ^ 64"
    and "\<not> queued_between (of_nat p) (of_nat c) + ucast (ch :: u32) > m"
  shows "p + unat ch \<le> unat m + c"
proof -
  have u: "unat (of_nat p :: u64) = p" "unat (of_nat c :: u64) = c"
    using assms(1,2) by (auto simp: unat_of_nat take_bit_nat_eq_self)
  have q: "unat (queued_between (of_nat p) (of_nat c)) = p - c"
    using u assms(2) by (simp add: queued_between_def word_le_nat_alt unat_sub)
  have "unat ch < 2 ^ 32" using unsigned_less [where ?'a = nat, of ch] by simp
  then have ch: "unat (ucast ch :: u64) = unat ch" "unat ch < 2 ^ 32"
    by (simp_all add: unsigned_ucast_eq take_bit_nat_eq_self)
  have "unat (queued_between (of_nat p) (of_nat c) + ucast ch) = p - c + unat ch"
    using q ch assms(2,3,4) by (subst unat_add_lem [THEN iffD1]) auto
  with assms(2,5) show ?thesis by (simp add: word_less_nat_alt)
qed

lemma byte_inv_producer:
  assumes "lane_inv s" and "byte_inv m s" and "unat m + 2 ^ 32 \<le> 2 ^ 64"
  shows "byte_inv m (lane_action s StepProducer)"
proof (cases "ls_producer s")
  case (PConsumedLoad e t p)
  then have "p = of_nat (produced_total s)"
    using lane_invD(1) [OF assms(1)] assms(2) by (simp add: byte_inv_def)
  moreover have "produced_total s = admitted_total s" using PConsumedLoad by (simp add: lane_totals)
  ultimately show ?thesis
    using assms(2,3) PConsumedLoad consumed_le_produced [OF assms(1)]
      admission_check [of "produced_total s" "consumed_total s" m "we_charged_bytes e"]
    by (auto simp: byte_inv_def lane_totals)
next
  case (PConstruct e t p)
  with assms(2) lane_inv_producer [OF assms(1)] show ?thesis
    by (auto simp: byte_inv_def lane_totals lane_inv_def)
next
  case (PBytesStore e t p)
  with assms(2) lane_invD(1) [OF assms(1)] show ?thesis
    by (auto simp: byte_inv_def lane_totals unat_of_nat)
qed (use assms(2) in \<open>auto simp: byte_inv_def lane_totals\<close>)

lemma byte_inv_consumer:
  assumes "lane_inv s" and "byte_inv m s"
  shows "byte_inv m (lane_action s StepConsumer)"
proof (cases "ls_consumer s")
  case (CTake h)
  with assms(2) lane_inv_consumer [OF assms(1)] show ?thesis
    by (auto simp: byte_inv_def lane_totals lane_inv_def split: option.splits)
next
  case (CBytesStore h e c)
  with assms(2) lane_invD(2) [OF assms(1)] show ?thesis
    by (auto simp: byte_inv_def lane_totals)
qed (use assms(2) in \<open>auto simp: byte_inv_def lane_totals\<close>)

lemma byte_inv_action:
  assumes "lane_inv s" and "byte_inv m s" and "unat m + 2 ^ 32 \<le> 2 ^ 64"
  shows "byte_inv m (lane_action s a)"
proof (cases a)
  case (CallPush e)
  with assms(2) show ?thesis by (cases "ls_producer s") (auto simp: byte_inv_def lane_totals)
next
  case CallPop
  with assms(2) show ?thesis by (cases "ls_consumer s") (auto simp: byte_inv_def lane_totals)
next
  case CloseLane
  with assms(2) show ?thesis by (auto simp: byte_inv_def lane_totals lane_close_def)
qed (use byte_inv_producer [OF assms] byte_inv_consumer [OF assms(1,2)] in auto)

lemma lane_reachable_byte_inv:
  "lane_reachable m s \<Longrightarrow> unat m + 2 ^ 32 \<le> 2 ^ 64 \<Longrightarrow> byte_inv m s"
proof (induction rule: lane_reachable.induct)
  case start
  show ?case by (simp add: byte_inv_def lane_totals lane_system_init_def InboxLane_def)
next
  case (step s a)
  then show ?case using byte_inv_action lane_reachable_inv by blast
qed

section \<open>The contract of a lane\<close>

text \<open>
  C29: In every interleaving of the accesses of the producing and the consuming thread, with closes at
  any point, no envelope is constructed over a live one and none is read from an empty slot; the
  consumer receives the accepted envelopes in order, none lost, repeated or reordered, and at most
  1024 of them are pending. The 64-bit positions may wrap around.
\<close>

theorem lane_no_loss:
  assumes "lane_reachable max_queued_bytes s"
  shows "ls_producer s \<noteq> PFault \<and> ls_consumer s \<noteq> CFault \<and>
    (\<exists>pending. ls_accepted s = ls_delivered s @ pending \<and> length pending \<le> LANE_CAPACITY)"
  using lane_reachable_inv [OF assms] lane_invD(1,2) [OF lane_reachable_inv [OF assms]]
  unfolding lane_inv_def by auto

definition sample_schedule :: "nat lane_thread_action list" where
  "sample_schedule =
     [CallPush \<lparr>we_event = 7, we_charged_bytes = 3\<rparr>, StepProducer, StepProducer, StepProducer, StepProducer,
      CallPop, StepConsumer, StepProducer, StepProducer, StepProducer, StepProducer,
      StepConsumer, StepConsumer, StepConsumer]"

lemma sample_schedule_result:
  "ls_accepted (foldl lane_action (lane_system_init 100) sample_schedule) = [\<lparr>we_event = 7, we_charged_bytes = 3\<rparr>]"
  "ls_delivered (foldl lane_action (lane_system_init 100) sample_schedule) = []"
  "ls_producer (foldl lane_action (lane_system_init 100) sample_schedule) = PIdle (Some InboxAccepted)"
  by (simp_all add: sample_schedule_def lane_system_init_def InboxLane_def slot_index_def queued_between_def)

theorem lane_no_loss_witness:
  "\<exists>s. lane_reachable 100 s \<and> map we_event (ls_accepted s) = [7 :: nat] \<and> ls_delivered s = [] \<and>
     ls_producer s \<noteq> PFault \<and> ls_consumer s \<noteq> CFault \<and>
     (\<exists>pending. ls_accepted s = ls_delivered s @ pending \<and> length pending \<le> LANE_CAPACITY)"
proof -
  let ?s = "foldl lane_action (lane_system_init 100) sample_schedule"
  have r: "lane_reachable 100 ?s" by (rule lane_reachable_foldl [OF lane_reachable.start])
  show ?thesis
    using r sample_schedule_result lane_no_loss [OF r] by (intro exI [of _ ?s]) simp
qed

text \<open>
  C30: The envelopes present in a lane, the one under construction included, never charge_of more than the
  lane's configured maximum, whatever the interleaving; for totals below \<open>2 ^ 64\<close> and a maximum that
  leaves room for one 32-bit charge_of.
\<close>

theorem lane_bytes_bounded:
  assumes "lane_reachable max_queued_bytes s" and "unat max_queued_bytes + 2 ^ 32 \<le> 2 ^ 64"
    and "charge_of (ls_accepted s @ producer_admitted (ls_producer s)) < 2 ^ 64"
  shows "charge_of (drop (length (ls_delivered s) + consumer_taken (ls_consumer s))
            (ls_accepted s @ producer_constructed (ls_producer s))) \<le> unat max_queued_bytes"
proof -
  note li = lane_reachable_inv [OF assms(1)]
  have acc: "ls_accepted s = ls_delivered s @ queued_of s" using li by (simp add: lane_inv_def)
  let ?full = "ls_accepted s @ producer_constructed (ls_producer s)"
  let ?n = "length (ls_delivered s) + consumer_taken (ls_consumer s)"
  have "charge_of ?full \<le> admitted_total s" by (cases "ls_producer s") (auto simp: lane_totals)
  also have "\<dots> \<le> unat max_queued_bytes + consumed_total s"
    using lane_reachable_byte_inv [OF assms(1,2)] assms(3) by (simp add: byte_inv_def admitted_total_def)
  finally have "charge_of ?full \<le> unat max_queued_bytes + consumed_total s" .
  moreover have "consumed_total s \<le> charge_of (take ?n ?full)"
    using lane_invD(2) [OF li] acc by (cases "ls_consumer s"; cases "queued_of s") (auto simp: lane_totals)
  ultimately show ?thesis using charge_of_split [of ?full ?n] by linarith
qed

theorem lane_bytes_bounded_witness:
  "\<exists>s. lane_reachable 100 s \<and> map we_event (ls_accepted s) = [7 :: nat] \<and>
     charge_of (ls_accepted s @ producer_admitted (ls_producer s)) = 3 \<and>
     charge_of (drop (length (ls_delivered s) + consumer_taken (ls_consumer s))
            (ls_accepted s @ producer_constructed (ls_producer s))) \<le> unat (100 :: u64)"
proof -
  let ?s = "foldl lane_action (lane_system_init 100) sample_schedule"
  have r: "lane_reachable 100 ?s" by (rule lane_reachable_foldl [OF lane_reachable.start])
  show ?thesis
    using r sample_schedule_result lane_bytes_bounded [OF r] by (intro exI [of _ ?s]) simp
qed

section \<open>A lane between calls\<close>

text \<open>What the methods do to a lane no other thread is using meanwhile, as a list of pending envelopes.\<close>

definition lane_holds :: "'e inbox_lane \<Rightarrow> 'e worker_envelope list \<Rightarrow> bool" where
  "lane_holds l pending \<longleftrightarrow>
     (\<exists>gone. il_head l = of_nat (length gone) \<and> il_tail l = of_nat (length gone + length pending) \<and>
       length pending \<le> LANE_CAPACITY \<and> slots_hold (il_slots l) (length gone) (gone @ pending))"

lemma lane_holds_new: "lane_holds (InboxLane m) []"
  unfolding lane_holds_def by (rule exI [of _ "[]"]) (simp add: InboxLane_def slots_hold_def)

lemma lane_holds_configure [simp]: "lane_holds (configure l m) xs = lane_holds l xs"
  "lane_holds (lane_close l) xs = lane_holds l xs"
  by (auto simp: lane_holds_def configure_def lane_close_def)

lemma lane_holds_distance:
  assumes "lane_holds l xs"
  shows "unat (il_tail l - il_head l) = length xs"
  using assms head_distance [of xs] by (auto simp: lane_holds_def)

lemma lane_holds_isEmpty:
  assumes "lane_holds l xs"
  shows "lane_isEmpty l = (xs = [])"
  using lane_holds_distance [OF assms]
  by (metis eq_iff_diff_eq_0 lane_isEmpty_def length_0_conv unat_0_iff)

lemma lane_push_holds:
  assumes "lane_holds l xs" and "lane_tryPush l e = (r, l')"
  shows "lane_holds l' (if r = InboxAccepted then xs @ [e] else xs)"
proof (cases "r = InboxAccepted")
  case True
  obtain gone where g: "il_head l = of_nat (length gone)" "il_tail l = of_nat (length (gone @ xs))"
      "slots_hold (il_slots l) (length gone) (gone @ xs)"
    using assms(1) by (auto simp: lane_holds_def)
  have room: "length xs < LANE_CAPACITY"
    using True assms lane_holds_distance [OF assms(1)]
    by (auto simp: lane_tryPush_def word_le_nat_alt split: if_splits)
  have "slots_hold (il_slots l') (length gone) (gone @ xs @ [e])" "il_tail l' = il_tail l + 1" "il_head l' = il_head l"
    using True assms(2) slots_build(2) [OF g(3), of e] room g(2) slot_index_of_nat [of "length (gone @ xs)"]
    by (auto simp: lane_tryPush_def split: if_splits)
  with g room True show ?thesis
    unfolding lane_holds_def by (intro exI [of _ gone]) simp
next
  case False
  with assms show ?thesis by (auto simp: lane_tryPush_def split: if_splits)
qed

lemma lane_pop_holds:
  assumes "lane_holds l xs"
  shows "case xs of [] \<Rightarrow> lane_tryPop l = (None, l)
    | e # rest \<Rightarrow> \<exists>l'. lane_tryPop l = (Some e, l') \<and> lane_holds l' rest"
proof (cases xs)
  case Nil
  with lane_holds_isEmpty [OF assms] show ?thesis by (simp add: lane_tryPop_def lane_isEmpty_def)
next
  case (Cons e rest)
  obtain gone where g: "il_head l = of_nat (length gone)" "il_tail l = of_nat (length gone + length xs)"
      "slots_hold (il_slots l) (length gone) (gone @ xs)" "length xs \<le> LANE_CAPACITY"
    using assms by (auto simp: lane_holds_def)
  have ne: "il_head l \<noteq> il_tail l" using lane_holds_isEmpty [OF assms] Cons by (simp add: lane_isEmpty_def)
  have "length gone < length (gone @ xs)" using Cons by simp
  note taken = slots_take [OF g(3) this]
  have idx: "slot_index (il_head l) = length gone mod LANE_CAPACITY" using g(1) by (simp add: slot_index_of_nat)
  let ?l' = "l\<lparr>il_slots := (il_slots l)[slot_index (il_head l) := None],
      il_consumed_bytes := il_consumed_bytes l + ucast (we_charged_bytes e), il_head := il_head l + 1\<rparr>"
  have "lane_tryPop l = (Some e, ?l')" using ne taken(1) idx Cons by (simp add: lane_tryPop_def)
  moreover have "lane_holds ?l' rest"
    unfolding lane_holds_def
    by (intro exI [of _ "gone @ [e]"]) (use g taken(2) idx Cons in \<open>auto simp: algebra_simps\<close>)
  ultimately show ?thesis using Cons by simp
qed

text \<open>The interleaved steps, run alone, are the methods.\<close>

lemma funpow_unrolled:
  "(f ^^ 6) x = f (f (f (f (f (f x)))))" "(f ^^ 8) x = f (f (f (f (f (f (f (f x)))))))"
  by (simp_all add: eval_nat_numeral)

lemma producer_alone:
  assumes "lane_holds l xs"
  shows "((\<lambda>(l, pc). producer_step l pc) ^^ 8) (l, PClosedLoad e) =
    (snd (lane_tryPush l e), PIdle (Some (fst (lane_tryPush l e))))"
proof -
  obtain gone where g: "il_head l = of_nat (length gone)" "il_tail l = of_nat (length (gone @ xs))"
      "slots_hold (il_slots l) (length gone) (gone @ xs)"
    using assms by (auto simp: lane_holds_def)
  have "il_slots l ! slot_index (il_tail l) = None" if "\<not> il_tail l - il_head l \<ge> 1024"
    using that slots_build(1) [OF g(3)] lane_holds_distance [OF assms] g(2)
      slot_index_of_nat [of "length (gone @ xs)"] by (simp add: word_le_nat_alt)
  then show ?thesis by (simp add: funpow_unrolled lane_tryPush_def)
qed

lemma consumer_alone:
  assumes "lane_holds l xs"
  shows "((\<lambda>(l, pc). consumer_step l pc) ^^ 6) (l, CHeadLoad) =
    (snd (lane_tryPop l), CIdle (fst (lane_tryPop l)))"
proof (cases "il_head l = il_tail l")
  case True
  then show ?thesis by (simp add: funpow_unrolled lane_tryPop_def)
next
  case False
  then obtain e where "il_slots l ! slot_index (il_head l) = Some e"
    using lane_pop_holds [OF assms] lane_holds_isEmpty [OF assms]
    by (cases xs) (auto simp: lane_tryPop_def lane_isEmpty_def split: option.splits)
  with False show ?thesis by (simp add: funpow_unrolled lane_tryPop_def)
qed

end
