(* ===== verification/Inbox.thy ===== *)
theory Inbox
  imports Inbox_Lane
begin

text \<open>
  A worker's inbox (\<open>WorkerInbox\<close> and \<open>WorkerInboxPort\<close> of \<^verbatim>\<open>include/snf/worker/inbox.hpp\<close>, with the
  budget of \<^verbatim>\<open>budget.hpp\<close>): one lane per source worker and the budgeted round-robin drain. The clock
  is a parameter, the \<open>k\<close>-th reading being \<open>clock k\<close>; so are the pushes the other workers complete
  before the drain's \<open>k\<close>-th attempt to pop, \<open>arrivals k\<close>, and those they complete before it looks at lane
  \<open>k\<close> in its final scan for remaining work, \<open>late k\<close>. A push counts at its store of the tail, which is the
  only thing a pop or a look can see of it. The handler's calls are recorded in order.
\<close>

section \<open>The inbox\<close>

record inbox_budget =
  ib_max_events :: nat
  ib_max_per_lane :: nat
  ib_max_duration :: int

record worker_inbox_config =
  wic_max_bytes_per_worker :: u64
  wic_max_workers :: u16

record 'e worker_inbox =
  wi_lanes :: "'e inbox_lane list"
  wi_bound :: "bool list"
  wi_worker_count :: u16
  wi_next_lane :: nat

definition WorkerInbox :: "u16 \<Rightarrow> worker_inbox_config \<Rightarrow> 'e worker_inbox option" where
  "WorkerInbox worker_count config =
     (if worker_count = 0 \<or> worker_count > wic_max_workers config \<or> wic_max_bytes_per_worker config = 0 then None
      else let max_bytes_per_lane = wic_max_bytes_per_worker config div ucast worker_count in
        Some \<lparr>wi_lanes = map (\<lambda>_. configure (InboxLane 0) max_bytes_per_lane) [0 ..< unat worker_count],
              wi_bound = map (\<lambda>_. False) [0 ..< unat worker_count],
              wi_worker_count = worker_count, wi_next_lane = 0\<rparr>)"

text \<open>A port is the index of its lane; \<open>None\<close> is an unbound port.\<close>

definition bindSource :: "'e worker_inbox \<Rightarrow> worker_id \<Rightarrow> nat option \<times> 'e worker_inbox" where
  "bindSource inbox source =
     (if source \<ge> wi_worker_count inbox then (None, inbox)
      else if wi_bound inbox ! unat source then (None, inbox)
      else (Some (unat source), inbox\<lparr>wi_bound := (wi_bound inbox)[unat source := True]\<rparr>))"

text \<open>The second component says that the target's wakeup handle is notified.\<close>

definition port_tryPush ::
    "'e worker_inbox \<Rightarrow> nat option \<Rightarrow> 'e worker_envelope \<Rightarrow> inbox_push_result \<times> bool \<times> 'e worker_inbox" where
  "port_tryPush inbox port envelope =
     (case port of
        None \<Rightarrow> (InboxClosed, False, inbox)
      | Some i \<Rightarrow> (case lane_tryPush (wi_lanes inbox ! i) envelope of
          (result, lane) \<Rightarrow>
            (result, result = InboxAccepted, inbox\<lparr>wi_lanes := (wi_lanes inbox)[i := lane]\<rparr>)))"

definition inbox_close :: "'e worker_inbox \<Rightarrow> 'e worker_inbox" where
  "inbox_close inbox = inbox\<lparr>wi_lanes := map lane_close (wi_lanes inbox)\<rparr>"

definition inbox_isEmpty :: "'e worker_inbox \<Rightarrow> bool" where
  "inbox_isEmpty inbox \<longleftrightarrow> list_all lane_isEmpty (wi_lanes inbox)"

definition inbox_approximateQueuedBytes :: "'e worker_inbox \<Rightarrow> u64" where
  "inbox_approximateQueuedBytes inbox = foldl (\<lambda>total l. total + lane_approximateQueuedBytes l) 0 (wi_lanes inbox)"

definition maxQueuedBytesTotal :: "'e worker_inbox \<Rightarrow> u64" where
  "maxQueuedBytesTotal inbox = foldl (\<lambda>total l. total + il_max_queued_bytes l) 0 (wi_lanes inbox)"

section \<open>The drain\<close>

record 'e drain_state =
  dr_lanes :: "'e inbox_lane list"
  dr_next_lane :: nat
  dr_processed :: nat
  dr_exhausted :: bool
  dr_clock :: nat
  dr_attempts :: nat
  dr_handled :: "(nat \<times> 'e) list"
  dr_arrived :: "(nat \<times> 'e worker_envelope) list"

record drain_result =
  res_processed :: nat
  res_has_more :: bool
  res_budget_exhausted :: bool

fun arrive :: "'e inbox_lane list \<Rightarrow> (nat \<times> 'e worker_envelope) list \<Rightarrow>
    'e inbox_lane list \<times> (nat \<times> 'e worker_envelope) list" where
  "arrive lanes [] = (lanes, [])"
| "arrive lanes ((i, e) # rest) =
     (if i < length lanes then
        case lane_tryPush (lanes ! i) e of (result, lane) \<Rightarrow>
          case arrive (lanes[i := lane]) rest of (lanes', accepted) \<Rightarrow>
            (lanes', if result = InboxAccepted then (i, e) # accepted else accepted)
      else arrive lanes rest)"

definition take_event :: "nat \<Rightarrow> 'e inbox_lane \<Rightarrow> 'e worker_envelope \<Rightarrow> 'e drain_state \<Rightarrow> 'e drain_state" where
  "take_event idx lane envelope st =
     st\<lparr>dr_lanes := (dr_lanes st)[idx := lane], dr_processed := dr_processed st + 1,
        dr_handled := dr_handled st @ [(idx, we_event envelope)]\<rparr>"

definition attempt :: "(nat \<Rightarrow> (nat \<times> 'e worker_envelope) list) \<Rightarrow> 'e drain_state \<Rightarrow> 'e drain_state" where
  "attempt arrivals st =
     (case arrive (dr_lanes st) (arrivals (dr_attempts st)) of (lanes, accepted) \<Rightarrow>
        st\<lparr>dr_lanes := lanes, dr_attempts := dr_attempts st + 1, dr_arrived := dr_arrived st @ accepted\<rparr>)"

text \<open>Reading the clock, with the time limit's verdict.\<close>

definition read_clock :: "inbox_budget \<Rightarrow> (nat \<Rightarrow> int) \<Rightarrow> int \<Rightarrow> 'e drain_state \<Rightarrow> 'e drain_state" where
  "read_clock budget clock start_time st =
     st\<lparr>dr_clock := dr_clock st + 1,
        dr_exhausted := dr_exhausted st \<or> clock (dr_clock st) - start_time \<ge> ib_max_duration budget\<rparr>"

function drain_lane :: "inbox_budget \<Rightarrow> (nat \<Rightarrow> int) \<Rightarrow> (nat \<Rightarrow> (nat \<times> 'e worker_envelope) list) \<Rightarrow> int \<Rightarrow>
    nat \<Rightarrow> nat \<Rightarrow> 'e drain_state \<Rightarrow> nat \<times> 'e drain_state" where
  "drain_lane budget clock arrivals start_time idx lane_processed st =
     (if lane_processed < ib_max_per_lane budget \<and> dr_processed st < ib_max_events budget then
        let st1 = attempt arrivals st in
        case lane_tryPop (dr_lanes st1 ! idx) of
          (None, _) \<Rightarrow> (lane_processed, st1)
        | (Some envelope, lane) \<Rightarrow>
            let st2 = take_event idx lane envelope st1 in
            if dr_processed st2 AND 63 = 0 then
              let st3 = read_clock budget clock start_time st2 in
              if dr_exhausted st3 then (lane_processed + 1, st3)
              else drain_lane budget clock arrivals start_time idx (lane_processed + 1) st3
            else drain_lane budget clock arrivals start_time idx (lane_processed + 1) st2
      else (lane_processed, st))"
  by pat_completeness auto

lemma step_fields [simp]:
  "dr_processed (attempt arrivals st) = dr_processed st"
  "dr_attempts (attempt arrivals st) = dr_attempts st + 1"
  "dr_handled (attempt arrivals st) = dr_handled st"
  "dr_exhausted (attempt arrivals st) = dr_exhausted st"
  "dr_next_lane (attempt arrivals st) = dr_next_lane st"
  "dr_processed (take_event idx lane e st) = dr_processed st + 1"
  "dr_attempts (take_event idx lane e st) = dr_attempts st"
  "dr_exhausted (take_event idx lane e st) = dr_exhausted st"
  "dr_next_lane (take_event idx lane e st) = dr_next_lane st"
  "dr_processed (read_clock budget clock t st) = dr_processed st"
  "dr_attempts (read_clock budget clock t st) = dr_attempts st"
  "dr_next_lane (read_clock budget clock t st) = dr_next_lane st"
  "dr_lanes (read_clock budget clock t st) = dr_lanes st"
  "dr_handled (read_clock budget clock t st) = dr_handled st"
  "dr_arrived (read_clock budget clock t st) = dr_arrived st"
  by (auto simp: attempt_def take_event_def read_clock_def split: prod.splits)

termination drain_lane
  by (relation "measure (\<lambda>(budget, _, _, _, _, _, st). ib_max_events budget - dr_processed st)") auto

declare drain_lane.simps [simp del]

lemma arrive_length: "length (fst (arrive lanes as)) = length lanes"
  by (induction lanes as rule: arrive.induct) (auto split: prod.splits)

lemma step_lengths [simp]:
  "length (dr_lanes (attempt arrivals st)) = length (dr_lanes st)"
  "length (dr_lanes (take_event idx lane e st)) = length (dr_lanes st)"
  using arrive_length [of "dr_lanes st" "arrivals (dr_attempts st)"]
  by (auto simp: attempt_def take_event_def split: prod.splits)

text \<open>
  One visit of a lane as a case distinction: it stops at a limit, at an empty lane, at the time limit,
  or goes on after one event.
\<close>

definition after_event :: "inbox_budget \<Rightarrow> (nat \<Rightarrow> int) \<Rightarrow> int \<Rightarrow> 'e drain_state \<Rightarrow> 'e drain_state" where
  "after_event budget clock t st = (if dr_processed st AND 63 = 0 then read_clock budget clock t st else st)"

lemma after_event_fields [simp]:
  "dr_processed (after_event budget clock t st) = dr_processed st"
  "dr_attempts (after_event budget clock t st) = dr_attempts st"
  "dr_next_lane (after_event budget clock t st) = dr_next_lane st"
  "dr_lanes (after_event budget clock t st) = dr_lanes st"
  "dr_handled (after_event budget clock t st) = dr_handled st"
  "dr_arrived (after_event budget clock t st) = dr_arrived st"
  by (auto simp: after_event_def)

lemma drain_lane_unfold:
  assumes "\<not> dr_exhausted st"
  shows "drain_lane budget clock arrivals t idx n st =
    (if n < ib_max_per_lane budget \<and> dr_processed st < ib_max_events budget then
       case lane_tryPop (dr_lanes (attempt arrivals st) ! idx) of
         (None, _) \<Rightarrow> (n, attempt arrivals st)
       | (Some e, lane) \<Rightarrow>
           (let st' = after_event budget clock t (take_event idx lane e (attempt arrivals st)) in
            if dr_exhausted st' then (n + 1, st') else drain_lane budget clock arrivals t idx (n + 1) st')
     else (n, st))"
  using assms by (subst drain_lane.simps) (auto simp: Let_def after_event_def split: prod.splits option.splits)

lemma drain_lane_induct [consumes 1, case_names limit empty timeout event]:
  assumes start: "\<not> dr_exhausted st"
    and limit: "\<And>n st. \<not> dr_exhausted st \<Longrightarrow>
      \<not> (n < ib_max_per_lane budget \<and> dr_processed st < ib_max_events budget) \<Longrightarrow> P n st (n, st)"
    and empty: "\<And>n st lane. \<not> dr_exhausted st \<Longrightarrow> n < ib_max_per_lane budget \<Longrightarrow> dr_processed st < ib_max_events budget \<Longrightarrow>
      lane_tryPop (dr_lanes (attempt arrivals st) ! idx) = (None, lane) \<Longrightarrow> P n st (n, attempt arrivals st)"
    and timeout: "\<And>n st e lane st'. \<not> dr_exhausted st \<Longrightarrow> n < ib_max_per_lane budget \<Longrightarrow> dr_processed st < ib_max_events budget \<Longrightarrow>
      lane_tryPop (dr_lanes (attempt arrivals st) ! idx) = (Some e, lane) \<Longrightarrow>
      st' = after_event budget clock t (take_event idx lane e (attempt arrivals st)) \<Longrightarrow> dr_exhausted st' \<Longrightarrow>
      P n st (n + 1, st')"
    and event: "\<And>n st e lane st' r. \<not> dr_exhausted st \<Longrightarrow> n < ib_max_per_lane budget \<Longrightarrow> dr_processed st < ib_max_events budget \<Longrightarrow>
      lane_tryPop (dr_lanes (attempt arrivals st) ! idx) = (Some e, lane) \<Longrightarrow>
      st' = after_event budget clock t (take_event idx lane e (attempt arrivals st)) \<Longrightarrow> \<not> dr_exhausted st' \<Longrightarrow>
      P (n + 1) st' r \<Longrightarrow> P n st r"
  shows "P n st (drain_lane budget clock arrivals t idx n st)"
  using start
proof (induction "ib_max_events budget - dr_processed st" arbitrary: n st rule: less_induct)
  case less
  show ?case
  proof (cases "n < ib_max_per_lane budget \<and> dr_processed st < ib_max_events budget")
    case False
    show ?thesis
      using limit [OF less(2) False] unfolding drain_lane_unfold [OF less(2)] if_not_P [OF False] .
  next
    case True
    obtain pop lane where pop: "lane_tryPop (dr_lanes (attempt arrivals st) ! idx) = (pop, lane)" by fastforce
    show ?thesis
    proof (cases pop)
      case None
      then show ?thesis using empty [OF less(2)] True pop by (simp add: drain_lane_unfold [OF less(2)])
    next
      case (Some e)
      define st' where "st' = after_event budget clock t (take_event idx lane e (attempt arrivals st))"
      have smaller: "ib_max_events budget - dr_processed st' < ib_max_events budget - dr_processed st"
        using True by (simp add: st'_def diff_less_mono2)
      have popped: "lane_tryPop (dr_lanes (attempt arrivals st) ! idx) = (Some e, lane)" using pop Some by simp
      have unf: "drain_lane budget clock arrivals t idx n st =
          (if dr_exhausted st' then (n + 1, st') else drain_lane budget clock arrivals t idx (n + 1) st')"
        using drain_lane_unfold [OF less(2), of budget clock arrivals t idx n] True popped
        by (simp only: st'_def Let_def simp_thms if_True prod.case option.case)
      show ?thesis
      proof (cases "dr_exhausted st'")
        case True
        then show ?thesis
          using unf timeout [OF less(2) _ _ popped st'_def True] \<open>n < ib_max_per_lane budget \<and> dr_processed st < ib_max_events budget\<close>
          by simp
      next
        case False
        from less(1) [OF smaller False, of "n + 1"] show ?thesis
          using unf event [OF less(2) _ _ popped st'_def False] True False by simp
      qed
    qed
  qed
qed

lemma drain_lane_counts:
  assumes "\<not> dr_exhausted st"
  shows "case drain_lane budget clock arrivals t idx n st of (n', st') \<Rightarrow>
   n \<le> n' \<and> (dr_processed st \<le> ib_max_events budget \<longrightarrow> dr_processed st' \<le> ib_max_events budget) \<and>
   dr_processed st' = dr_processed st + (n' - n) \<and> dr_attempts st' \<le> dr_attempts st + (n' - n) + 1 \<and>
   length (dr_lanes st') = length (dr_lanes st) \<and> dr_next_lane st' = dr_next_lane st"
  using assms
proof (induction rule: drain_lane_induct)
  case (event n st e lane st' r)
  then show ?case by (auto simp: Let_def split: prod.splits)
qed auto

text \<open>The round over the lanes.\<close>

definition visit :: "inbox_budget \<Rightarrow> (nat \<Rightarrow> int) \<Rightarrow> (nat \<Rightarrow> (nat \<times> 'e worker_envelope) list) \<Rightarrow> int \<Rightarrow>
    'e drain_state \<Rightarrow> nat \<times> 'e drain_state" where
  "visit budget clock arrivals start_time st =
     drain_lane budget clock arrivals start_time (dr_next_lane st) 0
       (st\<lparr>dr_next_lane := (dr_next_lane st + 1) mod length (dr_lanes st)\<rparr>)"

function drain_loop :: "inbox_budget \<Rightarrow> (nat \<Rightarrow> int) \<Rightarrow> (nat \<Rightarrow> (nat \<times> 'e worker_envelope) list) \<Rightarrow> int \<Rightarrow>
    nat \<Rightarrow> 'e drain_state \<Rightarrow> 'e drain_state" where
  "drain_loop budget clock arrivals start_time lanes_empty st =
     (if dr_processed st < ib_max_events budget \<and> lanes_empty < length (dr_lanes st) \<and> \<not> dr_exhausted st then
        case visit budget clock arrivals start_time st of
          (lane_processed, st1) \<Rightarrow>
            if dr_exhausted st1 then st1
            else if dr_processed st1 \<ge> ib_max_events budget then st1\<lparr>dr_exhausted := True\<rparr>
            else let st2 = read_clock budget clock start_time st1 in
              if dr_exhausted st2 then st2
              else drain_loop budget clock arrivals start_time
                     (if lane_processed > 0 then 0 else lanes_empty + 1) st2
      else st)"
  by pat_completeness auto

lemma visit_counts:
  assumes "\<not> dr_exhausted st" and "visit budget clock arrivals t st = (n, st')"
  shows "(dr_processed st \<le> ib_max_events budget \<longrightarrow> dr_processed st' \<le> ib_max_events budget)"
    and "dr_processed st' = dr_processed st + n" and "dr_attempts st' \<le> dr_attempts st + n + 1"
    and "length (dr_lanes st') = length (dr_lanes st)"
    and "dr_next_lane st' = (dr_next_lane st + 1) mod length (dr_lanes st)"
proof -
  let ?st = "st\<lparr>dr_next_lane := (dr_next_lane st + 1) mod length (dr_lanes st)\<rparr>"
  have "\<not> dr_exhausted ?st" using assms(1) by simp
  note counts = drain_lane_counts [OF this, where n = 0 and idx = "dr_next_lane st" and budget = budget and
      clock = clock and arrivals = arrivals and t = t]
  show "(dr_processed st \<le> ib_max_events budget \<longrightarrow> dr_processed st' \<le> ib_max_events budget)"
    and "dr_processed st' = dr_processed st + n" and "dr_attempts st' \<le> dr_attempts st + n + 1"
    and "length (dr_lanes st') = length (dr_lanes st)"
    and "dr_next_lane st' = (dr_next_lane st + 1) mod length (dr_lanes st)"
    using counts assms(2) by (auto simp: visit_def)
qed

termination drain_loop
proof (relation "measures [\<lambda>(budget, _, _, _, _, st). ib_max_events budget - dr_processed st,
      \<lambda>(_, _, _, _, empty, st). length (dr_lanes st) - empty]")
  fix budget :: inbox_budget and clock and arrivals :: "nat \<Rightarrow> (nat \<times> 'e worker_envelope) list"
    and t empty and st :: "'e drain_state" and n and st1 st2 :: "'e drain_state"
  assume guard: "dr_processed st < ib_max_events budget \<and> empty < length (dr_lanes st) \<and> \<not> dr_exhausted st"
    and v: "(n, st1) = visit budget clock arrivals t st" and st2: "st2 = read_clock budget clock t st1"
  note counts = visit_counts [OF _ v [symmetric]]
  show "((budget, clock, arrivals, t, if 0 < n then 0 else empty + 1, st2), budget, clock, arrivals, t, empty, st) \<in>
      measures [\<lambda>(budget, _, _, _, _, st). ib_max_events budget - dr_processed st,
        \<lambda>(_, _, _, _, empty, st). length (dr_lanes st) - empty]"
    using guard counts(2,4) st2 by (cases "n > 0") (auto simp: diff_less_mono2)
qed simp

declare drain_loop.simps [simp del]

text \<open>
  The scan for remaining work, lane by lane from lane \<open>i\<close> on: the other workers go on pushing between its
  looks, also to lanes it has already passed.
\<close>

definition look :: "(nat \<Rightarrow> (nat \<times> 'e worker_envelope) list) \<Rightarrow> nat \<Rightarrow> 'e drain_state \<Rightarrow> 'e drain_state" where
  "look late i st =
     (case arrive (dr_lanes st) (late i) of (lanes, accepted) \<Rightarrow>
        st\<lparr>dr_lanes := lanes, dr_arrived := dr_arrived st @ accepted\<rparr>)"

fun scan_more :: "(nat \<Rightarrow> (nat \<times> 'e worker_envelope) list) \<Rightarrow> nat \<Rightarrow> nat \<Rightarrow> 'e drain_state \<Rightarrow> bool \<times> 'e drain_state" where
  "scan_more late i 0 st = (False, st)"
| "scan_more late i (Suc n) st =
     (let st1 = look late i st in
      if \<not> lane_isEmpty (dr_lanes st1 ! i) then (True, st1) else scan_more late (i + 1) n st1)"

definition drain :: "inbox_budget \<Rightarrow> (nat \<Rightarrow> int) \<Rightarrow> (nat \<Rightarrow> (nat \<times> 'e worker_envelope) list) \<Rightarrow>
    (nat \<Rightarrow> (nat \<times> 'e worker_envelope) list) \<Rightarrow> 'e worker_inbox \<Rightarrow> drain_result \<times> 'e drain_state" where
  "drain budget clock arrivals late inbox =
     (let st = \<lparr>dr_lanes = wi_lanes inbox, dr_next_lane = wi_next_lane inbox, dr_processed = 0,
                dr_exhausted = False, dr_clock = 1, dr_attempts = 0, dr_handled = [], dr_arrived = []\<rparr> in
      if wi_worker_count inbox = 0
      then (\<lparr>res_processed = 0, res_has_more = False, res_budget_exhausted = False\<rparr>, st)
      else let st' = drain_loop budget clock arrivals (clock 0) 0 st;
               (has_more, st'') = scan_more late 0 (length (dr_lanes st')) st' in
        (\<lparr>res_processed = dr_processed st'', res_has_more = has_more, res_budget_exhausted = dr_exhausted st''\<rparr>, st''))"

lemma look_fields [simp]:
  "dr_processed (look late i st) = dr_processed st" "dr_attempts (look late i st) = dr_attempts st"
  "dr_handled (look late i st) = dr_handled st" "dr_exhausted (look late i st) = dr_exhausted st"
  "length (dr_lanes (look late i st)) = length (dr_lanes st)"
  using arrive_length [of "dr_lanes st" "late i"] by (auto simp: look_def split: prod.splits)

lemma scan_fields [simp]:
  "dr_processed (snd (scan_more late i n st)) = dr_processed st" "dr_attempts (snd (scan_more late i n st)) = dr_attempts st"
  "dr_handled (snd (scan_more late i n st)) = dr_handled st" "dr_exhausted (snd (scan_more late i n st)) = dr_exhausted st"
  "length (dr_lanes (snd (scan_more late i n st))) = length (dr_lanes st)"
  by (induction n arbitrary: i st) (simp_all add: Let_def)

section \<open>What a drain does\<close>

lemma drain_loop_induct [consumes 1, case_names finished timeout full visit]:
  assumes start: "\<not> dr_exhausted st"
    and finished: "\<And>k st. \<not> dr_exhausted st \<Longrightarrow>
      \<not> (dr_processed st < ib_max_events budget \<and> k < length (dr_lanes st)) \<Longrightarrow> P k st st"
    and timeout: "\<And>k st n st' st''. \<not> dr_exhausted st \<Longrightarrow> dr_processed st < ib_max_events budget \<Longrightarrow> k < length (dr_lanes st) \<Longrightarrow>
      visit budget clock arrivals t st = (n, st') \<Longrightarrow> st'' = st' \<or> st'' = read_clock budget clock t st' \<Longrightarrow>
      dr_exhausted st'' \<Longrightarrow> P k st st''"
    and full: "\<And>k st n st'. \<not> dr_exhausted st \<Longrightarrow> dr_processed st < ib_max_events budget \<Longrightarrow> k < length (dr_lanes st) \<Longrightarrow>
      visit budget clock arrivals t st = (n, st') \<Longrightarrow> dr_processed st' \<ge> ib_max_events budget \<Longrightarrow>
      P k st (st'\<lparr>dr_exhausted := True\<rparr>)"
    and visit: "\<And>k st n st' st'' r. \<not> dr_exhausted st \<Longrightarrow> dr_processed st < ib_max_events budget \<Longrightarrow> k < length (dr_lanes st) \<Longrightarrow>
      visit budget clock arrivals t st = (n, st') \<Longrightarrow> dr_processed st' < ib_max_events budget \<Longrightarrow>
      st'' = read_clock budget clock t st' \<Longrightarrow> \<not> dr_exhausted st'' \<Longrightarrow>
      P (if n > 0 then 0 else k + 1) st'' r \<Longrightarrow> P k st r"
  shows "P k st (drain_loop budget clock arrivals t k st)"
  using assms
proof (induction budget clock arrivals t k st rule: drain_loop.induct)
  case (1 budget clock arrivals t k st)
  note IH = 1(1) and start = 1(2) and finished = 1(3) and timeout = 1(4) and full = 1(5) and "visit" = 1(6)
  show ?case
  proof (cases "dr_processed st < ib_max_events budget \<and> k < length (dr_lanes st)")
    case False
    have "drain_loop budget clock arrivals t k st = st" using False by (subst drain_loop.simps) auto
    with finished [OF start False] show ?thesis by simp
  next
    case guard: True
    obtain n st' where v: "visit budget clock arrivals t st = (n, st')" by fastforce
    have unf: "drain_loop budget clock arrivals t k st =
        (if dr_exhausted st' then st'
         else if dr_processed st' \<ge> ib_max_events budget then st'\<lparr>dr_exhausted := True\<rparr>
         else if dr_exhausted (read_clock budget clock t st') then read_clock budget clock t st'
         else drain_loop budget clock arrivals t (if n > 0 then 0 else k + 1) (read_clock budget clock t st'))"
      using guard start v by (subst drain_loop.simps) (simp add: Let_def)
    consider "dr_exhausted st'" | "\<not> dr_exhausted st'" "dr_processed st' \<ge> ib_max_events budget"
      | "\<not> dr_exhausted st'" "dr_processed st' < ib_max_events budget" "dr_exhausted (read_clock budget clock t st')"
      | "\<not> dr_exhausted st'" "dr_processed st' < ib_max_events budget" "\<not> dr_exhausted (read_clock budget clock t st')"
      by linarith
    then show ?thesis
    proof cases
      case 1
      with unf timeout [OF start _ _ v disjI1 [OF refl]] guard show ?thesis by simp
    next
      case 2
      with unf full [OF start _ _ v] guard show ?thesis by simp
    next
      case 3
      with unf timeout [OF start _ _ v disjI2 [OF refl]] guard show ?thesis by simp
    next
      case 4
      have "P (if n > 0 then 0 else k + 1) (read_clock budget clock t st')
          (drain_loop budget clock arrivals t (if n > 0 then 0 else k + 1) (read_clock budget clock t st'))"
        by (rule IH [OF _ v [symmetric] 4(1) _ refl 4(3) 4(3) finished timeout full "visit"])
          (use 4 guard start in auto)
      with unf "visit" [OF start _ _ v 4(2) refl 4(3)] guard 4 show ?thesis by simp
    qed
  qed
qed

definition drain_bounds :: "inbox_budget \<Rightarrow> nat \<Rightarrow> 'e drain_state \<Rightarrow> 'e drain_state \<Rightarrow> bool" where
  "drain_bounds budget k st st' \<longleftrightarrow>
    (dr_processed st \<le> ib_max_events budget \<longrightarrow> dr_processed st' \<le> ib_max_events budget) \<and>
    length (dr_lanes st') = length (dr_lanes st) \<and>
    dr_attempts st' \<le> dr_attempts st + (ib_max_events budget - dr_processed st) * (length (dr_lanes st) + 2) +
      (length (dr_lanes st) - k)"

lemma visit_bounds:
  assumes "\<not> dr_exhausted st" and "dr_processed st < ib_max_events budget" and "k < length (dr_lanes st)"
    and "visit budget clock arrivals t st = (n, st')"
  shows "drain_bounds budget k st st'"
proof -
  note c = visit_counts [OF assms(1,4)]
  have "n \<le> ib_max_events budget - dr_processed st" using c(1,2) assms(2) by simp
  then have "n * 2 \<le> (ib_max_events budget - dr_processed st) * (length (dr_lanes st) + 2)"
    using mult_le_mono [of n "ib_max_events budget - dr_processed st" 2 "length (dr_lanes st) + 2"] by simp
  then have "n + 1 \<le> (ib_max_events budget - dr_processed st) * (length (dr_lanes st) + 2) + (length (dr_lanes st) - k)"
    using assms(3) by linarith
  with c show ?thesis unfolding drain_bounds_def by linarith
qed

lemma drain_loop_bounds:
  assumes "\<not> dr_exhausted st"
  shows "drain_bounds budget k st (drain_loop budget clock arrivals t k st)"
  using assms
proof (induction rule: drain_loop_induct)
  case (finished k st)
  then show ?case by (simp add: drain_bounds_def)
next
  case (timeout k st n st' st'')
  with visit_bounds [OF timeout(1-4)] show ?case by (auto simp: drain_bounds_def)
next
  case (full k st n st')
  with visit_bounds [OF full(1-4)] show ?case by (auto simp: drain_bounds_def)
next
  case (visit k st n st' st'' r)
  note c = visit_counts [OF visit(1,4)]
  let ?L = "length (dr_lanes st)" and ?R = "ib_max_events budget - dr_processed st"
  let ?k' = "if n > 0 then 0 else k + 1"
  have IH: "dr_processed r \<le> ib_max_events budget" "length (dr_lanes r) = ?L"
      "dr_attempts r \<le> dr_attempts st + n + 1 + (?R - n) * (?L + 2) + (?L - ?k')"
    using visit(8) visit(5,6) c by (auto simp: drain_bounds_def)
  have "n \<le> ?R" using c(2) visit(5) by simp
  then have R: "?R * (?L + 2) = (?R - n) * (?L + 2) + n * (?L + 2)" by (metis add_mult_distrib le_add_diff_inverse2)
  have "n + 1 + (?L - ?k') \<le> n * (?L + 2) + (?L - k)"
  proof (cases n)
    case 0
    with visit(3) show ?thesis by simp
  next
    case (Suc m)
    then show ?thesis by (simp add: algebra_simps)
  qed
  with IH R show ?case by (simp add: drain_bounds_def)
qed

text \<open>
  C31: A drain returns however fast the other workers keep pushing: with any clock and any arrivals it
  hands over at most \<open>max_events\<close> events and makes at most
  \<open>max_events * (worker_count + 2) + worker_count\<close> attempts to pop.
\<close>

theorem drain_terminates:
  "case drain budget clock arrivals late inbox of (result, st) \<Rightarrow>
     res_processed result = dr_processed st \<and> dr_processed st \<le> ib_max_events budget \<and>
     dr_attempts st \<le> ib_max_events budget * (length (wi_lanes inbox) + 2) + length (wi_lanes inbox)"
proof -
  define st where "st = \<lparr>dr_lanes = wi_lanes inbox, dr_next_lane = wi_next_lane inbox, dr_processed = 0,
      dr_exhausted = False, dr_clock = 1, dr_attempts = 0, dr_handled = [], dr_arrived = []\<rparr>"
  have "drain_bounds budget 0 st (drain_loop budget clock arrivals (clock 0) 0 st)"
    by (rule drain_loop_bounds) (simp add: st_def)
  then show ?thesis
    unfolding drain_def st_def [symmetric] drain_bounds_def Let_def by (simp add: st_def split_beta)
qed

text \<open>The entries of one lane.\<close>

definition of_lane :: "nat \<Rightarrow> (nat \<times> 'a) list \<Rightarrow> 'a list" where
  "of_lane i ps = map snd (filter (\<lambda>p. fst p = i) ps)"

lemma of_lane_simps [simp]:
  "of_lane i [] = []" "of_lane i ((j, x) # ps) = (if j = i then x # of_lane i ps else of_lane i ps)"
  "of_lane i (ps @ qs) = of_lane i ps @ of_lane i qs"
  by (auto simp: of_lane_def)

definition drain_accounts :: "(nat \<Rightarrow> 'e worker_envelope list) \<Rightarrow> 'e drain_state \<Rightarrow> bool" where
  "drain_accounts initially st \<longleftrightarrow>
     (\<forall>i < length (dr_lanes st). \<exists>pending. lane_holds (dr_lanes st ! i) pending \<and>
        map we_event (initially i @ of_lane i (dr_arrived st)) = of_lane i (dr_handled st) @ map we_event pending)"

lemma arrive_holds:
  "arrive lanes as = (lanes', acc) \<Longrightarrow> i < length lanes \<Longrightarrow> lane_holds (lanes ! i) xs \<Longrightarrow>
    lane_holds (lanes' ! i) (xs @ of_lane i acc)"
proof (induction lanes as arbitrary: lanes' acc xs rule: arrive.induct)
  case (1 lanes)
  then show ?case by simp
next
  case (2 lanes j e rest)
  show ?case
  proof (cases "j < length lanes")
    case False
    with 2 show ?thesis by simp
  next
    case True
    obtain r lane where push: "lane_tryPush (lanes ! j) e = (r, lane)" by fastforce
    obtain acc1 where rest: "arrive (lanes[j := lane]) rest = (lanes', acc1)"
        and acc: "acc = (if r = InboxAccepted then (j, e) # acc1 else acc1)"
      using 2(3) True push by (auto split: prod.splits)
    have now: "lane_holds (lanes[j := lane] ! i) (if j = i \<and> r = InboxAccepted then xs @ [e] else xs)"
      using 2(4,5) lane_push_holds [OF _ push] by (cases "j = i") auto
    have "lane_holds (lanes' ! i) ((if j = i \<and> r = InboxAccepted then xs @ [e] else xs) @ of_lane i acc1)"
      by (rule 2(1) [OF True push [symmetric] rest _ now]) (use 2(4) in simp)
    with acc show ?thesis by (auto split: if_splits)
  qed
qed

lemma arrive_accepted: "set (snd (arrive lanes as)) \<subseteq> set as"
proof (induction lanes as rule: arrive.induct)
  case (2 lanes i e rest)
  then show ?case by (cases "lane_tryPush (lanes ! i) e") (auto split: prod.splits)
qed simp

lemma drain_accounts_attempt:
  assumes "drain_accounts initially st"
  shows "drain_accounts initially (attempt arrivals st)"
proof -
  obtain lanes acc where a: "arrive (dr_lanes st) (arrivals (dr_attempts st)) = (lanes, acc)" by fastforce
  have len: "length lanes = length (dr_lanes st)"
    using arrive_length [of "dr_lanes st" "arrivals (dr_attempts st)"] a by simp
  have "\<exists>pending. lane_holds (lanes ! i) pending \<and>
      map we_event (initially i @ of_lane i (dr_arrived st @ acc)) = of_lane i (dr_handled st) @ map we_event pending"
    if i: "i < length (dr_lanes st)" for i
  proof -
    obtain pending where p: "lane_holds (dr_lanes st ! i) pending"
        "map we_event (initially i @ of_lane i (dr_arrived st)) = of_lane i (dr_handled st) @ map we_event pending"
      using assms i by (auto simp: drain_accounts_def)
    have "map we_event (initially i @ of_lane i (dr_arrived st @ acc)) =
        map we_event (initially i @ of_lane i (dr_arrived st)) @ map we_event (of_lane i acc)" by simp
    also have "\<dots> = of_lane i (dr_handled st) @ map we_event (pending @ of_lane i acc)" using p(2) by simp
    finally show ?thesis using arrive_holds [OF a i p(1)] by blast
  qed
  with a len show ?thesis by (simp add: drain_accounts_def attempt_def)
qed

lemma drain_accounts_take:
  assumes "drain_accounts initially st" and "idx < length (dr_lanes st)"
    and "lane_tryPop (dr_lanes st ! idx) = (Some e, lane)"
  shows "drain_accounts initially (take_event idx lane e st)"
proof -
  have "\<exists>pending. lane_holds ((dr_lanes st)[idx := lane] ! i) pending \<and>
      map we_event (initially i @ of_lane i (dr_arrived st)) =
        of_lane i (dr_handled st @ [(idx, we_event e)]) @ map we_event pending"
    if i: "i < length (dr_lanes st)" for i
  proof -
    obtain pending where p: "lane_holds (dr_lanes st ! i) pending"
        "map we_event (initially i @ of_lane i (dr_arrived st)) = of_lane i (dr_handled st) @ map we_event pending"
      using assms(1) i by (auto simp: drain_accounts_def)
    show ?thesis
    proof (cases "i = idx")
      case False
      with p show ?thesis by (intro exI [of _ pending]) auto
    next
      case True
      with lane_pop_holds [OF p(1)] assms(3) obtain rest where "pending = e # rest" "lane_holds lane rest"
        by (cases pending) auto
      with p True i show ?thesis by (intro exI [of _ rest]) auto
    qed
  qed
  then show ?thesis by (simp add: drain_accounts_def take_event_def)
qed

lemma drain_accounts_lane:
  assumes "\<not> dr_exhausted st"
  shows "drain_accounts initially st \<longrightarrow> idx < length (dr_lanes st) \<longrightarrow>
    drain_accounts initially (snd (drain_lane budget clock arrivals t idx n st))"
  using assms
proof (induction rule: drain_lane_induct)
  case (event n st e lane st' r)
  then show ?case
    using drain_accounts_take [OF drain_accounts_attempt _ event(4)] by (simp add: drain_accounts_def)
next
  case (timeout n st e lane st')
  then show ?case
    using drain_accounts_take [OF drain_accounts_attempt _ timeout(4)] by (simp add: drain_accounts_def)
qed (auto intro: drain_accounts_attempt)

lemma drain_accounts_visit:
  assumes "drain_accounts initially st" and "\<not> dr_exhausted st" and "dr_next_lane st < length (dr_lanes st)"
    and "visit budget clock arrivals t st = (n, st')"
  shows "drain_accounts initially st' \<and> dr_next_lane st' < length (dr_lanes st')"
proof -
  let ?st = "st\<lparr>dr_next_lane := (dr_next_lane st + 1) mod length (dr_lanes st)\<rparr>"
  have st': "st' = snd (drain_lane budget clock arrivals t (dr_next_lane st) 0 ?st)"
    using assms(4) by (simp add: visit_def)
  have "drain_accounts initially ?st" "\<not> dr_exhausted ?st" "dr_next_lane st < length (dr_lanes ?st)"
    using assms by (auto simp: drain_accounts_def)
  then have "drain_accounts initially st'" unfolding st' using drain_accounts_lane by blast
  moreover have "dr_next_lane st' < length (dr_lanes st')"
    using visit_counts(4,5) [OF assms(2,4)] assms(3) by (metis bot_nat_0.extremum_strict gr_zeroI mod_less_divisor)
  ultimately show ?thesis by simp
qed

lemma drain_accounts_read [simp]: "drain_accounts initially (read_clock budget clock t st) = drain_accounts initially st"
  "drain_accounts initially (st\<lparr>dr_exhausted := b\<rparr>) = drain_accounts initially st"
  by (simp_all add: drain_accounts_def)

lemma drain_accounts_loop:
  assumes "\<not> dr_exhausted st"
  shows "drain_accounts initially st \<longrightarrow> dr_next_lane st < length (dr_lanes st) \<longrightarrow>
    drain_accounts initially (drain_loop budget clock arrivals t k st)"
  using assms
proof (induction rule: drain_loop_induct)
  case (timeout k st n st' st'')
  then show ?case using drain_accounts_visit [OF _ timeout(1) _ timeout(4)] by auto
next
  case (full k st n st')
  then show ?case using drain_accounts_visit [OF _ full(1) _ full(4)] by auto
next
  case (visit k st n st' st'' r)
  then show ?case using drain_accounts_visit [OF _ visit(1) _ visit(4)] by auto
qed simp

text \<open>An inbox with the given pending envelopes in its lanes, between calls.\<close>

definition inbox_holds :: "'e worker_inbox \<Rightarrow> (nat \<Rightarrow> 'e worker_envelope list) \<Rightarrow> bool" where
  "inbox_holds inbox pending \<longleftrightarrow>
     wi_worker_count inbox \<noteq> 0 \<and> length (wi_lanes inbox) = unat (wi_worker_count inbox) \<and>
     wi_next_lane inbox < length (wi_lanes inbox) \<and>
     (\<forall>i < length (wi_lanes inbox). lane_holds (wi_lanes inbox ! i) (pending i))"

lemma inbox_holds_new: "WorkerInbox worker_count config = Some inbox \<Longrightarrow> inbox_holds inbox (\<lambda>_. [])"
  using unat_gt_0 [of worker_count]
  by (auto simp: WorkerInbox_def inbox_holds_def lane_holds_new Let_def split: if_splits)

lemma inbox_holds_push:
  assumes "inbox_holds inbox pending" and "i < length (wi_lanes inbox)"
    and "port_tryPush inbox (Some i) e = (result, notified, inbox')"
  shows "inbox_holds inbox' (if result = InboxAccepted then pending(i := pending i @ [e]) else pending) \<and>
    notified = (result = InboxAccepted)"
proof -
  obtain lane where push: "lane_tryPush (wi_lanes inbox ! i) e = (result, lane)"
      and inbox': "inbox' = inbox\<lparr>wi_lanes := (wi_lanes inbox)[i := lane]\<rparr>" and n: "notified = (result = InboxAccepted)"
    using assms(3) by (auto simp: port_tryPush_def split: prod.splits)
  have "lane_holds lane (if result = InboxAccepted then pending i @ [e] else pending i)"
    by (rule lane_push_holds [OF _ push]) (use assms in \<open>simp add: inbox_holds_def\<close>)
  with assms(1,2) inbox' n show ?thesis by (auto simp: inbox_holds_def nth_list_update)
qed

definition drain_start :: "'e worker_inbox \<Rightarrow> 'e drain_state" where
  "drain_start inbox = \<lparr>dr_lanes = wi_lanes inbox, dr_next_lane = wi_next_lane inbox, dr_processed = 0,
     dr_exhausted = False, dr_clock = 1, dr_attempts = 0, dr_handled = [], dr_arrived = []\<rparr>"

lemma drain_unfold:
  assumes "inbox_holds inbox pending" and "drain budget clock arrivals late inbox = (result, st)"
  obtains st' where "st' = drain_loop budget clock arrivals (clock 0) 0 (drain_start inbox)"
    "scan_more late 0 (length (dr_lanes st')) st' = (res_has_more result, st)"
    "res_processed result = dr_processed st" "res_budget_exhausted result = dr_exhausted st'"
proof
  let ?st = "drain_loop budget clock arrivals (clock 0) 0 (drain_start inbox)"
  have "drain budget clock arrivals late inbox =
      (let (has_more, st'') = scan_more late 0 (length (dr_lanes ?st)) ?st in
       (\<lparr>res_processed = dr_processed st'', res_has_more = has_more, res_budget_exhausted = dr_exhausted st''\<rparr>, st''))"
    using assms(1) by (simp add: drain_def drain_start_def inbox_holds_def Let_def)
  then show "scan_more late 0 (length (dr_lanes ?st)) ?st = (res_has_more result, st)"
    "res_processed result = dr_processed st" "res_budget_exhausted result = dr_exhausted ?st"
    using assms(2) scan_fields(4) [of late 0 "length (dr_lanes ?st)" ?st] by (auto simp: split_beta Let_def)
qed simp

lemma drain_start_accounts: "inbox_holds inbox pending \<Longrightarrow> drain_accounts pending (drain_start inbox)"
  by (auto simp: inbox_holds_def drain_accounts_def drain_start_def)

lemma drain_start_simps [simp]:
  "dr_lanes (drain_start inbox) = wi_lanes inbox" "dr_next_lane (drain_start inbox) = wi_next_lane inbox"
  "dr_processed (drain_start inbox) = 0" "\<not> dr_exhausted (drain_start inbox)"
  by (simp_all add: drain_start_def)

lemma drain_looped:
  assumes "inbox_holds inbox pending"
  shows "drain_accounts pending (drain_loop budget clock arrivals t 0 (drain_start inbox)) \<and>
    length (dr_lanes (drain_loop budget clock arrivals t 0 (drain_start inbox))) = length (wi_lanes inbox)"
  using drain_accounts_loop [of "drain_start inbox" pending budget clock arrivals t 0] drain_start_accounts [OF assms] assms
    drain_loop_bounds [of "drain_start inbox" budget 0 clock arrivals t]
  by (simp add: inbox_holds_def drain_bounds_def)

text \<open>
  What the lanes hold when the scan has come to lane \<open>i\<close>: every lane it has passed was empty when it looked,
  so what such a lane \<open>j\<close> holds was pushed before a later look.
\<close>

definition pushed_between :: "(nat \<Rightarrow> (nat \<times> 'e worker_envelope) list) \<Rightarrow> nat \<Rightarrow> nat \<Rightarrow> 'e worker_envelope set" where
  "pushed_between late j i = {e. \<exists>k. j < k \<and> k < i \<and> (j, e) \<in> set (late k)}"

definition scanned :: "(nat \<Rightarrow> 'e worker_envelope list) \<Rightarrow> (nat \<Rightarrow> (nat \<times> 'e worker_envelope) list) \<Rightarrow> nat \<Rightarrow>
    'e drain_state \<Rightarrow> (nat \<Rightarrow> 'e worker_envelope list) \<Rightarrow> bool" where
  "scanned initially late i st left \<longleftrightarrow>
     (\<forall>j < length (dr_lanes st). lane_holds (dr_lanes st ! j) (left j) \<and>
        map we_event (initially j @ of_lane j (dr_arrived st)) = of_lane j (dr_handled st) @ map we_event (left j)) \<and>
     (\<forall>j < i. set (left j) \<subseteq> pushed_between late j i)"

lemma scanned_look:
  assumes "scanned initially late i st left" and "i < length (dr_lanes st)"
  obtains left' where
    "\<forall>j < length (dr_lanes st). lane_holds (dr_lanes (look late i st) ! j) (left' j) \<and>
       map we_event (initially j @ of_lane j (dr_arrived (look late i st))) = of_lane j (dr_handled st) @ map we_event (left' j)"
    "\<forall>j < i. set (left' j) \<subseteq> pushed_between late j (Suc i)"
proof -
  obtain lanes acc where a: "arrive (dr_lanes st) (late i) = (lanes, acc)" by fastforce
  have look: "dr_lanes (look late i st) = lanes" "dr_arrived (look late i st) = dr_arrived st @ acc"
    by (simp_all add: look_def a)
  have acc: "set (of_lane j acc) \<subseteq> {e. (j, e) \<in> set (late i)}" for j
    using arrive_accepted [of "dr_lanes st" "late i"] by (auto simp: a of_lane_def)
  show thesis
  proof
    show "\<forall>j < length (dr_lanes st). lane_holds (dr_lanes (look late i st) ! j) (left j @ of_lane j acc) \<and>
       map we_event (initially j @ of_lane j (dr_arrived (look late i st))) =
         of_lane j (dr_handled st) @ map we_event (left j @ of_lane j acc)"
    proof (intro allI impI conjI)
      fix j assume j: "j < length (dr_lanes st)"
      then show "lane_holds (dr_lanes (look late i st) ! j) (left j @ of_lane j acc)"
        using assms(1) arrive_holds [OF a j] by (simp add: scanned_def look)
      have "map we_event (initially j @ of_lane j (dr_arrived st)) = of_lane j (dr_handled st) @ map we_event (left j)"
        using assms(1) j by (simp add: scanned_def)
      then show "map we_event (initially j @ of_lane j (dr_arrived (look late i st))) =
         of_lane j (dr_handled st) @ map we_event (left j @ of_lane j acc)" by (simp add: look)
    qed
    show "\<forall>j < i. set (left j @ of_lane j acc) \<subseteq> pushed_between late j (Suc i)"
      using assms(1) acc by (fastforce simp: scanned_def pushed_between_def)
  qed
qed

lemma scan_more_accounts:
  assumes "scanned initially late i st left" and "i + n = length (dr_lanes st)" and "scan_more late i n st = (m, st')"
  shows "\<exists>left'. (\<forall>j < length (dr_lanes st). lane_holds (dr_lanes st' ! j) (left' j) \<and>
       map we_event (initially j @ of_lane j (dr_arrived st')) = of_lane j (dr_handled st') @ map we_event (left' j)) \<and>
     (m \<longrightarrow> (\<exists>j < length (dr_lanes st). left' j \<noteq> [])) \<and>
     (\<not> m \<longrightarrow> (\<forall>j < length (dr_lanes st). set (left' j) \<subseteq> pushed_between late j (length (dr_lanes st))))"
  using assms
proof (induction n arbitrary: i st left)
  case 0
  then show ?case by (intro exI [of _ left]) (simp add: scanned_def)
next
  case (Suc n)
  let ?st = "look late i st"
  have i: "i < length (dr_lanes st)" using Suc.prems(2) by simp
  obtain left' where left': "\<forall>j < length (dr_lanes st). lane_holds (dr_lanes ?st ! j) (left' j) \<and>
       map we_event (initially j @ of_lane j (dr_arrived ?st)) = of_lane j (dr_handled st) @ map we_event (left' j)"
      "\<forall>j < i. set (left' j) \<subseteq> pushed_between late j (Suc i)"
    using scanned_look [OF Suc.prems(1) i] .
  have empty: "lane_isEmpty (dr_lanes ?st ! i) \<longleftrightarrow> left' i = []" using left'(1) i lane_holds_isEmpty by blast
  show ?case
  proof (cases "left' i = []")
    case False
    then show ?thesis using Suc.prems(3) left'(1) empty i by (intro exI [of _ left']) auto
  next
    case True
    have "scanned initially late (i + 1) ?st left'"
      using left' True by (auto simp: scanned_def less_Suc_eq)
    then show ?thesis using Suc.IH [of "i + 1" ?st left'] Suc.prems(2,3) True empty by (simp add: Let_def)
  qed
qed

lemma fifo_accounts:
  assumes "inbox_holds inbox pending" and "drain budget clock arrivals late inbox = (result, st)"
  shows "\<exists>left. (\<forall>i < length (wi_lanes inbox). lane_holds (dr_lanes st ! i) (left i) \<and>
       map we_event (pending i @ of_lane i (dr_arrived st)) = of_lane i (dr_handled st) @ map we_event (left i)) \<and>
     (res_has_more result \<longrightarrow> (\<exists>i < length (wi_lanes inbox). left i \<noteq> [])) \<and>
     (\<not> res_has_more result \<longrightarrow> (\<forall>i < length (wi_lanes inbox).
        set (left i) \<subseteq> {e. \<exists>k. i < k \<and> k < length (wi_lanes inbox) \<and> (i, e) \<in> set (late k)}))"
proof -
  obtain st' where st': "st' = drain_loop budget clock arrivals (clock 0) 0 (drain_start inbox)"
      "scan_more late 0 (length (dr_lanes st')) st' = (res_has_more result, st)"
    using drain_unfold [OF assms] .
  have acc: "drain_accounts pending st'" "length (dr_lanes st') = length (wi_lanes inbox)"
    using drain_looped [OF assms(1)] st'(1) by simp_all
  then obtain left where "scanned pending late 0 st' left" unfolding drain_accounts_def scanned_def by (metis less_nat_zero_code)
  from scan_more_accounts [OF this _ st'(2)] acc(2) show ?thesis by (simp add: pushed_between_def)
qed

text \<open>
  C32: A drain loses, repeats and reorders nothing, whatever the other workers push while it pops and while it
  scans: for every source, the events pending at its start followed by those accepted during it are the
  events handed to the handler followed by those still pending. When it reports more work, some lane has
  something pending. When it does not, whatever a lane still holds was pushed after the scan had looked at
  that lane and found it empty; so without such pushes nothing is pending.
\<close>

theorem drain_fifo:
  assumes "inbox_holds inbox pending" and "drain budget clock arrivals late inbox = (result, st)"
  shows "\<exists>left. (\<forall>i < length (wi_lanes inbox). lane_holds (dr_lanes st ! i) (left i) \<and>
       map we_event (pending i @ of_lane i (dr_arrived st)) = of_lane i (dr_handled st) @ map we_event (left i)) \<and>
     (res_has_more result \<longrightarrow> (\<exists>i < length (wi_lanes inbox). left i \<noteq> [])) \<and>
     (\<not> res_has_more result \<longrightarrow> (\<forall>i < length (wi_lanes inbox).
        set (left i) \<subseteq> {e. \<exists>k. i < k \<and> k < length (wi_lanes inbox) \<and> (i, e) \<in> set (late k)}))"
  by (rule fifo_accounts [OF assms])

section \<open>A drain within its budget hands over what was pending\<close>

definition no_arrivals :: "nat \<Rightarrow> (nat \<times> 'e worker_envelope) list" where
  "no_arrivals k = []"

lemma drain_lane_quiet:
  assumes "\<not> dr_exhausted st"
  shows "dr_arrived (snd (drain_lane budget clock no_arrivals t idx n st)) = dr_arrived st"
  using assms
  by (induction rule: drain_lane_induct) (auto simp: attempt_def no_arrivals_def take_event_def)

lemma visit_quiet:
  assumes "\<not> dr_exhausted st" and "visit budget clock no_arrivals t st = (n, st')"
  shows "dr_arrived st' = dr_arrived st"
  using drain_lane_quiet [of "st\<lparr>dr_next_lane := (dr_next_lane st + 1) mod length (dr_lanes st)\<rparr>"] assms
  by (auto simp: visit_def dest!: arg_cong [where f = snd])

lemma drain_loop_quiet:
  assumes "\<not> dr_exhausted st"
  shows "dr_arrived (drain_loop budget clock no_arrivals t k st) = dr_arrived st"
  using assms
proof (induction rule: drain_loop_induct)
  case (timeout k st n st' st'')
  then show ?case using visit_quiet [OF timeout(1,4)] by auto
next
  case (full k st n st')
  then show ?case using visit_quiet [OF full(1,4)] by auto
next
  case (visit k st n st' st'' r)
  then show ?case using visit_quiet [OF visit(1,4)] by auto
qed simp

lemma scan_more_quiet: "dr_arrived (snd (scan_more no_arrivals i n st)) = dr_arrived st"
proof (induction n arbitrary: i st)
  case (Suc n)
  have "dr_arrived (look no_arrivals i st) = dr_arrived st" by (simp add: look_def no_arrivals_def)
  then show ?case using Suc by (simp add: Let_def)
qed simp

text \<open>What was pending in a lane at the start has been handed over.\<close>

definition handed :: "(nat \<Rightarrow> 'e worker_envelope list) \<Rightarrow> 'e drain_state \<Rightarrow> nat \<Rightarrow> bool" where
  "handed initially st i \<longleftrightarrow> length (initially i) \<le> length (of_lane i (dr_handled st))"

lemma drain_lane_handled:
  assumes "\<not> dr_exhausted st"
  shows "\<exists>es. dr_handled (snd (drain_lane budget clock arrivals t idx n st)) = dr_handled st @ es"
  using assms
proof (induction rule: drain_lane_induct)
  case (event n st e lane st' r)
  then show ?case by (auto simp: take_event_def)
next
  case (timeout n st e lane st')
  then show ?case by (auto simp: take_event_def)
qed simp_all

lemma visit_handed:
  assumes "\<not> dr_exhausted st" and "visit budget clock arrivals t st = (n, st')" and "handed initially st i"
  shows "handed initially st' i"
proof -
  obtain es where "dr_handled st' = dr_handled st @ es"
    using drain_lane_handled [of "st\<lparr>dr_next_lane := (dr_next_lane st + 1) mod length (dr_lanes st)\<rparr>" budget clock arrivals t
        "dr_next_lane st" 0] assms(1,2) by (auto simp: visit_def)
  then show ?thesis using assms(3) by (simp add: handed_def)
qed

lemma empty_visit:
  assumes "drain_accounts initially st" and "\<not> dr_exhausted st" and "dr_next_lane st < length (dr_lanes st)"
    and "dr_processed st < ib_max_events budget" and "0 < ib_max_per_lane budget"
    and "visit budget clock arrivals t st = (0, st')"
  shows "handed initially st' (dr_next_lane st)"
proof -
  let ?i = "dr_next_lane st" and ?st = "st\<lparr>dr_next_lane := (dr_next_lane st + 1) mod length (dr_lanes st)\<rparr>"
  let ?st1 = "attempt arrivals ?st"
  have "drain_accounts initially ?st1"
    by (rule drain_accounts_attempt) (use assms(1) in \<open>simp add: drain_accounts_def\<close>)
  then obtain xs where xs: "lane_holds (dr_lanes ?st1 ! ?i) xs"
      "map we_event (initially ?i @ of_lane ?i (dr_arrived ?st1)) = of_lane ?i (dr_handled ?st1) @ map we_event xs"
    using assms(3) by (auto simp: drain_accounts_def)
  obtain pop lane where pop: "lane_tryPop (dr_lanes ?st1 ! ?i) = (pop, lane)" by fastforce
  have unf: "drain_lane budget clock arrivals t ?i 0 ?st = (0, st')" using assms(6) by (simp add: visit_def)
  show ?thesis
  proof (cases pop)
    case None
    then have "xs = []" using lane_pop_holds [OF xs(1)] pop by (cases xs) auto
    moreover have "st' = ?st1" using unf assms(2,4,5) pop None by (subst (asm) drain_lane_unfold) auto
    ultimately show ?thesis using arg_cong [OF xs(2), of length] by (simp add: handed_def)
  next
    case (Some e)
    define st2 where "st2 = after_event budget clock t (take_event ?i lane e ?st1)"
    have "(0, st') = (if dr_exhausted st2 then (1, st2) else drain_lane budget clock arrivals t ?i 1 st2)"
      using unf assms(2,4,5) pop Some by (subst (asm) drain_lane_unfold) (auto simp: st2_def Let_def)
    moreover have "fst (drain_lane budget clock arrivals t ?i 1 st2) \<ge> 1" if "\<not> dr_exhausted st2"
      using drain_lane_counts [OF that, where n = 1 and idx = ?i and budget = budget
          and clock = clock and arrivals = arrivals and t = t] by (auto split: prod.splits)
    ultimately have False by (cases "dr_exhausted st2") (auto dest: arg_cong [where f = fst])
    then show ?thesis ..
  qed
qed

text \<open>The last \<open>k\<close> lanes visited are done.\<close>

definition seen_done :: "(nat \<Rightarrow> 'e worker_envelope list) \<Rightarrow> nat \<Rightarrow> 'e drain_state \<Rightarrow> bool" where
  "seen_done initially k st \<longleftrightarrow> k \<le> length (dr_lanes st) \<and> (\<forall>j. 1 \<le> j \<longrightarrow> j \<le> k \<longrightarrow>
     handed initially st ((dr_next_lane st + length (dr_lanes st) - j) mod length (dr_lanes st)))"

lemma seen_done_visit:
  assumes "drain_accounts initially st" and "\<not> dr_exhausted st" and "dr_next_lane st < length (dr_lanes st)"
    and "dr_processed st < ib_max_events budget" and "0 < ib_max_per_lane budget" and "k < length (dr_lanes st)"
    and "visit budget clock arrivals t st = (n, st')" and "seen_done initially k st"
  shows "seen_done initially (if n > 0 then 0 else k + 1) st'"
proof (cases "n > 0")
  case True
  then show ?thesis by (simp add: seen_done_def)
next
  case False
  then have n: "visit budget clock arrivals t st = (0, st')" using assms(7) by simp
  let ?L = "length (dr_lanes st)"
  have "handed initially st' ((dr_next_lane st' + ?L - j) mod ?L)" if j: "1 \<le> j" "j \<le> k + 1" for j
  proof (cases "j = 1")
    case True
    have "(Suc (dr_next_lane st) mod ?L + ?L - 1) mod ?L = dr_next_lane st"
      using assms(3) by (cases "Suc (dr_next_lane st) = ?L") auto
    with True empty_visit [OF assms(1-5) n] visit_counts(5) [OF assms(2) n] show ?thesis by simp
  next
    case False
    have "(dr_next_lane st' + ?L - j) mod ?L = (dr_next_lane st + ?L - (j - 1)) mod ?L"
      using visit_counts(5) [OF assms(2) n] assms(3,6) j False
      by (cases "Suc (dr_next_lane st) = ?L") (auto simp: mod_if)
    moreover have "1 \<le> j - 1" "j - 1 \<le> k" using False j by auto
    ultimately show ?thesis using assms(8) visit_handed [OF assms(2) n] unfolding seen_done_def by metis
  qed
  with False visit_counts(4) [OF assms(2) n] assms(6) show ?thesis by (simp add: seen_done_def)
qed

lemma seen_done_clock: "seen_done initially k (read_clock budget clock t st) = seen_done initially k st"
  by (simp add: seen_done_def handed_def)

lemma seen_all_done:
  assumes "seen_done initially (length (dr_lanes st)) st" and "dr_next_lane st < length (dr_lanes st)"
    and "i < length (dr_lanes st)"
  shows "handed initially st i"
proof -
  let ?L = "length (dr_lanes st)"
  let ?j = "if i < dr_next_lane st then dr_next_lane st - i else dr_next_lane st + ?L - i"
  have "(dr_next_lane st + ?L - ?j) mod ?L = i" "1 \<le> ?j" "?j \<le> ?L" using assms(2,3) by auto
  then show ?thesis using assms(1) unfolding seen_done_def by metis
qed

definition completes :: "inbox_budget \<Rightarrow> (nat \<Rightarrow> 'e worker_envelope list) \<Rightarrow> nat \<Rightarrow> 'e drain_state \<Rightarrow> 'e drain_state \<Rightarrow> bool" where
  "completes budget initially k st st' \<longleftrightarrow>
     (drain_accounts initially st \<and> dr_next_lane st < length (dr_lanes st) \<and> dr_processed st < ib_max_events budget \<and>
      0 < ib_max_per_lane budget \<and> seen_done initially k st \<and> \<not> dr_exhausted st' \<longrightarrow>
      (\<forall>i < length (dr_lanes st'). handed initially st' i))"

lemma drain_loop_completes:
  assumes "\<not> dr_exhausted st"
  shows "completes budget initially k st (drain_loop budget clock arrivals t k st)"
  using assms
proof (induction rule: drain_loop_induct)
  case (finished k st)
  have "handed initially st i" if "dr_next_lane st < length (dr_lanes st)" "dr_processed st < ib_max_events budget"
      "seen_done initially k st" "i < length (dr_lanes st)" for i
  proof -
    have "k = length (dr_lanes st)" using finished(2) that by (auto simp: seen_done_def)
    with that show ?thesis using seen_all_done by simp
  qed
  then show ?case by (simp add: completes_def)
next
  case (visit k st n st' st'' r)
  show ?case unfolding completes_def
  proof (intro impI)
    assume a: "drain_accounts initially st \<and> dr_next_lane st < length (dr_lanes st) \<and> dr_processed st < ib_max_events budget \<and>
      0 < ib_max_per_lane budget \<and> seen_done initially k st \<and> \<not> dr_exhausted r"
    have "seen_done initially (if n > 0 then 0 else k + 1) st'"
      by (rule seen_done_visit [OF _ visit(1) _ visit(2) _ visit(3,4)]) (use a in auto)
    then have "seen_done initially (if n > 0 then 0 else k + 1) st''" using visit(6) by (simp add: seen_done_clock)
    moreover have "drain_accounts initially st''" "dr_next_lane st'' < length (dr_lanes st'')"
      using drain_accounts_visit [OF _ visit(1) _ visit(4)] a visit(6) by auto
    moreover have "dr_processed st'' < ib_max_events budget" using visit(5,6) by simp
    ultimately show "\<forall>i < length (dr_lanes r). handed initially r i"
      using visit(8) a unfolding completes_def by blast
  qed
qed (simp_all add: completes_def)

text \<open>
  C33: A drain that is not stopped by its budget hands over every event that was pending when it started,
  whatever the other workers push meanwhile: for every source the handler has been given the events pending
  at the start, in order, followed by the first so many of those that arrived during the drain. If no worker
  pushes, it has been given exactly the pending events and no more work is reported.
\<close>

theorem drain_empties:
  assumes "inbox_holds inbox pending" and "drain budget clock arrivals late inbox = (result, st)"
    and "0 < ib_max_events budget" and "0 < ib_max_per_lane budget" and "\<not> res_budget_exhausted result"
  shows "(\<forall>i < length (wi_lanes inbox). \<exists>m.
       of_lane i (dr_handled st) = map we_event (pending i @ take m (of_lane i (dr_arrived st)))) \<and>
     (arrivals = no_arrivals \<and> late = no_arrivals \<longrightarrow> \<not> res_has_more result \<and>
       (\<forall>i < length (wi_lanes inbox). of_lane i (dr_handled st) = map we_event (pending i)))"
proof -
  obtain st' where st': "st' = drain_loop budget clock arrivals (clock 0) 0 (drain_start inbox)"
      "scan_more late 0 (length (dr_lanes st')) st' = (res_has_more result, st)" "res_budget_exhausted result = dr_exhausted st'"
    using drain_unfold [OF assms(1,2)] .
  have handled: "dr_handled st = dr_handled st'"
    using scan_fields(3) [of late 0 "length (dr_lanes st')" st'] st'(2) by simp
  obtain left where left: "\<forall>i < length (wi_lanes inbox). lane_holds (dr_lanes st ! i) (left i) \<and>
       map we_event (pending i @ of_lane i (dr_arrived st)) = of_lane i (dr_handled st) @ map we_event (left i)"
      "res_has_more result \<longrightarrow> (\<exists>i < length (wi_lanes inbox). left i \<noteq> [])"
    using fifo_accounts [OF assms(1,2)] by blast
  have "seen_done pending 0 (drain_start inbox)" by (simp add: seen_done_def)
  then have "\<forall>i < length (wi_lanes inbox). handed pending st' i"
    using drain_loop_completes [of "drain_start inbox" budget pending 0 clock arrivals "clock 0"] drain_looped [OF assms(1)]
      drain_start_accounts [OF assms(1)] assms(1,3-5) st'(1,3) by (simp add: completes_def inbox_holds_def)
  then have prefix: "of_lane i (dr_handled st) =
      map we_event (pending i @ take (length (of_lane i (dr_handled st)) - length (pending i)) (of_lane i (dr_arrived st)))"
    if "i < length (wi_lanes inbox)" for i
  proof -
    have "length (pending i) \<le> length (of_lane i (dr_handled st))"
      using that \<open>\<forall>i < length (wi_lanes inbox). handed pending st' i\<close> handled by (simp add: handed_def)
    moreover have "of_lane i (dr_handled st) =
        take (length (of_lane i (dr_handled st))) (map we_event (pending i @ of_lane i (dr_arrived st)))"
      using left(1) that by simp
    ultimately show ?thesis by (simp add: take_map)
  qed
  have quiet: "\<not> res_has_more result \<and> (\<forall>i < length (wi_lanes inbox). of_lane i (dr_handled st) = map we_event (pending i))"
    if "arrivals = no_arrivals" "late = no_arrivals"
  proof -
    have "dr_arrived st = []"
      using that st'(1,2) scan_more_quiet [of 0 "length (dr_lanes st')" st'] drain_loop_quiet [of "drain_start inbox"]
      by (simp add: drain_start_def)
    then have "of_lane i (dr_handled st) = map we_event (pending i) \<and> left i = []" if "i < length (wi_lanes inbox)" for i
      using prefix [OF that] left(1) that by simp
    then show ?thesis using left(2) by blast
  qed
  show ?thesis using prefix quiet by blast
qed

definition sample_inbox :: "nat worker_inbox" where
  "sample_inbox =
     \<lparr>wi_lanes = [snd (lane_tryPush (InboxLane 100) \<lparr>we_event = 7, we_charged_bytes = 3\<rparr>), InboxLane 100],
      wi_bound = [True, True], wi_worker_count = 2, wi_next_lane = 0\<rparr>"

lemma sample_inbox_holds:
  "inbox_holds sample_inbox (\<lambda>i. if i = 0 then [\<lparr>we_event = 7, we_charged_bytes = 3\<rparr>] else [])"
proof -
  let ?e = "\<lparr>we_event = 7 :: nat, we_charged_bytes = 3\<rparr>"
  obtain l where push: "lane_tryPush (InboxLane 100) ?e = (InboxAccepted, l)"
    by (simp add: lane_tryPush_def InboxLane_def queued_between_def)
  have "lane_holds l [?e]" using lane_push_holds [OF lane_holds_new push] by simp
  then show ?thesis
    using push by (auto simp: inbox_holds_def sample_inbox_def lane_holds_new dest: less_2_cases)
qed

theorem drain_fifo_witness:
  "\<exists>result st left. drain \<lparr>ib_max_events = 4096, ib_max_per_lane = 8, ib_max_duration = 250000\<rparr> int
       (\<lambda>k. if k = 1 then [(1, \<lparr>we_event = 9, we_charged_bytes = 1\<rparr>)] else []) no_arrivals sample_inbox = (result, st) \<and>
     lane_holds (dr_lanes st ! 0) (left 0) \<and>
     map we_event ([\<lparr>we_event = 7 :: nat, we_charged_bytes = 3\<rparr>] @ of_lane 0 (dr_arrived st)) =
       of_lane 0 (dr_handled st) @ map we_event (left 0)"
proof -
  let ?budget = "\<lparr>ib_max_events = 4096, ib_max_per_lane = 8, ib_max_duration = 250000\<rparr>"
  let ?arrivals = "\<lambda>k :: nat. if k = 1 then [(1 :: nat, \<lparr>we_event = 9 :: nat, we_charged_bytes = 1\<rparr>)] else []"
  obtain result st where d: "drain ?budget int ?arrivals no_arrivals sample_inbox = (result, st)" by fastforce
  have "0 < length (wi_lanes sample_inbox)" by (simp add: sample_inbox_def)
  with drain_fifo [OF sample_inbox_holds d] d show ?thesis by force
qed

lemma drain_two_lanes:
  assumes "lane_tryPop a = (Some e, a')" and "lane_tryPop a' = (None, a')" and "lane_tryPop b = (None, b)"
  shows "\<not> res_budget_exhausted (fst (drain \<lparr>ib_max_events = 3, ib_max_per_lane = 8, ib_max_duration = 250000\<rparr>
    (\<lambda>_. 0) no_arrivals no_arrivals \<lparr>wi_lanes = [a, b], wi_bound = bs, wi_worker_count = 2, wi_next_lane = 0\<rparr>))"
  using assms
  by (simp add: drain_def Let_def drain_loop.simps visit_def drain_lane.simps attempt_def no_arrivals_def
      take_event_def read_clock_def)

theorem drain_empties_witness:
  "case drain \<lparr>ib_max_events = 3, ib_max_per_lane = 8, ib_max_duration = 250000\<rparr> (\<lambda>_. 0) no_arrivals no_arrivals sample_inbox of
     (result, st) \<Rightarrow> \<not> res_budget_exhausted result \<and> \<not> res_has_more result \<and> of_lane 0 (dr_handled st) = [7]"
proof -
  let ?budget = "\<lparr>ib_max_events = 3, ib_max_per_lane = 8, ib_max_duration = 250000\<rparr>"
  obtain result st where d: "drain ?budget (\<lambda>_. 0) no_arrivals no_arrivals sample_inbox = (result, st)" by fastforce
  have e: "\<not> res_budget_exhausted (fst (drain ?budget (\<lambda>_. 0) no_arrivals no_arrivals sample_inbox))"
  proof -
    let ?e = "\<lparr>we_event = 7 :: nat, we_charged_bytes = 3\<rparr>"
    obtain l where push: "lane_tryPush (InboxLane 100) ?e = (InboxAccepted, l)"
      by (simp add: lane_tryPush_def InboxLane_def queued_between_def)
    obtain l' where pop: "lane_tryPop l = (Some ?e, l')" "lane_holds l' []"
      using lane_pop_holds [of l "[?e]"] lane_push_holds [OF lane_holds_new push] by auto
    show ?thesis
      using drain_two_lanes [OF pop(1), of "InboxLane 100"] lane_pop_holds [OF pop(2)]
        lane_pop_holds [OF lane_holds_new, of 100] push by (simp add: sample_inbox_def)
  qed
  have "0 < length (wi_lanes sample_inbox)" by (simp add: sample_inbox_def)
  with drain_empties [OF sample_inbox_holds d] d e show ?thesis by force
qed

end
