(* ===== verification/Wire.thy ===== *)
theory Wire
  imports Frame_Codec Room_Model Zone Player "HOL-Library.Monad_Syntax"
begin

text \<open>
  The payloads of the protocol. The encoders are \<^verbatim>\<open>src/adapter/protocol_encoder.cpp\<close>; the request
  decoders are those of \<^verbatim>\<open>src/adapter/game_request_sink.cpp\<close> and, for player commands, the older
  ones of \<^verbatim>\<open>src/server/message_dispatcher.cpp\<close>, shown to agree. A reader of battle digests, written
  as a client would, is the specification the digest encoder is checked against.
\<close>

section \<open>Enumerations\<close>

primrec room_phase_code :: "room_phase \<Rightarrow> u8" where
  "room_phase_code Waiting = 0" | "room_phase_code Running = 1" | "room_phase_code Cleared = 2"
| "room_phase_code Failed = 3"

primrec room_status_code :: "room_command_status \<Rightarrow> u8" where
  "room_status_code Applied = 0" | "room_status_code AlreadyJoined = 1" | "room_status_code RoomFull = 2"
| "room_status_code WrongPhase = 3" | "room_status_code NotJoined = 4" | "room_status_code EntryFailed = 5"
| "room_status_code DuplicateRequest = 6" | "room_status_code SkillOnCooldown = 7"
| "room_status_code UnknownSkill = 8" | "room_status_code BattleExpired = 9"
| "room_status_code ParticipantDead = 10" | "room_status_code RuntimeOverloaded = 11"
| "room_status_code ProjectileCapacityExceeded = 12" | "room_status_code SkillNotEquipped = 13"

primrec failure_reason_code :: "battle_failure_reason \<Rightarrow> u8" where
  "failure_reason_code Deadline = 0" | "failure_reason_code ParticipantsDefeated = 1"

primrec enemy_kind_code :: "enemy_kind \<Rightarrow> u8" where
  "enemy_kind_code Minion = 0" | "enemy_kind_code Boss = 1"

primrec removal_reason_code :: "projectile_removal_reason \<Rightarrow> u8" where
  "removal_reason_code Hit = 0" | "removal_reason_code TargetLost = 1" | "removal_reason_code Expired = 2"

primrec zone_status_code :: "zone_command_status \<Rightarrow> u8" where
  "zone_status_code ZApplied = 0" | "zone_status_code ZAlreadyPresent = 1" | "zone_status_code ZPlayerMissing = 2"
| "zone_status_code ZStaleRoute = 3" | "zone_status_code ZTransitionInProgress = 4"
| "zone_status_code ZTransferFailed = 5" | "zone_status_code ZInRoom = 6"

primrec purchase_status_code :: "purchase_status \<Rightarrow> u8" where
  "purchase_status_code Committed = 0" | "purchase_status_code InsufficientFunds = 1"
| "purchase_status_code ProductNotFound = 2" | "purchase_status_code InventoryCapacityExceeded = 3"
| "purchase_status_code IdempotencyConflict = 4" | "purchase_status_code IdempotencyCapacityExceeded = 5"
| "purchase_status_code Unavailable = 6" | "purchase_status_code AlreadyOwned = 7"

primrec equip_status_code :: "equip_skill_status \<Rightarrow> u8" where
  "equip_status_code Equipped = 0" | "equip_status_code AlreadyEquipped = 1" | "equip_status_code SkillNotOwned = 2"
| "equip_status_code UnknownSkillStatus = 3"

primrec battle_event_kind :: "battle_event \<Rightarrow> u8" where
  "battle_event_kind (EnemySpawned i k h) = 0"
| "battle_event_kind (EnemyDamaged t a s n h) = 1"
| "battle_event_kind (EnemyDied i) = 2"
| "battle_event_kind (SkillWhiffed a s) = 3"
| "battle_event_kind (ArenaStarted w h) = 4"
| "battle_event_kind (ParticipantSpawned p pos h) = 5"
| "battle_event_kind (ParticipantMoved p pos) = 6"
| "battle_event_kind (EnemyPositioned i pos) = 7"
| "battle_event_kind (ParticipantDamaged t a n h) = 8"
| "battle_event_kind (ParticipantDied p) = 9"
| "battle_event_kind (ParticipantLeft p) = 10"
| "battle_event_kind (ProjectileSpawned q ow s t pos) = 11"
| "battle_event_kind (ProjectileMoved q pos) = 12"
| "battle_event_kind (ProjectileRemoved q r) = 13"

section \<open>The encoders\<close>

definition DIGEST_HEADER_SIZE :: nat where
  "DIGEST_HEADER_SIZE = 8 + 1 + 2"

primrec encoded_event_size :: "battle_event \<Rightarrow> nat" where
  "encoded_event_size (EnemySpawned i k h) = 1 + 4 + 1 + 8"
| "encoded_event_size (EnemyDamaged t a s n h) = 1 + 4 + 8 + 4 + 8 + 8"
| "encoded_event_size (EnemyDied i) = 1 + 4"
| "encoded_event_size (SkillWhiffed a s) = 1 + 8 + 4"
| "encoded_event_size (ArenaStarted w h) = 1 + 4 + 4"
| "encoded_event_size (ParticipantSpawned p pos h) = 1 + 8 + 4 + 4 + 8"
| "encoded_event_size (ParticipantMoved p pos) = 1 + 8 + 4 + 4"
| "encoded_event_size (EnemyPositioned i pos) = 1 + 4 + 4 + 4"
| "encoded_event_size (ParticipantDamaged t a n h) = 1 + 8 + 4 + 8 + 8"
| "encoded_event_size (ParticipantDied p) = 1 + 8"
| "encoded_event_size (ParticipantLeft p) = 1 + 8"
| "encoded_event_size (ProjectileSpawned q ow s t pos) = 1 + 4 + 8 + 4 + 4 + 4 + 4"
| "encoded_event_size (ProjectileMoved q pos) = 1 + 4 + 4 + 4"
| "encoded_event_size (ProjectileRemoved q r) = 1 + 4 + 1"

primrec event_fields :: "battle_event \<Rightarrow> bytes" where
  "event_fields (EnemySpawned i k h) = append_u32 i @ [enemy_kind_code k] @ append_u64 h"
| "event_fields (EnemyDamaged t a s n h) =
     append_u32 t @ append_u64 a @ append_u32 s @ append_u64 n @ append_u64 h"
| "event_fields (EnemyDied i) = append_u32 i"
| "event_fields (SkillWhiffed a s) = append_u64 a @ append_u32 s"
| "event_fields (ArenaStarted w h) = append_u32 w @ append_u32 h"
| "event_fields (ParticipantSpawned p pos h) =
     append_u64 p @ append_u32 (pos_x pos) @ append_u32 (pos_y pos) @ append_u64 h"
| "event_fields (ParticipantMoved p pos) = append_u64 p @ append_u32 (pos_x pos) @ append_u32 (pos_y pos)"
| "event_fields (EnemyPositioned i pos) = append_u32 i @ append_u32 (pos_x pos) @ append_u32 (pos_y pos)"
| "event_fields (ParticipantDamaged t a n h) = append_u64 t @ append_u32 a @ append_u64 n @ append_u64 h"
| "event_fields (ParticipantDied p) = append_u64 p"
| "event_fields (ParticipantLeft p) = append_u64 p"
| "event_fields (ProjectileSpawned q ow s t pos) =
     append_u32 q @ append_u64 ow @ append_u32 s @ append_u32 t @ append_u32 (pos_x pos) @ append_u32 (pos_y pos)"
| "event_fields (ProjectileMoved q pos) = append_u32 q @ append_u32 (pos_x pos) @ append_u32 (pos_y pos)"
| "event_fields (ProjectileRemoved q r) = append_u32 q @ [removal_reason_code r]"

definition append_event :: "battle_event \<Rightarrow> bytes" where
  "append_event event = battle_event_kind event # event_fields event"

text \<open>The identifier of an authenticated player is written from its last byte to its first.\<close>

fun fill_backwards :: "nat \<Rightarrow> u64 \<Rightarrow> bytes \<Rightarrow> bytes" where
  "fill_backwards 0 remaining payload = payload"
| "fill_backwards (Suc index) remaining payload =
     fill_backwards index (drop_bit 8 remaining) (payload[index := ucast (remaining AND 0xFF)])"

primrec encodePlayerResponse :: "player_response \<Rightarrow> u32 \<Rightarrow> frame" where
  "encodePlayerResponse (PongResponse payload) request_id =
     \<lparr>frame_type = message_code MtPong, frame_request_id = request_id, frame_payload = payload\<rparr>"
| "encodePlayerResponse (AuthenticatedResponse player) request_id =
     \<lparr>frame_type = message_code MtAuthenticated, frame_request_id = request_id,
      frame_payload = fill_backwards 8 player (replicate 8 0)\<rparr>"
| "encodePlayerResponse (PurchaseResponse result) request_id =
     \<lparr>frame_type = message_code MtPurchaseResult, frame_request_id = request_id,
      frame_payload = [purchase_status_code (tx_status result)] @ [if tx_replayed result then 1 else 0] @
        append_u64 (tx_idempotency_key result) @ append_u32 (tx_product result) @
        append_u64 (tx_currency_balance result) @ append_u64 (tx_purchased_item_count result)\<rparr>"
| "encodePlayerResponse (EquipSkillResponse status skill) request_id =
     \<lparr>frame_type = message_code MtEquipSkillResult, frame_request_id = request_id,
      frame_payload = [equip_status_code status] @ append_u32 skill\<rparr>"

datatype zone_reply_frame_kind = ReplyEntered | ReplyMoved | ReplyLeft

definition FIXED_PAYLOAD_SIZE :: nat where
  "FIXED_PAYLOAD_SIZE = 1 + 8 + 8 + 4 + 4 + 2"

definition MAX_VISIBLE_BY_PAYLOAD :: nat where
  "MAX_VISIBLE_BY_PAYLOAD = (unat MAX_PAYLOAD_SIZE - FIXED_PAYLOAD_SIZE) div 8"

definition encodeZoneReply :: "zone_reply_frame_kind \<Rightarrow> zone_id \<Rightarrow> zone_result \<Rightarrow> u32 \<Rightarrow> frame" where
  "encodeZoneReply kind zone result request_id =
     (let type = (case kind of ReplyEntered \<Rightarrow> MtZoneEntered | ReplyMoved \<Rightarrow> MtMoved | ReplyLeft \<Rightarrow> MtZoneLeft);
          visible_count = min (length (zr_visible_players result)) (min 65535 MAX_VISIBLE_BY_PAYLOAD)
      in \<lparr>frame_type = message_code type, frame_request_id = request_id,
          frame_payload = [zone_status_code (zr_status result)] @ append_u64 zone @ append_u64 (zr_route_epoch result) @
            append_u32 (case zr_position result of Some p \<Rightarrow> zpos_x p | None \<Rightarrow> 0) @
            append_u32 (case zr_position result of Some p \<Rightarrow> zpos_y p | None \<Rightarrow> 0) @
            append_u16 (of_nat visible_count) @
            concat (map append_u64 (take visible_count (zr_visible_players result)))\<rparr>)"

datatype room_reply_frame_kind = ReplyJoined | ReplyBattleStarted | ReplySkillAcknowledged | ReplyMoveAcknowledged

definition encodeRoomReply :: "room_reply_frame_kind \<Rightarrow> room_id \<Rightarrow> room_result \<Rightarrow> u32 \<Rightarrow> frame" where
  "encodeRoomReply kind room result request_id =
     (if kind = ReplySkillAcknowledged \<or> kind = ReplyMoveAcknowledged then
        \<lparr>frame_type = message_code (if kind = ReplySkillAcknowledged then MtSkillAcknowledged else MtMoveAcknowledged),
         frame_request_id = request_id,
         frame_payload = [room_status_code (rr_status result), room_phase_code (rr_phase result)]\<rparr>
      else
        \<lparr>frame_type = message_code (if kind = ReplyJoined then MtRoomJoined else MtBattleStarted),
         frame_request_id = request_id,
         frame_payload = [room_status_code (rr_status result)] @ [room_phase_code (rr_phase result)] @ append_u64 room\<rparr>)"

text \<open>The loop over a digest's events that computes the payload size, leaving early when it is exceeded.\<close>

fun digest_size :: "nat \<Rightarrow> battle_event list \<Rightarrow> nat option" where
  "digest_size sz [] = Some sz"
| "digest_size sz (event # rest) =
     (let event_size = encoded_event_size event
      in if sz > unat MAX_PAYLOAD_SIZE \<or> event_size > unat MAX_PAYLOAD_SIZE - sz then None
         else digest_size (sz + event_size) rest)"

definition encodeBattleDigest :: "room_result \<Rightarrow> u32 \<Rightarrow> frame option" where
  "encodeBattleDigest result request_id =
     (case rr_digest result of
        None \<Rightarrow> None
      | Some digest \<Rightarrow>
          if length (digest_events digest) > 65535 then None
          else case digest_size DIGEST_HEADER_SIZE (digest_events digest) of
            None \<Rightarrow> None
          | Some _ \<Rightarrow>
              Some \<lparr>frame_type = message_code MtBattleDigest, frame_request_id = request_id,
                frame_payload = append_u64 (digest_sequence digest) @ [room_phase_code (rr_phase result)] @
                  append_u16 (of_nat (length (digest_events digest))) @ concat (map append_event (digest_events digest))\<rparr>)"

definition encodeBattleCleared :: "u64 \<Rightarrow> u32 \<Rightarrow> frame" where
  "encodeBattleCleared experience request_id =
     \<lparr>frame_type = message_code MtBattleCleared, frame_request_id = request_id, frame_payload = append_u64 experience\<rparr>"

definition encodeBattleFailure :: "room_result \<Rightarrow> u32 \<Rightarrow> frame" where
  "encodeBattleFailure result request_id =
     \<lparr>frame_type = message_code MtBattleFailed, frame_request_id = request_id,
      frame_payload = append_u64 (rr_boss_health result) @ [if rr_boss_spawned result then 1 else 0] @
        [failure_reason_code (case rr_failure_reason result of Some r \<Rightarrow> r | None \<Rightarrow> Deadline)]\<rparr>"

definition encodeReturnedToZone :: "zone_id \<Rightarrow> zone_position \<Rightarrow> u32 \<Rightarrow> frame" where
  "encodeReturnedToZone zone position request_id =
     \<lparr>frame_type = message_code MtReturnedToZone, frame_request_id = request_id,
      frame_payload = append_u64 zone @ append_u32 (zpos_x position) @ append_u32 (zpos_y position)\<rparr>"

section \<open>Request decoders\<close>

datatype zone_request = EnterZoneRequest zone_id zone_position | MoveRequest zone_position | LeaveRequest

datatype room_request =
  RoomJoinRequest room_id
| BattleStartRequest room_id
| RoomLeaveRequest
| UseSkillRequest room_id skill_id u64
| SetMoveIntentRequest room_id move_direction u64

definition decodeBigEndian :: "bytes \<Rightarrow> nat \<Rightarrow> nat \<Rightarrow> 'a::len word" where
  "decodeBigEndian payload offset n =
     foldl (\<lambda>value index. push_bit 8 value OR ucast (payload ! index)) 0 [offset ..< offset + n]"

definition decodePlayerId :: "bytes \<Rightarrow> player_id option" where
  "decodePlayerId payload =
     (if length payload \<noteq> 8 then None
      else let value = foldl (\<lambda>value byte. push_bit 8 value OR ucast byte) 0 payload
           in if value = 0 then None else Some value)"

definition decodePurchase :: "bytes \<Rightarrow> player_command option" where
  "decodePurchase payload =
     (if length payload \<noteq> 12 then None
      else let key = decodeBigEndian payload 0 8; product = decodeBigEndian payload 8 4
           in if key = 0 \<or> product = 0 then None else Some (PurchaseCommand key product))"

definition decodeEquipSkill :: "bytes \<Rightarrow> player_command option" where
  "decodeEquipSkill payload =
     (if length payload \<noteq> 4 then None
      else let skill_id = decodeBigEndian payload 0 4
           in if skill_id = 0 then None else Some (EquipSkillCommand skill_id))"

definition decodeEnterZone :: "bytes \<Rightarrow> zone_request option" where
  "decodeEnterZone payload =
     (if length payload \<noteq> 16 then None
      else Some (EnterZoneRequest (decodeBigEndian payload 0 8)
        \<lparr>zpos_x = decodeBigEndian payload 8 4, zpos_y = decodeBigEndian payload 12 4\<rparr>))"

definition decodeMove :: "bytes \<Rightarrow> zone_request option" where
  "decodeMove payload =
     (if length payload \<noteq> 8 then None
      else Some (MoveRequest \<lparr>zpos_x = decodeBigEndian payload 0 4, zpos_y = decodeBigEndian payload 4 4\<rparr>))"

definition decodeLeave :: "bytes \<Rightarrow> zone_request option" where
  "decodeLeave payload = (if payload \<noteq> [] then None else Some LeaveRequest)"

definition decodeRoomJoin :: "bytes \<Rightarrow> room_request option" where
  "decodeRoomJoin payload =
     (if length payload \<noteq> 8 then None else Some (RoomJoinRequest (decodeBigEndian payload 0 8)))"

definition decodeBattleStart :: "bytes \<Rightarrow> room_request option" where
  "decodeBattleStart payload =
     (if length payload \<noteq> 8 then None else Some (BattleStartRequest (decodeBigEndian payload 0 8)))"

definition decodeRoomLeave :: "bytes \<Rightarrow> room_request option" where
  "decodeRoomLeave payload = (if payload \<noteq> [] then None else Some RoomLeaveRequest)"

definition decodeUseSkill :: "bytes \<Rightarrow> room_request option" where
  "decodeUseSkill payload =
     (if length payload \<noteq> 20 then None
      else let room = decodeBigEndian payload 0 8; skill = decodeBigEndian payload 8 4; seq = decodeBigEndian payload 12 8
           in if skill = 0 \<or> seq = 0 then None else Some (UseSkillRequest room skill seq))"

text \<open>The cast of a byte that passed \<open>isValidMoveDirection\<close> to the enumeration.\<close>

definition move_direction_of :: "u8 \<Rightarrow> move_direction" where
  "move_direction_of b =
     [Stop, North, NorthEast, East, SouthEast, South, SouthWest, West, NorthWest] ! unat b"

definition decodeSetMoveIntent :: "bytes \<Rightarrow> room_request option" where
  "decodeSetMoveIntent payload =
     (if length payload \<noteq> 17 then None
      else let room = decodeBigEndian payload 0 8; dir_byte = payload ! 8; seq = decodeBigEndian payload 9 8
           in if \<not> isValidMoveDirection dir_byte \<or> seq = 0 then None
              else Some (SetMoveIntentRequest room (move_direction_of dir_byte) seq))"

section \<open>The message dispatcher\<close>

type_synonym message_handler = "frame \<Rightarrow> player_command option"

datatype dispatch_status = Handled | HandlerNotFound | InvalidPayload

datatype dispatcher_error = HandlerNotCallable | HandlerAlreadyRegistered

definition registerHandler ::
    "(u16 \<Rightarrow> message_handler option) \<Rightarrow> u16 \<Rightarrow> message_handler option \<Rightarrow>
     dispatcher_error + bool \<times> (u16 \<Rightarrow> message_handler option)" where
  "registerHandler handlers type handler =
     (case handler of
        None \<Rightarrow> Inl HandlerNotCallable
      | Some h \<Rightarrow> (case handlers type of
          None \<Rightarrow> Inr (True, handlers(type \<mapsto> h))
        | Some _ \<Rightarrow> Inr (False, handlers)))"

definition ping_handler :: message_handler where
  "ping_handler request = Some (PingCommand (frame_payload request))"

definition authenticate_handler :: message_handler where
  "authenticate_handler request =
     (if length (frame_payload request) \<noteq> 8 then None
      else let player_value = foldl (\<lambda>value byte. push_bit 8 value OR ucast byte) 0 (frame_payload request)
           in if player_value = 0 then None else Some (AuthenticateCommand player_value))"

definition purchase_handler :: message_handler where
  "purchase_handler request =
     (if length (frame_payload request) \<noteq> 12 then None
      else let key = foldl (\<lambda>key index. push_bit 8 key OR ucast (frame_payload request ! index)) 0 [0 ..< 8];
               product = foldl (\<lambda>product index. push_bit 8 product OR ucast (frame_payload request ! index)) 0 [8 ..< 12]
           in if key = 0 \<or> product = 0 then None else Some (PurchaseCommand key product))"

definition equip_skill_handler :: message_handler where
  "equip_skill_handler request =
     (if length (frame_payload request) \<noteq> 4 then None
      else let skill_id = foldl (\<lambda>value byte. push_bit 8 value OR ucast byte) 0 (frame_payload request)
           in if skill_id = 0 then None else Some (EquipSkillCommand skill_id))"

fun register_all :: "(message_type \<times> message_handler) list \<Rightarrow> (u16 \<Rightarrow> message_handler option) \<Rightarrow> bool \<Rightarrow>
    dispatcher_error + (u16 \<Rightarrow> message_handler option)" where
  "register_all [] handlers ok = (if ok then Inr handlers else Inl HandlerAlreadyRegistered)"
| "register_all ((type, h) # rest) handlers ok =
     (case registerHandler handlers (message_code type) (Some h) of
        Inl e \<Rightarrow> Inl e
      | Inr (registered, handlers') \<Rightarrow> register_all rest handlers' (ok \<and> registered))"

definition MessageDispatcher :: "dispatcher_error + (u16 \<Rightarrow> message_handler option)" where
  "MessageDispatcher =
     register_all [(MtPing, ping_handler), (MtAuthenticate, authenticate_handler), (MtPurchase, purchase_handler),
       (MtEquipSkill, equip_skill_handler)] (\<lambda>_. None) True"

definition dispatch :: "(u16 \<Rightarrow> message_handler option) \<Rightarrow> frame \<Rightarrow> dispatch_status \<times> player_command option" where
  "dispatch handlers request =
     (case handlers (frame_type request) of
        None \<Rightarrow> (HandlerNotFound, None)
      | Some handler \<Rightarrow>
          (case handler request of
             Some command \<Rightarrow> (Handled, Some command)
           | None \<Rightarrow> (InvalidPayload, None)))"

section \<open>Integers\<close>

lemma append_u64_length [simp]: "length (append_u64 v) = 8"
  by (simp add: append_u64_def append_big_endian_def)

lemma be_step:
  "append_big_endian (Suc n) v = ucast (drop_bit (n * 8) v AND 0xFF) # append_big_endian n v"
  by (simp add: append_big_endian_def)

lemma byte_onto:
  fixes acc v :: "'a::len word"
  shows "push_bit (n * 8) (push_bit 8 acc OR ucast (ucast (drop_bit (n * 8) v AND 0xFF) :: u8)) OR take_bit (n * 8) v =
    push_bit (Suc n * 8) acc OR take_bit (Suc n * 8) v"
  by (rule bit_word_eqI) (auto simp: wire_bits add.commute)

lemma be_fold:
  fixes acc v :: "'a::len word"
  shows "foldl (\<lambda>value byte. push_bit 8 value OR ucast byte) acc (append_big_endian n v) =
    push_bit (n * 8) acc OR take_bit (n * 8) v"
proof (induction n arbitrary: acc)
  case 0
  then show ?case by (simp add: append_big_endian_def)
next
  case (Suc n)
  then show ?case by (simp only: be_step foldl_Cons byte_onto)
qed

lemma decode_foldl:
  "offset + n \<le> length payload \<Longrightarrow>
   decodeBigEndian payload offset n = foldl (\<lambda>value byte. push_bit 8 value OR ucast byte) 0 (take n (drop offset payload))"
proof -
  assume "offset + n \<le> length payload"
  then have "take n (drop offset payload) = map ((!) payload) [offset ..< offset + n]"
    by (intro nth_equalityI) auto
  then show ?thesis by (simp add: decodeBigEndian_def foldl_map)
qed

lemma decode_at:
  fixes v :: "'a::len word"
  assumes "n * 8 = LENGTH('a)" and "length xs = k"
  shows "decodeBigEndian (xs @ append_big_endian n v @ ys) k n = v"
proof -
  have "length (append_big_endian n v) = n" by (simp add: append_big_endian_def)
  then show ?thesis
    using assms by (simp add: decode_foldl be_fold take_bit_word_eq_self)
qed

lemma decode_u64_at [simp]: "length xs = k \<Longrightarrow> decodeBigEndian (xs @ append_u64 v @ ys) k 8 = v"
  and decode_u32_at [simp]: "length xs = k \<Longrightarrow> decodeBigEndian (xs @ append_u32 w @ ys) k 4 = w"
  and decode_u16_at [simp]: "length xs = k \<Longrightarrow> decodeBigEndian (xs @ append_u16 u @ ys) k 2 = u"
  by (simp_all add: append_u64_def append_u32_def append_u16_def decode_at)

lemma decode_u64_first [simp]: "decodeBigEndian (append_u64 v @ ys) 0 8 = v" "decodeBigEndian (append_u64 v) 0 8 = v"
  and decode_u32_first [simp]: "decodeBigEndian (append_u32 w @ ys) 0 4 = w" "decodeBigEndian (append_u32 w) 0 4 = w"
  using decode_u64_at [of "[]" 0 v ys] decode_u64_at [of "[]" 0 v "[]"]
    decode_u32_at [of "[]" 0 w ys] decode_u32_at [of "[]" 0 w "[]"] by simp_all

lemma fill_backwards_be:
  "n \<le> length payload \<Longrightarrow> fill_backwards n v payload = append_big_endian n v @ drop n payload"
proof (induction n arbitrary: v payload)
  case 0
  then show ?case by (simp add: append_big_endian_def)
next
  case (Suc n)
  have "append_big_endian n (drop_bit 8 v) @ [ucast (v AND 0xFF)] = append_big_endian (Suc n) v"
    for v :: u64
  proof (induction n)
    case 0
    then show ?case by (simp add: append_big_endian_def)
  next
    case (Suc n)
    then show ?case using be_step [of n "drop_bit 8 v"] be_step [of "Suc n" v] by (simp add: add.commute)
  qed
  with Suc show ?case
    by (simp add: drop_update_cancel Cons_nth_drop_Suc [symmetric])
qed

lemma authenticated_payload: "fill_backwards 8 v (replicate 8 0) = append_u64 v"
  by (simp add: fill_backwards_be append_u64_def)

lemma fold_player_id: "foldl (\<lambda>value byte. push_bit 8 value OR ucast byte) 0 (append_u64 v) = v"
  using be_fold [of 0 8 v] by (simp add: append_u64_def take_bit_word_eq_self)

section \<open>A reader of battle digests\<close>

definition get :: "nat \<Rightarrow> bytes \<Rightarrow> ('a::len word \<times> bytes) option" where
  "get n bs = (if length bs < n then None else Some (decodeBigEndian bs 0 n, drop n bs))"

definition get_u8 :: "bytes \<Rightarrow> (u8 \<times> bytes) option" where "get_u8 = get 1"
definition get_u16 :: "bytes \<Rightarrow> (u16 \<times> bytes) option" where "get_u16 = get 2"
definition get_u32 :: "bytes \<Rightarrow> (u32 \<times> bytes) option" where "get_u32 = get 4"
definition get_u64 :: "bytes \<Rightarrow> (u64 \<times> bytes) option" where "get_u64 = get 8"

definition get_position :: "bytes \<Rightarrow> (arena_position \<times> bytes) option" where
  "get_position bs = do { (x, bs) \<leftarrow> get_u32 bs; (y, bs) \<leftarrow> get_u32 bs; Some (\<lparr>pos_x = x, pos_y = y\<rparr>, bs) }"

definition enemy_kind_of :: "u8 \<Rightarrow> enemy_kind option" where
  "enemy_kind_of b = (if b = 0 then Some Minion else if b = 1 then Some Boss else None)"

definition removal_reason_of :: "u8 \<Rightarrow> projectile_removal_reason option" where
  "removal_reason_of b = (if b = 0 then Some Hit else if b = 1 then Some TargetLost else if b = 2 then Some Expired else None)"

definition room_phase_of :: "u8 \<Rightarrow> room_phase option" where
  "room_phase_of b = (if b = 0 then Some Waiting else if b = 1 then Some Running else if b = 2 then Some Cleared
     else if b = 3 then Some Failed else None)"

definition read_fields :: "u8 \<Rightarrow> bytes \<Rightarrow> (battle_event \<times> bytes) option" where
  "read_fields kind bs =
     (if kind = 0 then do { (i, bs) \<leftarrow> get_u32 bs; (k, bs) \<leftarrow> get_u8 bs; k \<leftarrow> enemy_kind_of k;
        (h, bs) \<leftarrow> get_u64 bs; Some (EnemySpawned i k h, bs) }
      else if kind = 1 then do { (t, bs) \<leftarrow> get_u32 bs; (a, bs) \<leftarrow> get_u64 bs; (s, bs) \<leftarrow> get_u32 bs;
        (n, bs) \<leftarrow> get_u64 bs; (h, bs) \<leftarrow> get_u64 bs; Some (EnemyDamaged t a s n h, bs) }
      else if kind = 2 then do { (i, bs) \<leftarrow> get_u32 bs; Some (EnemyDied i, bs) }
      else if kind = 3 then do { (a, bs) \<leftarrow> get_u64 bs; (s, bs) \<leftarrow> get_u32 bs; Some (SkillWhiffed a s, bs) }
      else if kind = 4 then do { (w, bs) \<leftarrow> get_u32 bs; (h, bs) \<leftarrow> get_u32 bs; Some (ArenaStarted w h, bs) }
      else if kind = 5 then do { (p, bs) \<leftarrow> get_u64 bs; (pos, bs) \<leftarrow> get_position bs; (h, bs) \<leftarrow> get_u64 bs;
        Some (ParticipantSpawned p pos h, bs) }
      else if kind = 6 then do { (p, bs) \<leftarrow> get_u64 bs; (pos, bs) \<leftarrow> get_position bs; Some (ParticipantMoved p pos, bs) }
      else if kind = 7 then do { (i, bs) \<leftarrow> get_u32 bs; (pos, bs) \<leftarrow> get_position bs; Some (EnemyPositioned i pos, bs) }
      else if kind = 8 then do { (t, bs) \<leftarrow> get_u64 bs; (a, bs) \<leftarrow> get_u32 bs; (n, bs) \<leftarrow> get_u64 bs;
        (h, bs) \<leftarrow> get_u64 bs; Some (ParticipantDamaged t a n h, bs) }
      else if kind = 9 then do { (p, bs) \<leftarrow> get_u64 bs; Some (ParticipantDied p, bs) }
      else if kind = 10 then do { (p, bs) \<leftarrow> get_u64 bs; Some (ParticipantLeft p, bs) }
      else if kind = 11 then do { (q, bs) \<leftarrow> get_u32 bs; (ow, bs) \<leftarrow> get_u64 bs; (s, bs) \<leftarrow> get_u32 bs;
        (t, bs) \<leftarrow> get_u32 bs; (pos, bs) \<leftarrow> get_position bs; Some (ProjectileSpawned q ow s t pos, bs) }
      else if kind = 12 then do { (q, bs) \<leftarrow> get_u32 bs; (pos, bs) \<leftarrow> get_position bs; Some (ProjectileMoved q pos, bs) }
      else if kind = 13 then do { (q, bs) \<leftarrow> get_u32 bs; (r, bs) \<leftarrow> get_u8 bs; r \<leftarrow> removal_reason_of r;
        Some (ProjectileRemoved q r, bs) }
      else None)"

fun read_events :: "nat \<Rightarrow> bytes \<Rightarrow> (battle_event list \<times> bytes) option" where
  "read_events 0 bs = Some ([], bs)"
| "read_events (Suc n) bs =
     do { (kind, bs) \<leftarrow> get_u8 bs; (e, bs) \<leftarrow> read_fields kind bs; (es, bs) \<leftarrow> read_events n bs; Some (e # es, bs) }"

definition read_digest :: "bytes \<Rightarrow> (u64 \<times> room_phase \<times> battle_event list) option" where
  "read_digest bs =
     do { (sequence, bs) \<leftarrow> get_u64 bs; (phase, bs) \<leftarrow> get_u8 bs; phase \<leftarrow> room_phase_of phase;
          (count, bs) \<leftarrow> get_u16 bs; (events, bs) \<leftarrow> read_events (unat count) bs;
          if bs = [] then Some (sequence, phase, events) else None }"

lemma get_append [simp]:
  "get_u64 (append_u64 v @ bs) = Some (v, bs)" "get_u32 (append_u32 w @ bs) = Some (w, bs)"
  "get_u16 (append_u16 u @ bs) = Some (u, bs)" "get_u8 (b # bs) = Some (b, bs)"
  using decode_u16_at [of "[]" 0 u bs]
  by (simp_all add: get_u64_def get_u32_def get_u16_def get_u8_def get_def) (simp add: decodeBigEndian_def)

lemma get_append_end [simp]:
  "get_u64 (append_u64 v) = Some (v, [])" "get_u32 (append_u32 w) = Some (w, [])"
  using get_append(1) [of v "[]"] get_append(2) [of w "[]"] by simp_all

lemma get_position_append [simp]:
  "get_position (append_u32 (pos_x pos) @ append_u32 (pos_y pos) @ bs) = Some (pos, bs)"
  "get_position (append_u32 (pos_x pos) @ append_u32 (pos_y pos)) = Some (pos, [])"
  by (simp_all add: get_position_def)

lemma enum_codes [simp]:
  "enemy_kind_of (enemy_kind_code k) = Some k" "removal_reason_of (removal_reason_code r) = Some r"
  "room_phase_of (room_phase_code ph) = Some ph"
  by ((cases k; simp add: enemy_kind_of_def), (cases r; simp add: removal_reason_of_def),
      (cases ph; simp add: room_phase_of_def))

lemma read_fields_append: "read_fields (battle_event_kind e) (event_fields e @ bs) = Some (e, bs)"
  by (cases e) (simp_all add: read_fields_def)

lemma read_events_append: "read_events (length es) (concat (map append_event es) @ bs) = Some (es, bs)"
  by (induction es) (simp_all add: append_event_def read_fields_append)

section \<open>What the encodings guarantee\<close>

lemma encoded_event_size_exact: "length (append_event e) = encoded_event_size e"
  by (cases e) (simp_all add: append_event_def)

lemma digest_size_exact:
  "digest_size n es = Some bytes_needed \<Longrightarrow> n \<le> unat MAX_PAYLOAD_SIZE \<Longrightarrow>
    bytes_needed = n + length (concat (map append_event es)) \<and> bytes_needed \<le> unat MAX_PAYLOAD_SIZE"
proof (induction es arbitrary: n)
  case Nil
  then show ?case by simp
next
  case (Cons e es)
  then have "digest_size (n + encoded_event_size e) es = Some bytes_needed"
      "n + encoded_event_size e \<le> unat MAX_PAYLOAD_SIZE"
    by (auto simp: Let_def split: if_splits)
  from Cons.IH [OF this] show ?case by (simp add: encoded_event_size_exact)
qed

lemma digest_size_total:
  "n + length (concat (map append_event es)) \<le> unat MAX_PAYLOAD_SIZE \<Longrightarrow> digest_size n es \<noteq> None"
proof (induction es arbitrary: n)
  case Nil
  then show ?case by simp
next
  case (Cons e es)
  then show ?case
    using Cons.IH [of "n + encoded_event_size e"] by (auto simp: Let_def encoded_event_size_exact)
qed

lemma MAX_PAYLOAD_SIZE_nat: "unat MAX_PAYLOAD_SIZE = 65530"
  by (simp add: frame_sizes)

text \<open>
  C34: A battle digest that the server encodes is read back by the client exactly: sequence, phase and
  the events in order, of all fourteen kinds, with no byte left over; the frame fits the protocol's
  payload limit. It is refused only when the events do not fit.
\<close>

theorem digest_roundtrip:
  assumes "rr_digest result = Some digest"
  shows "case encodeBattleDigest result request_id of
     Some f \<Rightarrow> read_digest (frame_payload f) = Some (digest_sequence digest, rr_phase result, digest_events digest) \<and>
       (\<exists>bs. encode_frame f = Inr bs)
   | None \<Rightarrow> length (digest_events digest) > 65535 \<or>
       DIGEST_HEADER_SIZE + length (concat (map append_event (digest_events digest))) > unat MAX_PAYLOAD_SIZE"
proof (cases "length (digest_events digest) > 65535")
  case True
  with assms show ?thesis by (simp add: encodeBattleDigest_def)
next
  case False
  have unat: "unat (of_nat (length (digest_events digest)) :: u16) = length (digest_events digest)"
    using False by (simp add: unat_of_nat take_bit_nat_eq_self)
  show ?thesis
  proof (cases "digest_size DIGEST_HEADER_SIZE (digest_events digest)")
    case None
    then have "DIGEST_HEADER_SIZE + length (concat (map append_event (digest_events digest))) > unat MAX_PAYLOAD_SIZE"
      using digest_size_total by (meson not_le)
    with None assms False show ?thesis by (simp add: encodeBattleDigest_def)
  next
    case (Some bytes_needed)
    have "bytes_needed = DIGEST_HEADER_SIZE + length (concat (map append_event (digest_events digest)))"
      "bytes_needed \<le> unat MAX_PAYLOAD_SIZE"
      using digest_size_exact [OF Some] by (simp_all add: DIGEST_HEADER_SIZE_def MAX_PAYLOAD_SIZE_nat)
    then have fits: "length (concat (map append_event (digest_events digest))) + 11 \<le> unat MAX_PAYLOAD_SIZE"
      by (simp add: DIGEST_HEADER_SIZE_def)
    then show ?thesis
      using assms Some False read_events_append [of "digest_events digest" "[]"] unat
      by (simp add: encodeBattleDigest_def read_digest_def encode_frame_def is_known_message_type_def)
  qed
qed

text \<open>
  Every reply the server builds can be framed: the frames for player responses, zone replies with
  any number of visible players, room replies and battle results all have a known type and a payload
  within the limit. A pong, which echoes its request, is the one whose size its request decides.
\<close>

lemma replies_encodable:
  "(\<forall>response. (\<forall>payload. response = PongResponse payload \<longrightarrow> length payload \<le> unat MAX_PAYLOAD_SIZE) \<longrightarrow>
      (\<exists>bs. encode_frame (encodePlayerResponse response request_id) = Inr bs)) \<and>
   (\<exists>bs. encode_frame (encodeZoneReply zkind zone zresult request_id) = Inr bs) \<and>
   (\<exists>bs. encode_frame (encodeRoomReply rkind room rresult request_id) = Inr bs) \<and>
   (\<exists>bs. encode_frame (encodeBattleCleared experience request_id) = Inr bs) \<and>
   (\<exists>bs. encode_frame (encodeBattleFailure rresult request_id) = Inr bs) \<and>
   (\<exists>bs. encode_frame (encodeReturnedToZone zone position request_id) = Inr bs)"
proof -
  have player: "\<exists>bs. encode_frame (encodePlayerResponse response request_id) = Inr bs"
    if "\<forall>payload. response = PongResponse payload \<longrightarrow> length payload \<le> unat MAX_PAYLOAD_SIZE" for response
    using that by (cases response)
      (auto simp: encode_frame_def is_known_message_type_def authenticated_payload MAX_PAYLOAD_SIZE_nat)
  have visible: "length (concat (map append_u64 ps)) = 8 * length ps" for ps
    by (induction ps) simp_all
  have "min (length (zr_visible_players zresult)) (min 65535 MAX_VISIBLE_BY_PAYLOAD) \<le> 8187"
    by (simp add: MAX_VISIBLE_BY_PAYLOAD_def MAX_PAYLOAD_SIZE_nat FIXED_PAYLOAD_SIZE_def)
  then have zone: "\<exists>bs. encode_frame (encodeZoneReply zkind zone zresult request_id) = Inr bs"
    by (cases zkind) (auto simp: encodeZoneReply_def Let_def encode_frame_def is_known_message_type_def visible
        MAX_PAYLOAD_SIZE_nat)
  have room: "\<exists>bs. encode_frame (encodeRoomReply rkind room rresult request_id) = Inr bs"
    by (cases rkind) (auto simp: encodeRoomReply_def encode_frame_def is_known_message_type_def MAX_PAYLOAD_SIZE_nat)
  show ?thesis
    using player zone room
    by (auto simp: encodeBattleCleared_def encodeBattleFailure_def encodeReturnedToZone_def encode_frame_def
        is_known_message_type_def MAX_PAYLOAD_SIZE_nat)
qed

text \<open>
  The two generations of the server read player commands alike: the message dispatcher is built
  without error, and on frames of its four types it yields the command the request sink's decoders
  yield, rejecting exactly the payloads they reject; other types have no handler.
\<close>

lemma dispatcher_agrees:
  "\<exists>handlers. MessageDispatcher = Inr handlers \<and> (\<forall>f.
     snd (dispatch handlers f) =
       (if frame_type f = message_code MtPing then Some (PingCommand (frame_payload f))
        else if frame_type f = message_code MtAuthenticate then map_option AuthenticateCommand (decodePlayerId (frame_payload f))
        else if frame_type f = message_code MtPurchase then decodePurchase (frame_payload f)
        else if frame_type f = message_code MtEquipSkill then decodeEquipSkill (frame_payload f)
        else None) \<and>
     (fst (dispatch handlers f) = HandlerNotFound) =
       (frame_type f \<notin> {message_code MtPing, message_code MtAuthenticate, message_code MtPurchase, message_code MtEquipSkill}))"
proof -
  let ?hs = "[message_code MtPing \<mapsto> ping_handler, message_code MtAuthenticate \<mapsto> authenticate_handler,
      message_code MtPurchase \<mapsto> purchase_handler, message_code MtEquipSkill \<mapsto> equip_skill_handler]"
  have built: "MessageDispatcher = Inr ?hs"
    by (simp add: MessageDispatcher_def registerHandler_def)
  have auth: "authenticate_handler f = map_option AuthenticateCommand (decodePlayerId (frame_payload f))" for f
    by (simp add: authenticate_handler_def decodePlayerId_def Let_def)
  have purchase: "purchase_handler f = decodePurchase (frame_payload f)" for f
    by (simp add: purchase_handler_def decodePurchase_def decodeBigEndian_def)
  have equip: "equip_skill_handler f = decodeEquipSkill (frame_payload f)" for f
    using decode_foldl [where ?'a = 32, of 0 4 "frame_payload f"] by (auto simp: equip_skill_handler_def decodeEquipSkill_def Let_def)
  have "dispatch ?hs f = (case ?hs (frame_type f) of None \<Rightarrow> (HandlerNotFound, None)
      | Some h \<Rightarrow> (case h f of Some c \<Rightarrow> (Handled, Some c) | None \<Rightarrow> (InvalidPayload, None)))" for f
    by (simp add: dispatch_def)
  then show ?thesis
    using built auth purchase equip
    by (intro exI [of _ ?hs] conjI allI) (auto simp: ping_handler_def split: option.splits)
qed

theorem digest_roundtrip_witness:
  "let digest = \<lparr>digest_sequence = 9, digest_events = [EnemyDied 3, ParticipantMoved 5 \<lparr>pos_x = 1, pos_y = 2\<rparr>]\<rparr>;
       result = \<lparr>rr_status = Applied, rr_phase = Running, rr_player = None, rr_deadline_after = None, rr_tick_after = None,
         rr_boss_health = 0, rr_boss_spawned = False, rr_digest = Some digest, rr_outcome = None,
         rr_failure_reason = None, rr_audience = [], rr_grants = []\<rparr>
   in \<exists>f. encodeBattleDigest result 0 = Some f \<and>
        read_digest (frame_payload f) = Some (9, Running, [EnemyDied 3, ParticipantMoved 5 \<lparr>pos_x = 1, pos_y = 2\<rparr>])"
proof -
  let ?d = "\<lparr>digest_sequence = 9, digest_events = [EnemyDied 3, ParticipantMoved 5 \<lparr>pos_x = 1, pos_y = 2\<rparr>]\<rparr>"
  let ?r = "\<lparr>rr_status = Applied, rr_phase = Running, rr_player = None, rr_deadline_after = None, rr_tick_after = None,
         rr_boss_health = 0, rr_boss_spawned = False, rr_digest = Some ?d, rr_outcome = None,
         rr_failure_reason = None, rr_audience = [], rr_grants = []\<rparr>"
  have "encodeBattleDigest ?r 0 \<noteq> None"
    by (simp add: encodeBattleDigest_def Let_def DIGEST_HEADER_SIZE_def MAX_PAYLOAD_SIZE_nat)
  with digest_roundtrip [of ?r ?d 0] show ?thesis by (auto simp: Let_def split: option.splits)
qed

theorem replies_encodable_witness:
  "\<exists>bs. encode_frame (encodePlayerResponse (PongResponse [1, 2, 3]) 7) = Inr bs"
  using conjunct1 [OF replies_encodable, of 7, THEN spec, of "PongResponse [1, 2, 3]"] by (simp add: MAX_PAYLOAD_SIZE_nat)

end
