(* ===== verification/Load_Client.thy ===== *)
theory Load_Client
  imports Wire
begin

text \<open>
  The load client of \<^verbatim>\<open>src/load/client_connection.cpp\<close>: a scripted peer of the server that sends one
  request at a time, checks every reply and the continuity of the battle digests, and advances its
  script. The socket is the list of outcomes its calls return; the clock is a parameter. The lemmas
  put it together with the server's codecs: what it sends is what the server decodes, and what the
  server answers is what it accepts.
\<close>

section \<open>State\<close>

datatype load_scenario = ScenarioPing | ScenarioZone | ScenarioBattle

record client_workload =
  wl_scenario :: load_scenario
  wl_player_id :: u64
  wl_zone_id :: u64
  wl_room_id :: u64
  wl_starts_battle :: bool

datatype workload_stage =
  StagePing | StageAuthenticate | StageEnterZone | StageMove | StageRoomJoin | StageBattleStart
| StageAwaitBattleStart | StageBattleAction | StageComplete

datatype client_error = SocketError string int | ProtocolError string

datatype client_fault = BadAuthenticatedWorkload | BadBattleWorkload | RequestOutstanding | WorkloadNotReady | EncodeFault

record outstanding_request =
  or_request_id :: u32
  or_request_type :: message_type
  or_payload :: bytes
  or_expected_x :: i32
  or_expected_y :: i32
  or_bootstrap :: bool
  or_started_at :: time_point
  or_deadline :: time_point

record client =
  cl_connected :: bool
  cl_decoder :: frame_decoder
  cl_pending_send_bytes :: bytes
  cl_send_offset :: nat
  cl_next_request_id :: u32
  cl_connect_deadline :: time_point
  cl_outstanding :: "outstanding_request option"
  cl_workload :: client_workload
  cl_stage :: workload_stage
  cl_move_sequence :: u64
  cl_skill_sequence :: u64
  cl_next_action_is_skill :: bool
  cl_last_digest_sequence :: "u64 option"
  cl_last_digest_at :: "time_point option"

record write_result =
  wr_connected :: bool
  wr_sent_requests :: nat
  wr_sent_bootstrap_requests :: nat
  wr_sent_gameplay_requests :: nat
  wr_error :: "client_error option"

record read_result =
  rd_round_trip_times :: "int list"
  rd_gameplay_round_trip_times :: "int list"
  rd_battle_digest_intervals :: "int list"
  rd_bootstrap_responses :: nat
  rd_battle_start_rejections :: nat
  rd_gameplay_responses :: nat
  rd_unsolicited_frames :: nat
  rd_unsolicited_bytes :: nat
  rd_battle_digest_frames :: nat
  rd_battle_digest_bytes :: nat
  rd_battle_cleared_frames :: nat
  rd_battle_failed_frames :: nat
  rd_returned_to_zone_frames :: nat
  rd_error :: "client_error option"

definition no_writes :: write_result where
  "no_writes = \<lparr>wr_connected = False, wr_sent_requests = 0, wr_sent_bootstrap_requests = 0,
     wr_sent_gameplay_requests = 0, wr_error = None\<rparr>"

definition no_reads :: read_result where
  "no_reads = \<lparr>rd_round_trip_times = [], rd_gameplay_round_trip_times = [], rd_battle_digest_intervals = [],
     rd_bootstrap_responses = 0, rd_battle_start_rejections = 0, rd_gameplay_responses = 0,
     rd_unsolicited_frames = 0, rd_unsolicited_bytes = 0, rd_battle_digest_frames = 0, rd_battle_digest_bytes = 0,
     rd_battle_cleared_frames = 0, rd_battle_failed_frames = 0, rd_returned_to_zone_frames = 0, rd_error = None\<rparr>"

text \<open>The constructor after its socket calls; \<open>connected\<close> says that \<open>connect\<close> returned at once.\<close>

definition ClientConnection :: "client_workload \<Rightarrow> time_point \<Rightarrow> millis \<Rightarrow> bool \<Rightarrow> client_fault + client" where
  "ClientConnection workload now connect_timeout connected =
     (if wl_scenario workload \<noteq> ScenarioPing \<and> (wl_player_id workload = 0 \<or> wl_zone_id workload = 0)
      then Inl BadAuthenticatedWorkload
      else if wl_scenario workload = ScenarioBattle \<and> wl_room_id workload = 0 then Inl BadBattleWorkload
      else Inr \<lparr>cl_connected = connected, cl_decoder = fresh_decoder, cl_pending_send_bytes = [], cl_send_offset = 0,
        cl_next_request_id = 1, cl_connect_deadline = after_ms now connect_timeout, cl_outstanding = None,
        cl_workload = workload,
        cl_stage = (if wl_scenario workload = ScenarioPing then StagePing else StageAuthenticate),
        cl_move_sequence = 0, cl_skill_sequence = 0, cl_next_action_is_skill = True,
        cl_last_digest_sequence = None, cl_last_digest_at = None\<rparr>)"

definition canStartRequest :: "client \<Rightarrow> bool" where
  "canStartRequest c \<longleftrightarrow> cl_connected c \<and> cl_pending_send_bytes c = [] \<and> cl_outstanding c = None \<and>
     cl_stage c \<noteq> StageAwaitBattleStart \<and> cl_stage c \<noteq> StageComplete"

definition isIdle :: "client \<Rightarrow> bool" where
  "isIdle c \<longleftrightarrow> cl_pending_send_bytes c = [] \<and> cl_outstanding c = None"

definition hasCompletedBootstrap :: "client \<Rightarrow> bool" where
  "hasCompletedBootstrap c \<longleftrightarrow> cl_stage c \<in> {StagePing, StageMove, StageBattleAction, StageComplete}"

definition hasJoinedRoom :: "client \<Rightarrow> bool" where
  "hasJoinedRoom c \<longleftrightarrow> wl_scenario (cl_workload c) = ScenarioBattle \<and>
     cl_stage c \<in> {StageBattleStart, StageAwaitBattleStart, StageBattleAction, StageComplete}"

section \<open>Sending\<close>

definition encode_timestamp :: "u64 \<Rightarrow> bytes" where
  "encode_timestamp timestamp =
     map (\<lambda>shift. ucast (drop_bit shift timestamp AND 0xFF)) [56, 48, 40, 32, 24, 16, 8, 0]"

definition POSITION_SPAN :: u64 where
  "POSITION_SPAN = 2001"

record request_plan =
  rp_type :: message_type
  rp_payload :: bytes
  rp_x :: i32
  rp_y :: i32
  rp_bootstrap :: bool
  rp_client :: client

text \<open>The switch of \<open>enqueueNextRequest\<close>: what to send at each stage, and the counters it advances.\<close>

definition plan_request :: "client \<Rightarrow> time_point \<Rightarrow> request_plan option" where
  "plan_request c started_at =
     (let w = cl_workload c;
          plan = \<lparr>rp_type = MtPing, rp_payload = [], rp_x = 0, rp_y = 0, rp_bootstrap = False, rp_client = c\<rparr>
      in case cl_stage c of
        StagePing \<Rightarrow> Some (plan\<lparr>rp_payload := encode_timestamp (word_of_int started_at)\<rparr>)
      | StageAuthenticate \<Rightarrow>
          Some (plan\<lparr>rp_type := MtAuthenticate, rp_payload := append_u64 (wl_player_id w), rp_bootstrap := True\<rparr>)
      | StageEnterZone \<Rightarrow>
          Some (plan\<lparr>rp_type := MtEnterZone, rp_payload := append_u64 (wl_zone_id w) @ append_u32 0 @ append_u32 0,
            rp_bootstrap := True\<rparr>)
      | StageMove \<Rightarrow>
          let move_sequence = cl_move_sequence c + 1;
              x = ucast (move_sequence mod POSITION_SPAN) - 1000;
              y = ucast ((move_sequence * 17) mod POSITION_SPAN) - 1000
          in Some (plan\<lparr>rp_type := MtMove, rp_payload := append_u32 x @ append_u32 y, rp_x := x, rp_y := y,
               rp_client := c\<lparr>cl_move_sequence := move_sequence\<rparr>\<rparr>)
      | StageRoomJoin \<Rightarrow>
          Some (plan\<lparr>rp_type := MtRoomJoin, rp_payload := append_u64 (wl_room_id w), rp_bootstrap := True\<rparr>)
      | StageBattleStart \<Rightarrow>
          Some (plan\<lparr>rp_type := MtBattleStart, rp_payload := append_u64 (wl_room_id w), rp_bootstrap := True\<rparr>)
      | StageBattleAction \<Rightarrow>
          if cl_next_action_is_skill c then
            Some (plan\<lparr>rp_type := MtUseSkill,
              rp_payload := append_u64 (wl_room_id w) @ append_u32 SLASH_SKILL_ID @ append_u64 (cl_skill_sequence c + 1),
              rp_client := c\<lparr>cl_skill_sequence := cl_skill_sequence c + 1\<rparr>\<rparr>)
          else
            Some (plan\<lparr>rp_type := MtSetMoveIntent,
              rp_payload := append_u64 (wl_room_id w) @ [ucast (cl_move_sequence c mod 8 + 1)] @
                append_u64 (cl_move_sequence c + 1),
              rp_client := c\<lparr>cl_move_sequence := cl_move_sequence c + 1\<rparr>\<rparr>)
      | StageAwaitBattleStart \<Rightarrow> None
      | StageComplete \<Rightarrow> None)"

definition plan_frame :: "request_plan \<Rightarrow> u32 \<Rightarrow> frame" where
  "plan_frame plan request_id =
     \<lparr>frame_type = message_code (rp_type plan), frame_request_id = request_id, frame_payload = rp_payload plan\<rparr>"

definition enqueueNextRequest :: "client \<Rightarrow> time_point \<Rightarrow> millis \<Rightarrow> client_fault + client" where
  "enqueueNextRequest c started_at request_timeout =
     (if \<not> canStartRequest c then Inl RequestOutstanding
      else case plan_request c started_at of
        None \<Rightarrow> Inl WorkloadNotReady
      | Some plan \<Rightarrow> (case encode_frame (plan_frame plan (cl_next_request_id c)) of
          Inl _ \<Rightarrow> Inl EncodeFault
        | Inr bs \<Rightarrow>
            let next_id = cl_next_request_id c + 1
            in Inr ((rp_client plan)\<lparr>cl_pending_send_bytes := bs, cl_send_offset := 0,
                 cl_outstanding := Some \<lparr>or_request_id = cl_next_request_id c, or_request_type = rp_type plan,
                   or_payload = rp_payload plan, or_expected_x = rp_x plan, or_expected_y = rp_y plan,
                   or_bootstrap = rp_bootstrap plan, or_started_at = started_at,
                   or_deadline = after_ms started_at request_timeout\<rparr>,
                 cl_next_request_id := (if next_id = 0 then next_id + 1 else next_id)\<rparr>)))"

datatype send_outcome = Sent nat | SendInterrupted | SendWouldBlock | SendFailed int

text \<open>The send loop, on the outcomes of the successive calls; an exhausted list blocks.\<close>

fun send_loop :: "client \<Rightarrow> send_outcome list \<Rightarrow> client_error option \<times> bool \<times> client" where
  "send_loop c outcomes =
     (if cl_send_offset c < length (cl_pending_send_bytes c) then
        case outcomes of
          [] \<Rightarrow> (None, False, c)
        | Sent n # rest \<Rightarrow>
            if n = 0 then (Some (SocketError ''send'' 0), False, c)
            else send_loop (c\<lparr>cl_send_offset := cl_send_offset c + n\<rparr>) rest
        | SendInterrupted # rest \<Rightarrow> send_loop c rest
        | SendWouldBlock # rest \<Rightarrow> (None, False, c)
        | SendFailed e # rest \<Rightarrow> (Some (SocketError ''send'' e), False, c)
      else (None, True, c))"

declare send_loop.simps [simp del]

text \<open>\<open>socket_error\<close> is the pending error of a connecting socket.\<close>

definition handleWritable :: "client \<Rightarrow> client_error option \<Rightarrow> send_outcome list \<Rightarrow> write_result \<times> client" where
  "handleWritable c socket_error outcomes =
     (if \<not> cl_connected c \<and> socket_error \<noteq> None then (no_writes\<lparr>wr_error := socket_error\<rparr>, c)
      else
        let result = no_writes\<lparr>wr_connected := \<not> cl_connected c\<rparr>
        in case send_loop (c\<lparr>cl_connected := True\<rparr>) outcomes of
          (error, finished, c1) \<Rightarrow>
            if error \<noteq> None then (result\<lparr>wr_error := error\<rparr>, c1)
            else if \<not> finished then (result, c1)
            else if cl_pending_send_bytes c1 \<noteq> [] then
              let c2 = c1\<lparr>cl_pending_send_bytes := [], cl_send_offset := 0\<rparr>;
                  bootstrap = (case cl_outstanding c of Some r \<Rightarrow> or_bootstrap r | None \<Rightarrow> False)
              in (result\<lparr>wr_sent_requests := 1, wr_sent_bootstrap_requests := (if bootstrap then 1 else 0),
                    wr_sent_gameplay_requests := (if bootstrap then 0 else 1)\<rparr>, c2)
            else (result, c1))"

section \<open>Receiving\<close>

fun expected_reply :: "message_type \<Rightarrow> message_type option" where
  "expected_reply MtPing = Some MtPong"
| "expected_reply MtAuthenticate = Some MtAuthenticated"
| "expected_reply MtEnterZone = Some MtZoneEntered"
| "expected_reply MtMove = Some MtMoved"
| "expected_reply MtRoomJoin = Some MtRoomJoined"
| "expected_reply MtBattleStart = Some MtBattleStarted"
| "expected_reply MtUseSkill = Some MtSkillAcknowledged"
| "expected_reply MtSetMoveIntent = Some MtMoveAcknowledged"
| "expected_reply _ = None"

fun sorted_peers :: "u64 \<Rightarrow> u64 \<Rightarrow> u64 list \<Rightarrow> bool" where
  "sorted_peers self previous [] = True"
| "sorted_peers self previous (player # rest) =
     (if player = 0 \<or> player = self \<or> player \<le> previous then False else sorted_peers self player rest)"

definition validate_room_join :: "client \<Rightarrow> bytes \<Rightarrow> client_error option" where
  "validate_room_join c payload =
     (if length payload \<noteq> 1 + 1 + 8 \<or> payload ! 0 \<noteq> room_status_code Applied \<or>
         payload ! 1 \<noteq> room_phase_code Waiting \<or> decodeBigEndian payload 2 8 \<noteq> wl_room_id (cl_workload c)
      then Some (ProtocolError ''Room response fields do not match the request'') else None)"

definition validate_battle_start :: "client \<Rightarrow> bytes \<Rightarrow> client_error option" where
  "validate_battle_start c payload =
     (if length payload \<noteq> 1 + 1 + 8 \<or> decodeBigEndian payload 2 8 \<noteq> wl_room_id (cl_workload c)
      then Some (ProtocolError ''Battle start response fields do not match the request'')
      else let status = payload ! 0; phase = payload ! 1
        in if (status \<noteq> room_status_code Applied \<or> phase \<noteq> room_phase_code Running) \<and>
              (status \<noteq> room_status_code RuntimeOverloaded \<or> phase \<noteq> room_phase_code Waiting)
           then Some (ProtocolError ''Battle start response status and phase do not match'') else None)"

definition validate_acknowledgement :: "bytes \<Rightarrow> client_error option" where
  "validate_acknowledgement payload =
     (if length payload \<noteq> 2 \<or> payload ! 0 > room_status_code ProjectileCapacityExceeded \<or>
         payload ! 1 > room_phase_code Failed
      then Some (ProtocolError ''Battle acknowledgement fields are invalid'') else None)"

definition validate_zone :: "client \<Rightarrow> outstanding_request \<Rightarrow> bytes \<Rightarrow> client_error option" where
  "validate_zone c request payload =
     (if length payload < FIXED_PAYLOAD_SIZE \<or> payload ! 0 \<noteq> 0 \<or>
         decodeBigEndian payload 1 8 \<noteq> wl_zone_id (cl_workload c) \<or> decodeBigEndian payload 9 8 = (0 :: u64)
      then Some (ProtocolError ''Zone response fields do not match the request'')
      else if or_request_type request = MtMove \<and>
         (decodeBigEndian payload 17 4 \<noteq> or_expected_x request \<or> decodeBigEndian payload 21 4 \<noteq> or_expected_y request)
      then Some (ProtocolError ''Move response position does not match the request'')
      else let visible_count = unat (decodeBigEndian payload 25 2 :: u16)
        in if length payload \<noteq> FIXED_PAYLOAD_SIZE + visible_count * 8
           then Some (ProtocolError ''Zone response member count does not match its payload'')
           else if \<not> sorted_peers (wl_player_id (cl_workload c)) 0
                (map (\<lambda>index. decodeBigEndian payload (FIXED_PAYLOAD_SIZE + index * 8) 8) [0 ..< visible_count])
           then Some (ProtocolError ''Zone response players are not a sorted peer set'')
           else None)"

definition validateResponse :: "client \<Rightarrow> frame \<Rightarrow> client_error option" where
  "validateResponse c response =
     (case cl_outstanding c of
        None \<Rightarrow> Some (ProtocolError ''Received response without an outstanding request'')
      | Some request \<Rightarrow>
          (case expected_reply (or_request_type request) of
             None \<Rightarrow> Some (ProtocolError ''Unsupported load request type'')
           | Some expected_type \<Rightarrow>
               if frame_type response \<noteq> message_code expected_type
               then Some (ProtocolError ''Response type does not match the request'')
               else if frame_request_id response \<noteq> or_request_id request
               then Some (ProtocolError ''Response request ID does not match the request'')
               else if or_request_type request = MtPing \<or> or_request_type request = MtAuthenticate
               then if frame_payload response \<noteq> or_payload request
                    then Some (ProtocolError ''Response payload does not match the request'') else None
               else if or_request_type request = MtRoomJoin then validate_room_join c (frame_payload response)
               else if or_request_type request = MtBattleStart then validate_battle_start c (frame_payload response)
               else if or_request_type request = MtUseSkill \<or> or_request_type request = MtSetMoveIntent
               then validate_acknowledgement (frame_payload response)
               else validate_zone c request (frame_payload response)))"

definition ENCODED_FRAME_OVERHEAD :: nat where
  "ENCODED_FRAME_OVERHEAD = unat FRAME_LENGTH_FIELD_SIZE + unat MIN_BODY_SIZE"

definition record_digest :: "client \<Rightarrow> bytes \<Rightarrow> time_point \<Rightarrow> read_result \<Rightarrow> client_error option \<times> read_result \<times> client" where
  "record_digest c payload received_at result =
     (if length payload < DIGEST_HEADER_SIZE
      then (Some (ProtocolError ''Battle digest is shorter than its header''), result, c)
      else let sequence = decodeBigEndian payload 0 8 :: u64
        in if sequence = 0 \<or> (case cl_last_digest_sequence c of Some l \<Rightarrow> sequence \<noteq> l + 1 | None \<Rightarrow> False)
           then (Some (ProtocolError ''Battle digest sequence is not continuous''), result, c)
           else (None,
             result\<lparr>rd_battle_digest_intervals := rd_battle_digest_intervals result @
                 (case cl_last_digest_at c of Some l \<Rightarrow> [received_at - l] | None \<Rightarrow> []),
               rd_battle_digest_frames := rd_battle_digest_frames result + 1,
               rd_battle_digest_bytes := rd_battle_digest_bytes result + (ENCODED_FRAME_OVERHEAD + length payload)\<rparr>,
             c\<lparr>cl_last_digest_sequence := Some sequence, cl_last_digest_at := Some received_at,
               cl_stage := (if cl_stage c = StageAwaitBattleStart then StageBattleAction else cl_stage c)\<rparr>))"

definition recordUnsolicitedFrame ::
    "client \<Rightarrow> frame \<Rightarrow> time_point \<Rightarrow> read_result \<Rightarrow> client_error option \<times> read_result \<times> client" where
  "recordUnsolicitedFrame c response received_at result0 =
     (let payload = frame_payload response;
          result = result0\<lparr>rd_unsolicited_frames := rd_unsolicited_frames result0 + 1,
            rd_unsolicited_bytes := rd_unsolicited_bytes result0 + (ENCODED_FRAME_OVERHEAD + length payload)\<rparr>
      in if frame_type response = message_code MtBattleDigest then record_digest c payload received_at result
         else if frame_type response = message_code MtBattleCleared then
           if length payload \<noteq> 8 then (Some (ProtocolError ''Battle clear payload is invalid''), result, c)
           else (None, result\<lparr>rd_battle_cleared_frames := rd_battle_cleared_frames result + 1\<rparr>,
                 c\<lparr>cl_stage := StageComplete\<rparr>)
         else if frame_type response = message_code MtBattleFailed then
           if length payload \<noteq> 8 + 1 + 1 then (Some (ProtocolError ''Battle failure payload is invalid''), result, c)
           else (None, result\<lparr>rd_battle_failed_frames := rd_battle_failed_frames result + 1\<rparr>,
                 c\<lparr>cl_stage := StageComplete\<rparr>)
         else if frame_type response = message_code MtReturnedToZone then
           if length payload \<noteq> 8 + 4 + 4 then (Some (ProtocolError ''Returned-to-Zone payload is invalid''), result, c)
           else (None, result\<lparr>rd_returned_to_zone_frames := rd_returned_to_zone_frames result + 1\<rparr>,
                 c\<lparr>cl_stage := StageComplete\<rparr>)
         else (Some (ProtocolError ''Unsupported unsolicited frame type''), result, c))"

definition completeRequest :: "client \<Rightarrow> message_type \<Rightarrow> bool \<Rightarrow> client" where
  "completeRequest c request_type battle_start_rejected =
     (if request_type = MtAuthenticate then c\<lparr>cl_stage := StageEnterZone\<rparr>
      else if request_type = MtEnterZone then
        c\<lparr>cl_stage := (if wl_scenario (cl_workload c) = ScenarioBattle then StageRoomJoin else StageMove)\<rparr>
      else if request_type = MtRoomJoin then
        c\<lparr>cl_stage := (if wl_starts_battle (cl_workload c) then StageBattleStart else StageAwaitBattleStart)\<rparr>
      else if request_type = MtBattleStart then
        c\<lparr>cl_stage := (if battle_start_rejected then StageBattleStart else StageBattleAction)\<rparr>
      else if request_type = MtUseSkill \<or> request_type = MtSetMoveIntent then
        c\<lparr>cl_next_action_is_skill := \<not> cl_next_action_is_skill c\<rparr>
      else c)"

text \<open>One reply to the outstanding request that passed its validation.\<close>

definition accept_response :: "client \<Rightarrow> outstanding_request \<Rightarrow> frame \<Rightarrow> time_point \<Rightarrow> read_result \<Rightarrow> read_result \<times> client" where
  "accept_response c request response received_at result =
     (let round_trip_time = received_at - or_started_at request;
          result1 = result\<lparr>rd_round_trip_times := rd_round_trip_times result @ [round_trip_time]\<rparr>;
          result2 = (if or_bootstrap request
            then result1\<lparr>rd_bootstrap_responses := rd_bootstrap_responses result1 + 1\<rparr>
            else result1\<lparr>rd_gameplay_responses := rd_gameplay_responses result1 + 1,
              rd_gameplay_round_trip_times := rd_gameplay_round_trip_times result1 @ [round_trip_time]\<rparr>);
          battle_start_rejected = (or_request_type request = MtBattleStart \<and>
            frame_payload response ! 0 = room_status_code RuntimeOverloaded);
          result3 = (if battle_start_rejected
            then result2\<lparr>rd_battle_start_rejections := rd_battle_start_rejections result2 + 1\<rparr> else result2)
      in (result3, completeRequest (c\<lparr>cl_outstanding := None\<rparr>) (or_request_type request) battle_start_rejected))"

fun process_frames :: "client \<Rightarrow> frame list \<Rightarrow> time_point list \<Rightarrow> read_result \<Rightarrow> client_error option \<times> read_result \<times> client" where
  "process_frames c (response # rest) (received_at # readings) result =
     (if frame_request_id response = UNSOLICITED_REQUEST_ID then
        case recordUnsolicitedFrame c response received_at result of
          (Some e, result', c') \<Rightarrow> (Some e, result', c')
        | (None, result', c') \<Rightarrow> process_frames c' rest readings result'
      else case validateResponse c response of
          Some e \<Rightarrow> (Some e, result, c)
        | None \<Rightarrow> (case cl_outstanding c of
            None \<Rightarrow> (None, result, c)
          | Some request \<Rightarrow> (case accept_response c request response received_at result of
              (result', c') \<Rightarrow> process_frames c' rest readings result')))"
| "process_frames c _ _ result = (None, result, c)"

datatype recv_outcome = Received bytes "time_point list" | RecvEof | RecvInterrupted | RecvWouldBlock | RecvFailed int

text \<open>
  The receive loop on the outcomes of the successive calls; a received chunk carries the clock readings
  of the frames it completes.
\<close>

fun read_loop :: "client \<Rightarrow> recv_outcome list \<Rightarrow> read_result \<Rightarrow> read_result \<times> client" where
  "read_loop c (Received bytes readings # rest) result =
     (case decoder_append (cl_decoder c) bytes of (decoded, d) \<Rightarrow>
        let c1 = c\<lparr>cl_decoder := d\<rparr>
        in if dr_error decoded \<noteq> None
           then (result\<lparr>rd_error := Some (ProtocolError ''Protocol error while decoding response'')\<rparr>, c1)
           else case process_frames c1 (dr_frames decoded) readings result of
             (Some e, result', c2) \<Rightarrow> (result'\<lparr>rd_error := Some e\<rparr>, c2)
           | (None, result', c2) \<Rightarrow> read_loop c2 rest result')"
| "read_loop c (RecvEof # rest) result = (result\<lparr>rd_error := Some (SocketError ''recv'' 104)\<rparr>, c)"
| "read_loop c (RecvInterrupted # rest) result = read_loop c rest result"
| "read_loop c (RecvWouldBlock # rest) result = (result, c)"
| "read_loop c (RecvFailed e # rest) result = (result\<lparr>rd_error := Some (SocketError ''recv'' e)\<rparr>, c)"
| "read_loop c [] result = (result, c)"

definition handleReadable :: "client \<Rightarrow> recv_outcome list \<Rightarrow> read_result \<times> client" where
  "handleReadable c outcomes = read_loop c outcomes no_reads"

section \<open>The client's requests at the server\<close>

text \<open>What a request asks for, and what the server's decoders make of a frame.\<close>

datatype request_meaning =
  MeansPing bytes | MeansAuthenticate player_id | MeansZone zone_request | MeansRoom room_request

definition server_reads :: "frame \<Rightarrow> request_meaning option" where
  "server_reads f =
     (if frame_type f = message_code MtPing then Some (MeansPing (frame_payload f))
      else if frame_type f = message_code MtAuthenticate then map_option MeansAuthenticate (decodePlayerId (frame_payload f))
      else if frame_type f = message_code MtEnterZone then map_option MeansZone (decodeEnterZone (frame_payload f))
      else if frame_type f = message_code MtMove then map_option MeansZone (decodeMove (frame_payload f))
      else if frame_type f = message_code MtRoomJoin then map_option MeansRoom (decodeRoomJoin (frame_payload f))
      else if frame_type f = message_code MtBattleStart then map_option MeansRoom (decodeBattleStart (frame_payload f))
      else if frame_type f = message_code MtUseSkill then map_option MeansRoom (decodeUseSkill (frame_payload f))
      else if frame_type f = message_code MtSetMoveIntent then map_option MeansRoom (decodeSetMoveIntent (frame_payload f))
      else None)"

definition client_means :: "client \<Rightarrow> time_point \<Rightarrow> request_meaning option" where
  "client_means c started_at =
     (let w = cl_workload c in
      case cl_stage c of
        StagePing \<Rightarrow> Some (MeansPing (append_u64 (word_of_int started_at)))
      | StageAuthenticate \<Rightarrow> Some (MeansAuthenticate (wl_player_id w))
      | StageEnterZone \<Rightarrow> Some (MeansZone (EnterZoneRequest (wl_zone_id w) \<lparr>zpos_x = 0, zpos_y = 0\<rparr>))
      | StageMove \<Rightarrow> Some (MeansZone (MoveRequest
          \<lparr>zpos_x = ucast ((cl_move_sequence c + 1) mod POSITION_SPAN) - 1000,
           zpos_y = ucast (((cl_move_sequence c + 1) * 17) mod POSITION_SPAN) - 1000\<rparr>))
      | StageRoomJoin \<Rightarrow> Some (MeansRoom (RoomJoinRequest (wl_room_id w)))
      | StageBattleStart \<Rightarrow> Some (MeansRoom (BattleStartRequest (wl_room_id w)))
      | StageBattleAction \<Rightarrow> Some (MeansRoom
          (if cl_next_action_is_skill c then UseSkillRequest (wl_room_id w) SLASH_SKILL_ID (cl_skill_sequence c + 1)
           else SetMoveIntentRequest (wl_room_id w) (move_direction_of (ucast (cl_move_sequence c mod 8 + 1)))
                  (cl_move_sequence c + 1)))
      | _ \<Rightarrow> None)"

lemma decode_second:
  "decodeBigEndian (append_u64 v @ append_u32 w @ ys) 8 4 = w"
  "decodeBigEndian (append_u64 v @ append_u32 w @ append_u32 u) 12 4 = u"
  "decodeBigEndian (append_u64 v @ append_u32 w @ append_u64 x) 12 8 = x"
  "decodeBigEndian (append_u32 w @ append_u32 u) 4 4 = u"
  "decodeBigEndian (append_u64 v @ b # append_u64 x) 9 8 = x"
  using decode_u32_at [of "append_u64 v" 8 w ys] decode_u32_at [of "append_u64 v @ append_u32 w" 12 u "[]"]
    decode_u64_at [of "append_u64 v @ append_u32 w" 12 x "[]"] decode_u32_at [of "append_u32 w" 4 u "[]"]
    decode_u64_at [of "append_u64 v @ [b]" 9 x "[]"]
  by simp_all

lemma move_byte_valid:
  fixes v :: u64
  shows "isValidMoveDirection (ucast (v mod 8 + 1))"
proof -
  have "unat (v mod 8) < 8" by (simp add: unat_mod)
  then have "unat (v mod 8 + 1) \<le> 8" by (simp add: unat_word_ariths)
  then have "unat (ucast (v mod 8 + 1) :: u8) \<le> 8"
    by (simp add: unsigned_ucast_eq take_bit_nat_eq_self)
  then show ?thesis by (simp add: isValidMoveDirection_def word_le_nat_alt)
qed

lemma timestamp_is_u64: "encode_timestamp v = append_u64 v"
  by (simp add: encode_timestamp_def append_u64_def append_big_endian_def upt_conv_Cons eval_nat_numeral)

lemma plan_frame_encodes:
  "plan_request c t = Some plan \<Longrightarrow> \<exists>bs. encode_frame (plan_frame plan i) = Inr bs"
  by (auto simp: plan_request_def plan_frame_def Let_def encode_frame_def is_known_message_type_def
      timestamp_is_u64 MAX_PAYLOAD_SIZE_nat split: workload_stage.splits if_splits)

lemma plan_meaning:
  assumes "plan_request c t = Some plan"
    and "cl_stage c = StageAuthenticate \<longrightarrow> wl_player_id (cl_workload c) \<noteq> 0"
    and "cl_skill_sequence c + 1 \<noteq> 0" and "cl_move_sequence c + 1 \<noteq> 0"
  shows "server_reads (plan_frame plan i) = client_means c t"
  using assms move_byte_valid [of "cl_move_sequence c"]
  by (cases "cl_stage c")
    (auto simp: plan_request_def plan_frame_def server_reads_def client_means_def Let_def timestamp_is_u64
      decodePlayerId_def fold_player_id decodeEnterZone_def decodeMove_def decodeRoomJoin_def decodeBattleStart_def
      decodeUseSkill_def decodeSetMoveIntent_def decode_second SLASH_SKILL_ID_def nth_append split: if_splits)

text \<open>
  C36: The server understands the client: whenever the client may start a request, what it queues for
  sending is one frame with its request identifier, and the server's decoders read from that frame
  exactly the request the client's stage calls for, with the next sequence numbers; as long as the
  64-bit sequence counters have not wrapped to zero, which the server reserves.
\<close>

theorem client_requests_understood:
  assumes "canStartRequest c" and "cl_stage c = StageAuthenticate \<longrightarrow> wl_player_id (cl_workload c) \<noteq> 0"
    and "cl_skill_sequence c + 1 \<noteq> 0" and "cl_move_sequence c + 1 \<noteq> 0"
  shows "\<exists>c' f request. enqueueNextRequest c started_at timeout = Inr c' \<and> encode_frame f = Inr (cl_pending_send_bytes c') \<and>
     cl_outstanding c' = Some request \<and> frame_request_id f = or_request_id request \<and>
     client_means c started_at \<noteq> None \<and> server_reads f = client_means c started_at"
proof -
  have stage: "cl_stage c \<noteq> StageAwaitBattleStart" "cl_stage c \<noteq> StageComplete"
    using assms(1) by (simp_all add: canStartRequest_def)
  then obtain plan where plan: "plan_request c started_at = Some plan"
    by (cases "cl_stage c"; cases "cl_next_action_is_skill c") (auto simp: plan_request_def Let_def)
  obtain bs where bs: "encode_frame (plan_frame plan (cl_next_request_id c)) = Inr bs"
    using plan_frame_encodes [OF plan] by blast
  have "client_means c started_at \<noteq> None"
    using stage by (cases "cl_stage c") (auto simp: client_means_def Let_def)
  with plan bs assms(1) plan_meaning [OF plan assms(2-4)] show ?thesis
    by (auto simp: enqueueNextRequest_def Let_def plan_frame_def)
qed

section \<open>The server's replies at the client\<close>

lemma decode_zone_header:
  fixes rest :: bytes
  shows "decodeBigEndian (b # append_u64 z @ append_u64 e @ append_u32 x @ append_u32 y @ append_u16 n @ rest) 1 8 = z"
    "decodeBigEndian (b # append_u64 z @ append_u64 e @ append_u32 x @ append_u32 y @ append_u16 n @ rest) 9 8 = e"
    "decodeBigEndian (b # append_u64 z @ append_u64 e @ append_u32 x @ append_u32 y @ append_u16 n @ rest) 17 4 = x"
    "decodeBigEndian (b # append_u64 z @ append_u64 e @ append_u32 x @ append_u32 y @ append_u16 n @ rest) 21 4 = y"
    "decodeBigEndian (b # append_u64 z @ append_u64 e @ append_u32 x @ append_u32 y @ append_u16 n @ rest) 25 2 = n"
  using decode_u64_at [of "[b]" 1 z "append_u64 e @ append_u32 x @ append_u32 y @ append_u16 n @ rest"]
    decode_u64_at [of "b # append_u64 z" 9 e "append_u32 x @ append_u32 y @ append_u16 n @ rest"]
    decode_u32_at [of "b # append_u64 z @ append_u64 e" 17 x "append_u32 y @ append_u16 n @ rest"]
    decode_u32_at [of "b # append_u64 z @ append_u64 e @ append_u32 x" 21 y "append_u16 n @ rest"]
    decode_u16_at [of "b # append_u64 z @ append_u64 e @ append_u32 x @ append_u32 y" 25 n rest]
  by simp_all

lemma length_players: "length (concat (map append_u64 ps)) = length ps * 8"
  by (induction ps) simp_all

lemma decode_players:
  assumes "length header = k"
  shows "map (\<lambda>index. decodeBigEndian (header @ concat (map append_u64 ps)) (k + index * 8) 8) [0 ..< length ps] = ps"
proof (rule nth_equalityI)
  fix i assume "i < length (map (\<lambda>index. decodeBigEndian (header @ concat (map append_u64 ps)) (k + index * 8) 8) [0 ..< length ps])"
  then have i: "i < length ps" by simp
  have "concat (map append_u64 ps) =
      concat (map append_u64 (take i ps)) @ append_u64 (ps ! i) @ concat (map append_u64 (drop (Suc i) ps))"
    using id_take_nth_drop [OF i] by (metis concat.simps(2) concat_append list.simps(9) map_append)
  then show "map (\<lambda>index. decodeBigEndian (header @ concat (map append_u64 ps)) (k + index * 8) 8) [0 ..< length ps] ! i = ps ! i"
    using i assms decode_u64_at [of "header @ concat (map append_u64 (take i ps))" "k + i * 8" "ps ! i"
        "concat (map append_u64 (drop (Suc i) ps))"] by (simp add: length_players)
qed simp

lemma sorted_peers_iff:
  "sorted_peers self previous ps \<longleftrightarrow> sorted_wrt (<) (previous # ps) \<and> 0 \<notin> set ps \<and> self \<notin> set ps"
  by (induction ps arbitrary: previous) auto

lemma zone_reply_valid:
  assumes "zr_status result = ZApplied" and "zr_route_epoch result \<noteq> 0" and "zone = wl_zone_id (cl_workload c)"
    and "or_request_type request = MtMove \<longrightarrow>
       zr_position result = Some \<lparr>zpos_x = or_expected_x request, zpos_y = or_expected_y request\<rparr>"
    and "sorted_wrt (<) (zr_visible_players result)" and "0 \<notin> set (zr_visible_players result)"
    and "wl_player_id (cl_workload c) \<notin> set (zr_visible_players result)"
  shows "validate_zone c request (frame_payload (encodeZoneReply kind zone result i)) = None"
proof -
  define n where "n = min (length (zr_visible_players result)) (min 65535 MAX_VISIBLE_BY_PAYLOAD)"
  define ps where "ps = take n (zr_visible_players result)"
  have n: "length ps = n" "n \<le> 65535" by (simp_all add: ps_def n_def)
  then have unat_n: "unat (of_nat n :: u16) = n" by (simp add: unat_of_nat take_bit_nat_eq_self)
  have fixed: "FIXED_PAYLOAD_SIZE = 27" by (simp add: FIXED_PAYLOAD_SIZE_def)
  let ?x = "case zr_position result of Some p \<Rightarrow> zpos_x p | None \<Rightarrow> 0"
  let ?y = "case zr_position result of Some p \<Rightarrow> zpos_y p | None \<Rightarrow> 0"
  let ?header = "0 # append_u64 zone @ append_u64 (zr_route_epoch result) @ append_u32 ?x @ append_u32 ?y @ append_u16 (of_nat n)"
  have payload: "frame_payload (encodeZoneReply kind zone result i) = ?header @ concat (map append_u64 ps)"
    using assms(1) by (simp add: encodeZoneReply_def Let_def n_def [symmetric] ps_def)
  have peers: "map (\<lambda>index. decodeBigEndian (?header @ concat (map append_u64 ps)) (27 + index * 8) 8) [0 ..< n] = ps"
    using decode_players [of ?header 27 ps] n(1) by simp
  have "sorted_wrt (<) ps" "0 \<notin> set ps" "wl_player_id (cl_workload c) \<notin> set ps"
    using assms(5-7) sorted_wrt_take by (auto simp: ps_def dest: in_set_takeD)
  then have good: "sorted_peers (wl_player_id (cl_workload c)) 0 ps"
    by (auto simp: sorted_peers_iff word_gt_0 intro: ccontr)
  show ?thesis
    unfolding validate_zone_def payload fixed Let_def
    using assms(2-4) n unat_n good peers
    by (auto simp: decode_zone_header length_players simp del: One_nat_def)
qed


text \<open>
  C37: A client that has moved is satisfied with the answer of the zone: when a zone that has run any
  commands applies the client's move, the reply as the server encodes it has the echoed position, the
  route epoch and a strictly ascending list of peers without the client, and passes the client's
  validation.
\<close>

theorem zone_replies_accepted:
  assumes "make_zone (wl_zone_id (cl_workload c)) zconfig = Inr z0" and "z = snd (run zone_handle z0 cs)"
    and "cl_outstanding c = Some request" and "or_request_type request = MtMove" and "or_request_id request = i"
    and "handleMove z (wl_player_id (cl_workload c)) epoch
       \<lparr>zpos_x = or_expected_x request, zpos_y = or_expected_y request\<rparr> = (result, z')"
    and "zr_status result = ZApplied" and "epoch \<noteq> 0" and "map_of (players z) 0 = None"
  shows "validateResponse c (encodeZoneReply ReplyMoved (wl_zone_id (cl_workload c)) result i) = None"
proof -
  let ?me = "wl_player_id (cl_workload c)" and ?at = "\<lparr>zpos_x = or_expected_x request, zpos_y = or_expected_y request\<rparr>"
  have z': "z' = snd (run zone_handle z0 (cs @ [MoveInZoneCommand ?me epoch ?at]))"
    using assms(2,6) by (simp add: run_append run.simps split: prod.split)
  have inv: "zone_inv z'" unfolding z' by (rule zone_run_inv [OF assms(1)])
  have result: "zr_route_epoch result = epoch" "zr_position result = Some ?at"
      "zr_visible_players result = visiblePlayers z' ?me" "map_of (players z') 0 = None"
    using assms(6,7,9)
    by (auto simp: handleMove_def zone_reply_def present_reply_def Let_def update_conv' split: option.splits if_splits)
  have "sorted_wrt (<) (zr_visible_players result)"
    using distinct_visiblePlayers [OF inv] result(3) by (simp add: strict_sorted_iff)
  moreover have "0 \<notin> set (zr_visible_players result)" "?me \<notin> set (zr_visible_players result)"
    using set_visiblePlayers [OF inv] result(3,4) by (auto simp: zone_positionOf_def)
  ultimately have "validate_zone c request (frame_payload (encodeZoneReply ReplyMoved (wl_zone_id (cl_workload c)) result i)) = None"
    using assms(7,8) result(1,2) by (intro zone_reply_valid) simp_all
  then show ?thesis
    using assms(3-5) by (simp add: validateResponse_def encodeZoneReply_def Let_def)
qed

text \<open>
  C38: The acknowledgements of skill and movement requests are accepted by the client exactly when their
  status is not \<open>SkillNotEquipped\<close>: the client's bound on the status byte is the code of the
  last-but-one status, so this one answer of the server ends the client's connection as a protocol
  error.
\<close>

theorem acknowledgement_accepted_iff:
  assumes "cl_outstanding c = Some request" and "or_request_id request = i"
    and "(or_request_type request, kind) \<in> {(MtUseSkill, ReplySkillAcknowledged), (MtSetMoveIntent, ReplyMoveAcknowledged)}"
  shows "validateResponse c (encodeRoomReply kind room result i) = None \<longleftrightarrow> rr_status result \<noteq> SkillNotEquipped"
proof -
  have "\<not> room_phase_code (rr_phase result) > room_phase_code Failed" by (cases "rr_phase result") simp_all
  moreover have "room_status_code (rr_status result) > room_status_code ProjectileCapacityExceeded \<longleftrightarrow>
      rr_status result = SkillNotEquipped"
    by (cases "rr_status result") simp_all
  ultimately show ?thesis
    using assms by (auto simp: validateResponse_def encodeRoomReply_def validate_acknowledgement_def)
qed

text \<open>Digest frames numbered on from the last one the client has seen are all recorded.\<close>

lemma digest_frames_followed:
  assumes "length fs \<le> length readings"
    and "\<forall>f \<in> set fs. frame_request_id f = UNSOLICITED_REQUEST_ID \<and> frame_type f = message_code MtBattleDigest \<and>
       DIGEST_HEADER_SIZE \<le> length (frame_payload f)"
    and "map (\<lambda>f. decodeBigEndian (frame_payload f) 0 8) fs = map (\<lambda>k. start + of_nat k) [1 ..< Suc (length fs)]"
    and "\<forall>k \<in> {1 .. length fs}. start + of_nat k \<noteq> (0 :: u64)"
    and "cl_last_digest_sequence c \<in> {None, Some start}"
  shows "case process_frames c fs readings result of (e, result', c') \<Rightarrow>
     e = None \<and> rd_battle_digest_frames result' = rd_battle_digest_frames result + length fs \<and>
     (fs \<noteq> [] \<longrightarrow> cl_last_digest_sequence c' = Some (start + of_nat (length fs)))"
  using assms
proof (induction fs arbitrary: c readings start result)
  case (Cons f fs)
  obtain t ts where readings: "readings = t # ts" using Cons.prems(1) by (cases readings) auto
  have head: "decodeBigEndian (frame_payload f) 0 8 = start + 1"
    and rest: "map (\<lambda>f. decodeBigEndian (frame_payload f) 0 8) fs = map (\<lambda>k. start + 1 + of_nat k) [1 ..< Suc (length fs)]"
  proof -
    have "map (\<lambda>k. start + of_nat k) [1 ..< Suc (length (f # fs))] =
        (start + 1) # map (\<lambda>k. start + 1 + of_nat k) [1 ..< Suc (length fs)]"
      by (simp add: upt_conv_Cons map_Suc_upt [symmetric] o_def add.assoc del: upt_Suc)
    then show "decodeBigEndian (frame_payload f) 0 8 = start + 1"
      "map (\<lambda>f. decodeBigEndian (frame_payload f) 0 8) fs = map (\<lambda>k. start + 1 + of_nat k) [1 ..< Suc (length fs)]"
      using Cons.prems(3) by auto
  qed
  have nonzero: "start + 1 \<noteq> 0" using Cons.prems(4) [rule_format, of 1] by simp
  have later: "\<forall>k \<in> {1 .. length fs}. start + 1 + of_nat k \<noteq> (0 :: u64)"
  proof
    fix k assume "k \<in> {1 .. length fs}"
    then show "start + 1 + of_nat k \<noteq> (0 :: u64)" using Cons.prems(4) [rule_format, of "Suc k"] by (simp add: add.assoc)
  qed
  obtain result1 c1 where step: "recordUnsolicitedFrame c f t result = (None, result1, c1)"
      "rd_battle_digest_frames result1 = rd_battle_digest_frames result + 1" "cl_last_digest_sequence c1 = Some (start + 1)"
    using Cons.prems(2,5) head nonzero
    by (auto simp: recordUnsolicitedFrame_def record_digest_def Let_def split: option.splits)
  have "case process_frames c1 fs ts result1 of (e, result', c') \<Rightarrow>
     e = None \<and> rd_battle_digest_frames result' = rd_battle_digest_frames result1 + length fs \<and>
     (fs \<noteq> [] \<longrightarrow> cl_last_digest_sequence c' = Some (start + 1 + of_nat (length fs)))"
    using Cons.prems(1,2) readings step(3) rest later by (intro Cons.IH) auto
  moreover have "cl_last_digest_sequence (snd (snd (process_frames c1 [] ts result1))) = Some (start + 1)"
    using step(3) by simp
  ultimately show ?case
    using Cons.prems(2) readings step by (cases "fs = []") (auto simp: ac_simps)
qed simp


section \<open>Witnesses\<close>

text \<open>A client of a battle that has joined its room, and the same client with a request under way.\<close>

definition fighter :: client where
  "fighter = (projr (ClientConnection \<lparr>wl_scenario = ScenarioBattle, wl_player_id = 7, wl_zone_id = 1, wl_room_id = 3,
     wl_starts_battle = True\<rparr> 0 1000 True))\<lparr>cl_stage := StageBattleAction\<rparr>"

definition fighting :: client where
  "fighting = projr (enqueueNextRequest fighter 5 2000)"

definition walker :: client where
  "walker = projr (enqueueNextRequest (fighter\<lparr>cl_workload := \<lparr>wl_scenario = ScenarioZone, wl_player_id = 4, wl_zone_id = 1,
     wl_room_id = 0, wl_starts_battle = False\<rparr>, cl_stage := StageMove\<rparr>) 5 2000)"

theorem client_requests_understood_witness:
  "canStartRequest fighter \<and> client_means fighter 5 = Some (MeansRoom (UseSkillRequest 3 1 1)) \<and>
   (\<exists>c' f request. enqueueNextRequest fighter 5 2000 = Inr c' \<and> encode_frame f = Inr (cl_pending_send_bytes c') \<and>
     cl_outstanding c' = Some request \<and> frame_request_id f = or_request_id request \<and>
     client_means fighter 5 \<noteq> None \<and> server_reads f = client_means fighter 5)"
proof -
  have "canStartRequest fighter" "cl_stage fighter = StageBattleAction" "cl_skill_sequence fighter + 1 \<noteq> 0"
    "cl_move_sequence fighter + 1 \<noteq> 0" "client_means fighter 5 = Some (MeansRoom (UseSkillRequest 3 1 1))"
    by code_simp+
  then show ?thesis using client_requests_understood [of fighter 5 2000] by simp
qed

lemma walker_request:
  "cl_outstanding walker = Some \<lparr>or_request_id = 1, or_request_type = MtMove, or_payload = append_u32 (- 999) @ append_u32 (- 983),
     or_expected_x = - 999, or_expected_y = - 983, or_bootstrap = False, or_started_at = 5, or_deadline = after_ms 5 2000\<rparr>"
  "wl_zone_id (cl_workload walker) = 1" "wl_player_id (cl_workload walker) = 4"
  by (simp_all add: walker_def fighter_def ClientConnection_def enqueueNextRequest_def canStartRequest_def plan_request_def
      plan_frame_def Let_def POSITION_SPAN_def encode_frame_def is_known_message_type_def MAX_PAYLOAD_SIZE_nat)

lemma fighting_request:
  "cl_outstanding fighting = Some \<lparr>or_request_id = 1, or_request_type = MtUseSkill,
     or_payload = append_u64 3 @ append_u32 SLASH_SKILL_ID @ append_u64 1, or_expected_x = 0, or_expected_y = 0,
     or_bootstrap = False, or_started_at = 5, or_deadline = after_ms 5 2000\<rparr>"
  by (simp_all add: fighting_def fighter_def ClientConnection_def enqueueNextRequest_def canStartRequest_def plan_request_def
      plan_frame_def Let_def encode_frame_def is_known_message_type_def MAX_PAYLOAD_SIZE_nat)

theorem zone_replies_accepted_witness:
  "case cl_outstanding walker of None \<Rightarrow> False | Some request \<Rightarrow>
   (let z = snd (run zone_handle plaza plaza_commands);
        result = fst (handleMove z 4 1 \<lparr>zpos_x = or_expected_x request, zpos_y = or_expected_y request\<rparr>)
    in or_request_type request = MtMove \<and> zr_status result = ZApplied \<and> map_of (players z) 0 = None \<and>
       validateResponse walker (encodeZoneReply ReplyMoved 1 result (or_request_id request)) = None)"
proof -
  let ?z = "snd (run zone_handle plaza plaza_commands)"
  obtain result z' where result: "handleMove ?z 4 1 \<lparr>zpos_x = - 999, zpos_y = - 983\<rparr> = (result, z')" by fastforce
  have "zr_status (fst (handleMove ?z 4 1 \<lparr>zpos_x = - 999, zpos_y = - 983\<rparr>)) = ZApplied" by code_simp
  then have applied: "zr_status result = ZApplied" using result by simp
  have zero: "map_of (players ?z) 0 = None" by code_simp
  show ?thesis
    using zone_replies_accepted [of walker default_zone_config plaza ?z plaza_commands _ 1 1 result z']
      walker_request plaza_made result applied zero by simp
qed

theorem acknowledgement_accepted_iff_witness:
  "let result = \<lparr>rr_status = SkillNotEquipped, rr_phase = Running, rr_player = None, rr_deadline_after = None,
         rr_tick_after = None, rr_boss_health = 0, rr_boss_spawned = False, rr_digest = None, rr_outcome = None,
         rr_failure_reason = None, rr_audience = [], rr_grants = []\<rparr>
   in validateResponse fighting (encodeRoomReply ReplySkillAcknowledged 3 result 1) \<noteq> None \<and>
      validateResponse fighting (encodeRoomReply ReplySkillAcknowledged 3 (result\<lparr>rr_status := Applied\<rparr>) 1) = None"
  using acknowledgement_accepted_iff [OF fighting_request, of 1 ReplySkillAcknowledged 3] by (simp add: Let_def)

end
