(* ===== verification/Messages.thy ===== *)
theory Messages
  imports Wire Connection
begin

text \<open>
  The messages between the actors of the game, \<^verbatim>\<open>include/snf/adapter/game_payloads.hpp\<close>: one
  constructor per payload struct, in the order of their tags, and the results of handing one over,
  \<^verbatim>\<open>include/snf/worker/actor.hpp\<close>.
\<close>

datatype workflow_step =
  StepNone | ZoneEnter | ZoneMove | ZoneLeave | RoomJoinStep1_JoinRoom | RoomJoinStep2_LeaveZone
| RoomReturnStep1_ZoneEnter | RoomTerminalNotification | CrossZoneLeaveSource | CrossZoneEnterTarget
| CrossZoneRestoreSource | CleanupZone | CleanupRoom

record room_membership =
  rm_incarnation :: actor_incarnation
  rm_sequence :: u64

record workflow_reply_to =
  rt_player :: player_id
  rt_connection_generation :: connection_generation
  rt_correlation_id :: u64
  rt_step :: workflow_step
  rt_route_epoch :: u64
  rt_request_id :: u32

record zone_outcome =
  zo_player :: player_id
  zo_connection_generation :: connection_generation
  zo_correlation_id :: u64
  zo_step :: workflow_step
  zo_zone :: zone_id
  zo_route_epoch :: u64
  zo_request_id :: u32
  zo_result :: zone_result

record room_outcome =
  ro_player :: player_id
  ro_connection_generation :: connection_generation
  ro_correlation_id :: u64
  ro_step :: workflow_step
  ro_room :: room_id
  ro_request_id :: u32
  ro_result :: room_result
  ro_membership :: "room_membership option"

datatype game_message =
  PlayerCommandMessage "connection_ref option" u32 player_command
| ExperienceGrantMessage street_experience_grant
| ZoneCommandMessage "connection_ref option" u32 zone_command "workflow_reply_to option"
| ZoneTickMessage u64
| RoomCommandMessage "connection_ref option" u32 room_command "workflow_reply_to option" "room_membership option"
| RoomDeadlineMessage room_id u64
| RoomTickMessage room_id u64
| PingMessage connection_ref u32 bytes
| PlayerSaveMessage player_id
| PlayerConnectionClosedMessage connection_ref
| PlayerZoneRequestMessage connection_ref u32 zone_request
| ZoneOutcomeMessage zone_outcome
| RoomOutcomeMessage room_outcome
| PlayerWorkflowTimeoutMessage u64 workflow_step
| PlayerRoomRequestMessage connection_ref u32 room_request

primrec payload_tag :: "game_message \<Rightarrow> u32" where
  "payload_tag (PlayerCommandMessage c i cmd) = 1"
| "payload_tag (ExperienceGrantMessage g) = 2"
| "payload_tag (ZoneCommandMessage c i cmd r) = 3"
| "payload_tag (ZoneTickMessage t) = 4"
| "payload_tag (RoomCommandMessage c i cmd r m) = 5"
| "payload_tag (RoomDeadlineMessage r s) = 6"
| "payload_tag (RoomTickMessage r t) = 7"
| "payload_tag (PingMessage c i p) = 8"
| "payload_tag (PlayerSaveMessage p) = 9"
| "payload_tag (PlayerConnectionClosedMessage c) = 10"
| "payload_tag (PlayerZoneRequestMessage c i r) = 11"
| "payload_tag (ZoneOutcomeMessage z) = 12"
| "payload_tag (RoomOutcomeMessage r) = 13"
| "payload_tag (PlayerWorkflowTimeoutMessage i s) = 14"
| "payload_tag (PlayerRoomRequestMessage c i r) = 15"

definition logicalCharge :: "u64 \<Rightarrow> u64 \<Rightarrow> u64" where
  "logicalCharge fixed dynamic = (if dynamic > UINT64_MAX - fixed then UINT64_MAX else fixed + dynamic)"

text \<open>
  The charge of a message. The sizes of the structs and the capacities of the vectors a message owns are
  up to the compiler and its library: they are parameters.
\<close>

record payload_sizes =
  ps_message :: "u32 \<Rightarrow> u64"
  ps_player_id :: u64
  ps_grant :: u64
  ps_event :: u64

record vector_capacities =
  vc_payload :: u64
  vc_visible_players :: u64
  vc_audience :: u64
  vc_grants :: u64
  vc_events :: u64

definition calculateCharge :: "payload_sizes \<Rightarrow> vector_capacities \<Rightarrow> game_message \<Rightarrow> u64" where
  "calculateCharge sizes v m =
     (let fixed = ps_message sizes (payload_tag m) in
      case m of
        PlayerCommandMessage _ _ (PingCommand _) \<Rightarrow> logicalCharge fixed (vc_payload v)
      | PingMessage _ _ _ \<Rightarrow> logicalCharge fixed (vc_payload v)
      | ZoneOutcomeMessage _ \<Rightarrow> logicalCharge fixed (vc_visible_players v * ps_player_id sizes)
      | RoomOutcomeMessage outcome \<Rightarrow>
          let digest_bytes = (if rr_digest (ro_result outcome) \<noteq> None then vc_events v * ps_event sizes else 0)
          in logicalCharge fixed (vc_audience v * ps_player_id sizes + vc_grants v * ps_grant sizes + digest_bytes)
      | _ \<Rightarrow> fixed)"

datatype delivery_result =
  DeliveryAccepted | WrongOwner | ActorTableFull | MailboxFull | ConstructionRejected | DeliveryStopping
| DeliveryClosed | ActivationLimit | RemoteInboxFull

definition playerKey :: "player_id \<Rightarrow> actor_key" where
  "playerKey player = \<lparr>ak_kind = KindPlayer, ak_entity = player\<rparr>"

lemma playerKey_inject [simp]: "playerKey p = playerKey q \<longleftrightarrow> p = q"
  by (simp add: playerKey_def)

text \<open>The charge of a message saturates instead of wrapping.\<close>

lemma unat_logicalCharge: "unat (logicalCharge fixed dynamic) = min (unat UINT64_MAX) (unat fixed + unat dynamic)"
proof -
  have "fixed \<le> UINT64_MAX" using unat_u64_lt [of fixed] by (simp add: word_le_nat_alt unat_u64_max)
  then have "unat (UINT64_MAX - fixed) = unat UINT64_MAX - unat fixed" by (rule unat_sub_le)
  then show ?thesis
    using unat_u64_lt [of fixed] unat_u64_lt [of dynamic]
    by (auto simp: logicalCharge_def word_less_nat_alt unat_u64_max unat_add_small min_def)
qed

text \<open>A message never charges less than its struct, whatever it owns.\<close>

lemma charge_covers_struct: "ps_message sizes (payload_tag m) \<le> calculateCharge sizes v m"
proof -
  have "fixed \<le> logicalCharge fixed dynamic" for fixed dynamic
    using unat_u64_lt [of fixed] by (simp add: word_le_nat_alt unat_logicalCharge unat_u64_max)
  then show ?thesis
    by (cases m) (auto simp: calculateCharge_def Let_def split: player_command.split)
qed

end
