(* ===== verification/Std_Heap.thy ===== *)
theory Std_Heap
  imports SnF_Prelude "HOL-Library.Multiset"
begin

text \<open>
  The heap algorithms of the C++ standard library that \<^verbatim>\<open>include/snf/worker/timer_queue.hpp\<close> calls with
  the comparison "greater deadline": \<open>push_heap\<close>, \<open>pop_heap\<close> and \<open>make_heap\<close> on a vector in which
  element \<open>i\<close> has the children \<open>2 * i + 1\<close> and \<open>2 * i + 2\<close>. They are the usual binary sifts; the
  locale \<open>heap_algorithms\<close> holds what the standard promises of them, and the timer queue's lemmas use
  only its facts.
\<close>

section \<open>The algorithms\<close>

definition swap_at :: "nat \<Rightarrow> nat \<Rightarrow> 'a list \<Rightarrow> 'a list" where
  "swap_at i j xs = xs[i := xs ! j, j := xs ! i]"

fun sift_up :: "('a \<Rightarrow> int) \<Rightarrow> nat \<Rightarrow> 'a list \<Rightarrow> 'a list" where
  "sift_up key i xs =
     (if i = 0 then xs
      else let p = (i - 1) div 2
           in if key (xs ! i) < key (xs ! p) then sift_up key p (swap_at i p xs) else xs)"

declare sift_up.simps [simp del]

function sift_down :: "('a \<Rightarrow> int) \<Rightarrow> nat \<Rightarrow> nat \<Rightarrow> 'a list \<Rightarrow> 'a list" where
  "sift_down key n i xs =
     (let l = 2 * i + 1; r = 2 * i + 2;
          c = (if r < n \<and> key (xs ! r) < key (xs ! l) then r else l)
      in if l < n \<and> key (xs ! c) < key (xs ! i) then sift_down key n c (swap_at i c xs) else xs)"
  by pat_completeness auto

termination
  by (relation "measure (\<lambda>(key, n, i, xs). n - i)") auto

declare sift_down.simps [simp del]

definition push_heap :: "('a \<Rightarrow> int) \<Rightarrow> 'a list \<Rightarrow> 'a list" where
  "push_heap key xs = sift_up key (length xs - 1) xs"

definition pop_heap :: "('a \<Rightarrow> int) \<Rightarrow> 'a list \<Rightarrow> 'a list" where
  "pop_heap key xs =
     (if length xs \<le> 1 then xs
      else let n = length xs - 1 in sift_down key n 0 (swap_at 0 n xs))"

definition make_heap :: "('a \<Rightarrow> int) \<Rightarrow> 'a list \<Rightarrow> 'a list" where
  "make_heap key xs = fold (\<lambda>i. sift_down key (length xs) i) (rev [0 ..< length xs div 2]) xs"

section \<open>What the standard promises\<close>

locale heap_algorithms =
  fixes key :: "'a \<Rightarrow> int"
    and heap :: "'a list \<Rightarrow> bool"
    and push pop make :: "'a list \<Rightarrow> 'a list"
  assumes heap_Nil: "heap []"
    and heap_front: "heap xs \<Longrightarrow> x \<in> set xs \<Longrightarrow> key (hd xs) \<le> key x"
    and push_heap: "heap xs \<Longrightarrow> heap (push (xs @ [x]))"
    and push_mset: "mset (push xs) = mset xs"
    and pop_heap: "heap xs \<Longrightarrow> heap (butlast (pop xs))"
    and pop_last: "xs \<noteq> [] \<Longrightarrow> last (pop xs) = hd xs"
    and pop_mset: "mset (pop xs) = mset xs"
    and make_heap: "heap (make xs)"
    and make_mset: "mset (make xs) = mset xs"
begin

lemma push_set: "set (push xs) = set xs"
  using push_mset [of xs] by (metis set_mset_mset)

lemma push_length: "length (push xs) = length xs"
  using push_mset [of xs] by (metis size_mset)

lemma pop_Nil: "pop xs = [] \<longleftrightarrow> xs = []"
  using pop_mset [of xs] by auto

lemma pop_split: "xs \<noteq> [] \<Longrightarrow> mset xs = add_mset (hd xs) (mset (butlast (pop xs)))"
  using pop_mset [of xs] pop_last [of xs] append_butlast_last_id [of "pop xs"] pop_Nil [of xs]
  by (metis add_mset_add_single mset.simps(1) mset.simps(2) mset_append)

lemma pop_length: "xs \<noteq> [] \<Longrightarrow> length (butlast (pop xs)) = length xs - 1"
  using pop_mset [of xs] by (metis length_butlast size_mset)

lemma make_length: "length (make xs) = length xs"
  using make_mset [of xs] by (metis size_mset)

lemma front_min: "heap xs \<Longrightarrow> xs \<noteq> [] \<Longrightarrow> x \<in> set (butlast (pop xs)) \<Longrightarrow> key (hd xs) \<le> key x"
  using heap_front [of xs x] pop_mset [of xs] in_set_butlastD [of x "pop xs"] by (metis set_mset_mset)

end

section \<open>The sifts keep it\<close>

definition parent :: "nat \<Rightarrow> nat" where "parent j = (j - 1) div 2"

lemma sift_up_step:
  "sift_up key i xs =
     (if 0 < i \<and> key (xs ! i) < key (xs ! parent i) then sift_up key (parent i) (swap_at i (parent i) xs) else xs)"
  by (simp add: sift_up.simps [of key i xs] parent_def Let_def)

definition edge_ok :: "('a \<Rightarrow> int) \<Rightarrow> 'a list \<Rightarrow> nat \<Rightarrow> bool" where
  "edge_ok key xs j \<longleftrightarrow> key (xs ! parent j) \<le> key (xs ! j)"

text \<open>\<open>heap_from key s n xs\<close>: the heap order below every parent from \<open>s\<close> on, in the first \<open>n\<close> elements.\<close>

definition heap_from :: "('a \<Rightarrow> int) \<Rightarrow> nat \<Rightarrow> nat \<Rightarrow> 'a list \<Rightarrow> bool" where
  "heap_from key s n xs \<longleftrightarrow> (\<forall>j \<in> {1 ..< n}. s \<le> parent j \<longrightarrow> edge_ok key xs j)"

definition is_heap :: "('a \<Rightarrow> int) \<Rightarrow> 'a list \<Rightarrow> bool" where
  "is_heap key xs \<longleftrightarrow> heap_from key 0 (length xs) xs"

lemma length_swap [simp]: "length (swap_at i j xs) = length xs"
  by (simp add: swap_at_def)

lemma mset_swap_at [simp]: "i < length xs \<Longrightarrow> j < length xs \<Longrightarrow> mset (swap_at i j xs) = mset xs"
  by (simp add: swap_at_def mset_swap)

lemma nth_swap_at:
  "i < length xs \<Longrightarrow> j < length xs \<Longrightarrow> k < length xs \<Longrightarrow>
     swap_at i j xs ! k = (if k = j then xs ! i else if k = i then xs ! j else xs ! k)"
  by (simp add: swap_at_def nth_list_update)

lemma parent_less: "0 < j \<Longrightarrow> parent j < j"
  by (auto simp: parent_def)

lemma child_iff: "0 < j \<Longrightarrow> parent j = i \<longleftrightarrow> j = 2 * i + 1 \<or> j = 2 * i + 2"
  by (auto simp: parent_def)

lemma sift_up_mset: "i < length xs \<Longrightarrow> mset (sift_up key i xs) = mset xs"
proof (induction key i xs rule: sift_up.induct)
  case (1 key i xs)
  have "parent i < length xs" if "0 < i" using 1(2) parent_less [OF that] by linarith
  with 1 show ?case by (auto simp: sift_up_step [of key i xs] parent_def)
qed

lemma sift_up_heap:
  "i < length xs \<Longrightarrow> \<forall>j \<in> {1 ..< length xs}. j \<noteq> i \<longrightarrow> edge_ok key xs j \<Longrightarrow>
   \<forall>j \<in> {1 ..< length xs}. 0 < i \<and> parent j = i \<longrightarrow> key (xs ! parent i) \<le> key (xs ! j) \<Longrightarrow>
   is_heap key (sift_up key i xs)"
proof (induction key i xs rule: sift_up.induct)
  case (1 key i xs)
  let ?p = "parent i"
  show ?case
  proof (cases "0 < i \<and> key (xs ! i) < key (xs ! ?p)")
    case False
    then have "edge_ok key xs i \<or> i = 0" by (auto simp: edge_ok_def)
    then have "\<forall>j \<in> {1 ..< length xs}. edge_ok key xs j"
      using 1(3) by (metis atLeastLessThan_iff not_one_le_zero)
    then show ?thesis using False
      by (auto simp: sift_up_step [of key i xs] is_heap_def heap_from_def)
  next
    case True
    let ?ys = "swap_at i ?p xs"
    have p: "?p < i" "?p < length xs" using True 1(2) parent_less [of i] by auto
    note nth = nth_swap_at [OF 1(2) p(2)]
    have other: "edge_ok key ?ys j" if j: "j \<in> {1 ..< length xs}" "j \<noteq> ?p" for j
    proof -
      have pj: "parent j < j" "parent j < length xs" using j(1) parent_less [of j] by auto
      consider "j = i" | "j \<noteq> i" "parent j = i" | "j \<noteq> i" "parent j = ?p" | "j \<noteq> i" "parent j \<noteq> i" "parent j \<noteq> ?p" by blast
      then show ?thesis
      proof cases
        case 2
        then show ?thesis using 1(4) j True p nth pj by (auto simp: edge_ok_def)
      next
        case 3
        then have "key (xs ! ?p) \<le> key (xs ! j)" using 1(3) j by (auto simp: edge_ok_def)
        then show ?thesis using 3 j True p nth pj by (auto simp: edge_ok_def)
      next
        case 4
        then show ?thesis using 1(3) j p nth pj by (auto simp: edge_ok_def)
      qed (use True p nth 1(2) in \<open>auto simp: edge_ok_def\<close>)
    qed
    have grand: "key (?ys ! parent ?p) \<le> key (?ys ! j)" if j: "j \<in> {1 ..< length xs}" "0 < ?p" "parent j = ?p" for j
    proof -
      have pp: "parent ?p < ?p" using j(2) by (rule parent_less)
      have "key (xs ! parent ?p) \<le> key (xs ! ?p)"
        using 1(3) p j(2) by (auto simp: edge_ok_def)
      moreover have "key (xs ! ?p) \<le> key (xs ! j)" if "j \<noteq> i"
        using 1(3) j that by (auto simp: edge_ok_def)
      ultimately show ?thesis
        using nth [of j] nth [of "parent ?p"] j p pp by (cases "j = i") auto
    qed
    have "is_heap key (sift_up key ?p ?ys)"
      using 1(1) [OF _ parent_def [of i]] True p other grand by simp
    with True show ?thesis by (simp add: sift_up_step [of key i xs])
  qed
qed

definition least_child :: "('a \<Rightarrow> int) \<Rightarrow> nat \<Rightarrow> nat \<Rightarrow> 'a list \<Rightarrow> nat" where
  "least_child key n i xs =
     (if 2 * i + 2 < n \<and> key (xs ! (2 * i + 2)) < key (xs ! (2 * i + 1)) then 2 * i + 2 else 2 * i + 1)"

lemma sift_down_step:
  "sift_down key n i xs =
     (let c = least_child key n i xs
      in if 2 * i + 1 < n \<and> key (xs ! c) < key (xs ! i) then sift_down key n c (swap_at i c xs) else xs)"
  unfolding least_child_def by (subst sift_down.simps) (simp only: Let_def)

lemma sift_down_frame:
  "n \<le> length xs \<Longrightarrow>
     mset (sift_down key n i xs) = mset xs \<and> length (sift_down key n i xs) = length xs \<and>
     (\<forall>k. n \<le> k \<longrightarrow> sift_down key n i xs ! k = xs ! k)"
proof (induction key n i xs rule: sift_down.induct)
  case (1 key n i xs)
  define c where "c = least_child key n i xs"
  note cd = c_def [unfolded least_child_def]
  show ?case
  proof (cases "2 * i + 1 < n \<and> key (xs ! c) < key (xs ! i)")
    case True
    have c: "c < n" "i < n" using True by (auto simp: cd)
    have "mset (sift_down key n c (swap_at i c xs)) = mset (swap_at i c xs) \<and>
        length (sift_down key n c (swap_at i c xs)) = length (swap_at i c xs) \<and>
        (\<forall>k. n \<le> k \<longrightarrow> sift_down key n c (swap_at i c xs) ! k = swap_at i c xs ! k)"
      using 1(1) [OF refl refl cd] True 1(2) by simp
    moreover have "swap_at i c xs ! k = xs ! k" if "n \<le> k" for k
      using c that by (simp add: swap_at_def)
    ultimately show ?thesis
      using True c 1(2) by (simp add: sift_down_step [of key n i xs] c_def [symmetric] Let_def)
  next
    case False
    then show ?thesis by (auto simp: sift_down_step [of key n i xs] c_def [symmetric] Let_def)
  qed
qed

lemma sift_down_heap:
  "n \<le> length xs \<Longrightarrow> \<forall>j \<in> {1 ..< n}. s \<le> parent j \<and> parent j \<noteq> i \<longrightarrow> edge_ok key xs j \<Longrightarrow>
   \<forall>j \<in> {1 ..< n}. 0 < i \<and> s \<le> parent i \<and> parent j = i \<longrightarrow> key (xs ! parent i) \<le> key (xs ! j) \<Longrightarrow>
   s \<le> i \<Longrightarrow> heap_from key s n (sift_down key n i xs)"
proof (induction key n i xs rule: sift_down.induct)
  case (1 key n i xs)
  define c where "c = least_child key n i xs"
  note cd = c_def [unfolded least_child_def]
  have least: "key (xs ! c) \<le> key (xs ! j)" if "j \<in> {1 ..< n}" "parent j = i" for j
    using that child_iff [of j i] by (auto simp: cd)
  show ?case
  proof (cases "2 * i + 1 < n \<and> key (xs ! c) < key (xs ! i)")
    case False
    have "edge_ok key xs j" if j: "j \<in> {1 ..< n}" "s \<le> parent j" for j
    proof (cases "parent j = i")
      case True
      then have "2 * i + 1 < n" using j child_iff [of j i] by auto
      with False least [OF j(1) True] True show ?thesis by (auto simp: edge_ok_def)
    qed (use j 1(3) in auto)
    with False show ?thesis
      by (auto simp: sift_down_step [of key n i xs] c_def [symmetric] Let_def heap_from_def)
  next
    case True
    let ?ys = "swap_at i c xs"
    have c: "c < n" "i < c" "parent c = i" "0 < c" using True by (auto simp: cd parent_def)
    note nth = nth_swap_at [of i xs c]
    have other: "edge_ok key ?ys j" if j: "j \<in> {1 ..< n}" "s \<le> parent j" "parent j \<noteq> c" for j
    proof -
      have pj: "parent j < j" "parent j < n" using j(1) parent_less [of j] by auto
      consider "j = c" | "j \<noteq> c" "parent j = i" | "j = i" | "j \<noteq> c" "j \<noteq> i" "parent j \<noteq> i" by blast
      then show ?thesis
      proof cases
        case 1
        then show ?thesis using True c nth [of c] nth [of i] "1.prems"(1) by (simp add: edge_ok_def)
      next
        case 2
        then show ?thesis
          using least [OF j(1)] c nth [of j] nth [of i] j pj "1.prems"(1) by (auto simp: edge_ok_def)
      next
        case 3
        then have "parent j \<noteq> i" using pj by simp
        moreover have "key (xs ! parent i) \<le> key (xs ! c)"
          using "1.prems"(3) c 3 j by auto
        ultimately show ?thesis
          using 3 c nth [of i] nth [of "parent i"] j pj "1.prems"(1) by (auto simp: edge_ok_def)
      next
        case 4
        then show ?thesis
          using "1.prems"(1,2) c nth [of j] nth [of "parent j"] j pj by (auto simp: edge_ok_def)
      qed
    qed
    have grand: "key (?ys ! parent c) \<le> key (?ys ! j)" if j: "j \<in> {1 ..< n}" "parent j = c" for j
    proof -
      have "c < j" using j parent_less [of j] by auto
      moreover have "key (xs ! c) \<le> key (xs ! j)"
        using "1.prems"(2,4) c j by (auto simp: edge_ok_def)
      ultimately show ?thesis
        using c nth [of i] nth [of j] j "1.prems"(1) by auto
    qed
    have "heap_from key s n (sift_down key n c ?ys)"
      using "1.IH" [OF refl refl cd] True "1.prems" c other grand by simp
    with True show ?thesis
      by (simp add: sift_down_step [of key n i xs] c_def [symmetric] Let_def)
  qed
qed

section \<open>The contract holds\<close>

lemma heap_root_least:
  assumes "is_heap key xs" and "i < length xs"
  shows "key (xs ! 0) \<le> key (xs ! i)"
  using assms(2)
proof (induction i rule: less_induct)
  case (less i)
  show ?case
  proof (cases "i = 0")
    case False
    then have "key (xs ! 0) \<le> key (xs ! parent i)"
      using less parent_less [of i] by auto
    moreover have "edge_ok key xs i"
      using assms(1) less(2) False by (auto simp: is_heap_def heap_from_def)
    ultimately show ?thesis by (simp add: edge_ok_def)
  qed simp
qed

lemma is_heap_front: "is_heap key xs \<Longrightarrow> x \<in> set xs \<Longrightarrow> key (hd xs) \<le> key x"
proof -
  assume heap: "is_heap key xs" and "x \<in> set xs"
  then obtain i where i: "i < length xs" "x = xs ! i" by (auto simp: in_set_conv_nth)
  then have "hd xs = xs ! 0" by (cases xs) auto
  with heap_root_least [OF heap i(1)] i(2) show ?thesis by simp
qed

lemma heap_from_cong:
  "(\<And>k. k < n \<Longrightarrow> ys ! k = xs ! k) \<Longrightarrow> heap_from key s n ys = heap_from key s n xs"
proof -
  assume same: "\<And>k. k < n \<Longrightarrow> ys ! k = xs ! k"
  have "edge_ok key ys j = edge_ok key xs j" if "j \<in> {1 ..< n}" for j
    using that same [of j] same [of "parent j"] parent_less [of j] by (auto simp: edge_ok_def)
  then show ?thesis by (simp add: heap_from_def)
qed

lemma push_heap_ok: "is_heap key xs \<Longrightarrow> is_heap key (push_heap key (xs @ [x]))"
proof -
  assume heap: "is_heap key xs"
  let ?ys = "xs @ [x]"
  have "edge_ok key ?ys j" if "j \<in> {1 ..< length xs}" for j
  proof -
    have "parent j < length xs" using that parent_less [of j] by auto
    with that heap show ?thesis by (auto simp: is_heap_def heap_from_def edge_ok_def nth_append)
  qed
  moreover have "parent j \<noteq> length xs" if "j \<in> {1 ..< length ?ys}" for j
    using that parent_less [of j] by auto
  ultimately show ?thesis
    unfolding push_heap_def by (intro sift_up_heap) auto
qed

lemma push_heap_mset: "mset (push_heap key xs) = mset xs"
  by (cases xs) (auto simp: push_heap_def sift_up_mset sift_up.simps [of _ 0])

lemma pop_heap_ok: "is_heap key xs \<Longrightarrow> is_heap key (butlast (pop_heap key xs))"
proof (cases "length xs \<le> 1")
  case True
  then have "butlast (pop_heap key xs) = []" by (cases xs) (auto simp: pop_heap_def)
  then show ?thesis by (simp add: is_heap_def heap_from_def)
next
  case False
  assume heap: "is_heap key xs"
  define n where "n = length xs - 1"
  let ?ys = "swap_at 0 n xs"
  have n: "0 < n" "length xs = Suc n" using False by (auto simp: n_def)
  have "edge_ok key ?ys j" if j: "j \<in> {1 ..< n}" "parent j \<noteq> 0" for j
  proof -
    have "parent j < n" using j parent_less [of j] by auto
    then have "?ys ! j = xs ! j" "?ys ! parent j = xs ! parent j"
      using j n by (simp_all add: nth_swap_at)
    with j n heap show ?thesis by (auto simp: is_heap_def heap_from_def edge_ok_def)
  qed
  then have "heap_from key 0 n (sift_down key n 0 ?ys)"
    using n by (intro sift_down_heap) auto
  moreover have "butlast (pop_heap key xs) = take n (sift_down key n 0 ?ys)"
    using False sift_down_frame [of n ?ys key 0] n by (simp add: pop_heap_def Let_def n_def [symmetric] butlast_conv_take)
  ultimately show ?thesis
    using heap_from_cong [of n "take n (sift_down key n 0 ?ys)" "sift_down key n 0 ?ys"] sift_down_frame [of n ?ys key 0] n
    by (simp add: is_heap_def)
qed

lemma pop_heap_last: "xs \<noteq> [] \<Longrightarrow> last (pop_heap key xs) = hd xs"
proof (cases "length xs \<le> 1")
  case False
  define n where "n = length xs - 1"
  let ?zs = "sift_down key n 0 (swap_at 0 n xs)"
  have n: "length xs = Suc n" using False by (auto simp: n_def)
  have "length ?zs = Suc n" "?zs ! n = swap_at 0 n xs ! n"
    using sift_down_frame [of n "swap_at 0 n xs" key 0] n by simp_all
  then have "last ?zs = xs ! 0"
    using n by (metis Suc_neq_Zero diff_Suc_1 last_conv_nth lessI list.size(3) nth_swap_at zero_less_Suc)
  then show ?thesis
    using False n by (cases xs) (auto simp: pop_heap_def Let_def n_def [symmetric])
next
  case True
  then show "xs \<noteq> [] \<Longrightarrow> ?thesis" by (cases xs) (auto simp: pop_heap_def)
qed

lemma pop_heap_mset: "mset (pop_heap key xs) = mset xs"
proof (cases "length xs \<le> 1")
  case False
  then have "0 < length xs" "length xs - 1 < length xs" by linarith+
  then show ?thesis
    using sift_down_frame [of "length xs - 1" "swap_at 0 (length xs - 1) xs" key 0] mset_swap_at [of 0 xs "length xs - 1"]
    by (simp add: pop_heap_def Let_def)
qed (simp add: pop_heap_def)

definition make_heap_from :: "('a \<Rightarrow> int) \<Rightarrow> nat \<Rightarrow> 'a list \<Rightarrow> 'a list" where
  "make_heap_from key s xs = fold (\<lambda>i. sift_down key (length xs) i) (rev [s ..< length xs div 2]) xs"

lemma make_heap_prefix:
  "s \<le> length xs div 2 \<Longrightarrow>
     heap_from key s (length xs) (make_heap_from key s xs) \<and> mset (make_heap_from key s xs) = mset xs \<and>
     length (make_heap_from key s xs) = length xs"
proof (induction "length xs div 2 - s" arbitrary: s)
  case 0
  then have "s = length xs div 2" by simp
  then have "heap_from key s (length xs) xs"
    by (auto simp: heap_from_def parent_def)
  with 0 show ?case by (simp add: make_heap_from_def)
next
  case (Suc d)
  define zs where "zs = make_heap_from key (Suc s) xs"
  have zs: "heap_from key (Suc s) (length xs) zs" "mset zs = mset xs" "length zs = length xs"
    using Suc(1) [of "Suc s"] Suc(2) by (auto simp: zs_def)
  have split: "make_heap_from key s xs = sift_down key (length xs) s zs"
    using Suc(2) by (simp add: zs_def make_heap_from_def upt_conv_Cons)
  have "heap_from key s (length xs) (sift_down key (length xs) s zs)"
  proof (rule sift_down_heap)
    show "\<forall>j \<in> {1 ..< length xs}. s \<le> parent j \<and> parent j \<noteq> s \<longrightarrow> edge_ok key zs j"
      using zs(1) by (auto simp: heap_from_def)
    show "\<forall>j \<in> {1 ..< length xs}. 0 < s \<and> s \<le> parent s \<and> parent j = s \<longrightarrow> key (zs ! parent s) \<le> key (zs ! j)"
      using parent_less [of s] by auto
  qed (use zs in auto)
  with zs sift_down_frame [of "length xs" zs key s] show ?case by (simp add: split)
qed

interpretation std_heap: heap_algorithms key "is_heap key" "push_heap key" "pop_heap key" "make_heap key" for key
proof unfold_locales
  show "is_heap key []" by (simp add: is_heap_def heap_from_def)
  show "is_heap key (make_heap key xs)" "mset (make_heap key xs) = mset xs" for xs
    using make_heap_prefix [of 0 xs key] by (simp_all add: make_heap_def make_heap_from_def is_heap_def)
qed (auto simp: is_heap_front push_heap_ok push_heap_mset pop_heap_ok pop_heap_last pop_heap_mset)

end
