(* ===== verification/Timer_Queue.thy ===== *)
theory Timer_Queue
  imports Identity Std_Heap "HOL-Library.Code_Target_Nat"
begin

text \<open>
  The worker's timer queue of \<^verbatim>\<open>include/snf/worker/timer_queue.hpp\<close>: a deadline heap with a fixed number of
  entries, shared between scheduled timers and reservations, and a byte budget for application
  timers. A failed \<open>requireInvariant\<close> terminates the process and is the value \<open>None\<close>. Counts are
  \<^typ>\<open>nat\<close>; byte counters keep their 64 bits.
\<close>

section \<open>State\<close>

datatype 'p timer_payload =
  AwaitTimeout await_key
| ConnectionCloseDeadline connection_handle
| ApplicationTimer activation_ref "'p actor_envelope"

record 'p timer_entry =
  te_deadline :: time_point
  te_payload :: "'p timer_payload"

record 'p timer_queue =
  tq_heap :: "'p timer_entry list"
  reserved_entries :: nat
  reserved_application_timer_entries :: nat
  max_application_timer_bytes :: u64
  application_timer_bytes :: u64
  reserved_application_timer_bytes :: u64

record count_time_budget =
  max_count :: nat
  max_duration :: int

record expire_result =
  er_expired :: nat
  due_items_remain :: bool
  budget_exhausted :: bool

definition TIMER_CAPACITY :: nat where "TIMER_CAPACITY = 65536"

definition make_timer_queue :: "u64 \<Rightarrow> 'p timer_queue" where
  "make_timer_queue max_bytes =
     \<lparr>tq_heap = [], reserved_entries = 0, reserved_application_timer_entries = 0,
      max_application_timer_bytes = max_bytes, application_timer_bytes = 0, reserved_application_timer_bytes = 0\<rparr>"

section \<open>Operations\<close>

definition is_application :: "'p timer_entry \<Rightarrow> bool" where
  "is_application e = (case te_payload e of ApplicationTimer t m \<Rightarrow> True | _ \<Rightarrow> False)"

definition entry_charge :: "'p timer_entry \<Rightarrow> u64" where
  "entry_charge e = (case te_payload e of ApplicationTimer t m \<Rightarrow> chargedBytes m | _ \<Rightarrow> 0)"

definition hasEntryCapacity :: "'p timer_queue \<Rightarrow> bool" where
  "hasEntryCapacity q \<longleftrightarrow>
     reserved_entries q < TIMER_CAPACITY \<and> length (tq_heap q) < TIMER_CAPACITY - reserved_entries q"

definition hasApplicationByteCapacity :: "'p timer_queue \<Rightarrow> u64 \<Rightarrow> bool" where
  "hasApplicationByteCapacity q charge =
     (if application_timer_bytes q > max_application_timer_bytes q then False
      else let after_committed = max_application_timer_bytes q - application_timer_bytes q
           in if reserved_application_timer_bytes q > after_committed then False
              else charge \<le> after_committed - reserved_application_timer_bytes q)"

definition hasCommittedApplicationByteCapacity :: "'p timer_queue \<Rightarrow> u64 \<Rightarrow> bool" where
  "hasCommittedApplicationByteCapacity q charge \<longleftrightarrow>
     application_timer_bytes q \<le> max_application_timer_bytes q \<and>
     charge \<le> max_application_timer_bytes q - application_timer_bytes q"

definition push_entry :: "'p timer_entry \<Rightarrow> 'p timer_queue \<Rightarrow> 'p timer_queue" where
  "push_entry e q = q\<lparr>tq_heap := push_heap te_deadline (tq_heap q @ [e])\<rparr>"

definition setMaxApplicationTimerBytes :: "'p timer_queue \<Rightarrow> u64 \<Rightarrow> 'p timer_queue option" where
  "setMaxApplicationTimerBytes q max_bytes =
     (if application_timer_bytes q \<le> max_bytes \<and>
         reserved_application_timer_bytes q \<le> max_bytes - application_timer_bytes q
      then Some (q\<lparr>max_application_timer_bytes := max_bytes\<rparr>) else None)"

definition trySchedule :: "'p timer_queue \<Rightarrow> time_point \<Rightarrow> 'p timer_payload \<Rightarrow> bool \<times> 'p timer_queue" where
  "trySchedule q deadline payload =
     (let e = \<lparr>te_deadline = deadline, te_payload = payload\<rparr>
      in if \<not> hasEntryCapacity q then (False, q)
         else if is_application e
         then let charge = entry_charge e
              in if \<not> hasApplicationByteCapacity q charge then (False, q)
                 else (True, push_entry e (q\<lparr>application_timer_bytes := application_timer_bytes q + charge\<rparr>))
         else (True, push_entry e q))"

definition tryReserve :: "'p timer_queue \<Rightarrow> bool \<times> 'p timer_queue" where
  "tryReserve q =
     (if \<not> hasEntryCapacity q then (False, q) else (True, q\<lparr>reserved_entries := reserved_entries q + 1\<rparr>))"

definition releaseReservation :: "'p timer_queue \<Rightarrow> 'p timer_queue option" where
  "releaseReservation q =
     (if reserved_entries q > 0 then Some (q\<lparr>reserved_entries := reserved_entries q - 1\<rparr>) else None)"

definition commitReserved :: "'p timer_queue \<Rightarrow> time_point \<Rightarrow> 'p timer_payload \<Rightarrow> 'p timer_queue option" where
  "commitReserved q deadline payload =
     (if \<not> reserved_entries q > 0 then None
      else let q1 = q\<lparr>reserved_entries := reserved_entries q - 1\<rparr>;
               e = \<lparr>te_deadline = deadline, te_payload = payload\<rparr>
           in if is_application e
              then let charge = entry_charge e
                   in if \<not> hasCommittedApplicationByteCapacity q1 charge then None
                      else Some (push_entry e (q1\<lparr>application_timer_bytes := application_timer_bytes q1 + charge\<rparr>))
              else Some (push_entry e q1))"

definition tryReserveApplicationTimer :: "'p timer_queue \<Rightarrow> u64 \<Rightarrow> bool \<times> 'p timer_queue" where
  "tryReserveApplicationTimer q charged_bytes =
     (if \<not> hasEntryCapacity q then (False, q)
      else if \<not> hasApplicationByteCapacity q charged_bytes then (False, q)
      else (True, q\<lparr>reserved_entries := reserved_entries q + 1,
                    reserved_application_timer_entries := reserved_application_timer_entries q + 1,
                    reserved_application_timer_bytes := reserved_application_timer_bytes q + charged_bytes\<rparr>))"

definition releaseApplicationTimerReservation :: "'p timer_queue \<Rightarrow> u64 \<Rightarrow> 'p timer_queue option" where
  "releaseApplicationTimerReservation q charged_bytes =
     (if \<not> reserved_entries q > 0 then None
      else if \<not> reserved_application_timer_entries q > 0 then None
      else if \<not> reserved_application_timer_bytes q \<ge> charged_bytes then None
      else Some (q\<lparr>reserved_entries := reserved_entries q - 1,
                   reserved_application_timer_entries := reserved_application_timer_entries q - 1,
                   reserved_application_timer_bytes := reserved_application_timer_bytes q - charged_bytes\<rparr>))"

definition commitReservedApplicationTimer ::
  "'p timer_queue \<Rightarrow> time_point \<Rightarrow> activation_ref \<Rightarrow> 'p actor_envelope \<Rightarrow> u64 \<Rightarrow> 'p timer_queue option" where
  "commitReservedApplicationTimer q deadline target message charged_bytes =
     (if \<not> reserved_entries q > 0 then None
      else if \<not> reserved_application_timer_entries q > 0 then None
      else if \<not> reserved_application_timer_bytes q \<ge> charged_bytes then None
      else if chargedBytes message \<noteq> charged_bytes then None
      else if \<not> hasCommittedApplicationByteCapacity q charged_bytes then None
      else Some (push_entry \<lparr>te_deadline = deadline, te_payload = ApplicationTimer target message\<rparr>
             (q\<lparr>reserved_entries := reserved_entries q - 1,
                reserved_application_timer_entries := reserved_application_timer_entries q - 1,
                reserved_application_timer_bytes := reserved_application_timer_bytes q - charged_bytes,
                application_timer_bytes := application_timer_bytes q + charged_bytes\<rparr>)))"

definition tryScheduleApplicationTimer ::
  "'p timer_queue \<Rightarrow> time_point \<Rightarrow> activation_ref \<Rightarrow> 'p actor_envelope \<Rightarrow> bool \<times> 'p timer_queue" where
  "tryScheduleApplicationTimer q deadline target message =
     (let charge = chargedBytes message
      in if \<not> hasEntryCapacity q then (False, q)
         else if \<not> hasApplicationByteCapacity q charge then (False, q)
         else (True, push_entry \<lparr>te_deadline = deadline, te_payload = ApplicationTimer target message\<rparr>
                       (q\<lparr>application_timer_bytes := application_timer_bytes q + charge\<rparr>)))"

definition applicationTimerCount :: "'p timer_queue \<Rightarrow> nat" where
  "applicationTimerCount q = length (filter is_application (tq_heap q))"

definition nextDeadline :: "'p timer_queue \<Rightarrow> time_point option" where
  "nextDeadline q = (case tq_heap q of [] \<Rightarrow> None | e # _ \<Rightarrow> Some (te_deadline e))"

text \<open>The \<open>erase_if\<close> pass of \<open>cancelApplicationTimers\<close>, with the byte counter it decrements.\<close>

fun erase_application :: "'p timer_entry list \<Rightarrow> u64 \<Rightarrow> ('p timer_entry list \<times> u64) option" where
  "erase_application [] charged = Some ([], charged)"
| "erase_application (e # es) charged =
     (if \<not> is_application e
      then (case erase_application es charged of None \<Rightarrow> None | Some (kept, b) \<Rightarrow> Some (e # kept, b))
      else if charged \<ge> entry_charge e then erase_application es (charged - entry_charge e)
      else None)"

definition cancelApplicationTimers :: "'p timer_queue \<Rightarrow> (nat \<times> 'p timer_queue) option" where
  "cancelApplicationTimers q =
     (case erase_application (tq_heap q) (application_timer_bytes q) of
        None \<Rightarrow> None
      | Some (kept, b) \<Rightarrow>
          let count = length (tq_heap q) - length kept;
              q1 = q\<lparr>tq_heap := (if count > 0 then make_heap te_deadline kept else kept), application_timer_bytes := b\<rparr>
          in if applicationTimerCount q1 \<noteq> 0 \<or> application_timer_bytes q1 = 0 then Some (count, q1) else None)"

text \<open>
  The loop of \<open>expire\<close>. The handler is the caller's: it may change the caller's state \<open>w\<close> and
  use the queue itself. \<open>clock k\<close> is the reading of the steady clock after \<open>k\<close> callbacks.
\<close>

definition due :: "time_point \<Rightarrow> 'p timer_queue \<Rightarrow> bool" where
  "due now q \<longleftrightarrow> (case tq_heap q of [] \<Rightarrow> False | e # _ \<Rightarrow> te_deadline e \<le> now)"

definition pop_entry :: "'p timer_queue \<Rightarrow> ('p timer_entry \<times> 'p timer_queue) option" where
  "pop_entry q =
     (let h = pop_heap te_deadline (tq_heap q); e = last h; q1 = q\<lparr>tq_heap := butlast h\<rparr>
      in if is_application e
         then if application_timer_bytes q1 \<ge> entry_charge e
              then Some (e, q1\<lparr>application_timer_bytes := application_timer_bytes q1 - entry_charge e\<rparr>)
              else None
         else Some (e, q1))"

type_synonym ('p, 'w) timer_handler = "'p timer_payload \<Rightarrow> 'w \<Rightarrow> 'p timer_queue \<Rightarrow> 'w \<times> 'p timer_queue"

function expire_loop ::
  "time_point \<Rightarrow> count_time_budget \<Rightarrow> (nat \<Rightarrow> time_point) \<Rightarrow> ('p, 'w) timer_handler \<Rightarrow> expire_result \<Rightarrow>
     'w \<Rightarrow> 'p timer_queue \<Rightarrow> (expire_result \<times> 'w \<times> 'p timer_queue) option" where
  "expire_loop now budget clock handler result w q =
     (if \<not> due now q then Some (result, w, q)
      else if er_expired result \<ge> max_count budget
      then Some (result\<lparr>budget_exhausted := True, due_items_remain := True\<rparr>, w, q)
      else case pop_entry q of
             None \<Rightarrow> None
           | Some (e, q1) \<Rightarrow>
               let (w', q2) = handler (te_payload e) w q1;
                   result' = result\<lparr>er_expired := er_expired result + 1\<rparr>
               in if er_expired result' mod 64 = 0 \<and> clock (er_expired result') - clock 0 \<ge> max_duration budget
                  then Some (result'\<lparr>budget_exhausted := True, due_items_remain := due now q2 \<or> due_items_remain result'\<rparr>, w', q2)
                  else expire_loop now budget clock handler result' w' q2)"
  by pat_completeness auto

termination
  by (relation "measure (\<lambda>(now, budget, clock, handler, result, w, q). max_count budget - er_expired result)") auto

declare expire_loop.simps [simp del]

definition expire ::
  "time_point \<Rightarrow> count_time_budget \<Rightarrow> (nat \<Rightarrow> time_point) \<Rightarrow> ('p, 'w) timer_handler \<Rightarrow>
     'w \<Rightarrow> 'p timer_queue \<Rightarrow> (expire_result \<times> 'w \<times> 'p timer_queue) option" where
  "expire now budget clock handler w q =
     (case expire_loop now budget clock handler
             \<lparr>er_expired = 0, due_items_remain = False, budget_exhausted = False\<rparr> w q of
        None \<Rightarrow> None
      | Some (result, w', q') \<Rightarrow> Some (if due now q' then result\<lparr>due_items_remain := True\<rparr> else result, w', q'))"

section \<open>The books balance\<close>

text \<open>
  \<open>timer_inv q plain charges\<close>: the heap is ordered; scheduled entries and reservations fit the
  capacity; and the counters agree with the heap and with the reservations that callers hold,
  \<open>plain\<close> of them without bytes and one of each of the sizes \<open>charges\<close>.
\<close>

definition charge_sum :: "'p timer_queue \<Rightarrow> nat" where
  "charge_sum q = (\<Sum>e \<in># mset (tq_heap q). unat (entry_charge e))"

definition timer_inv :: "'p timer_queue \<Rightarrow> nat \<Rightarrow> u64 list \<Rightarrow> bool" where
  "timer_inv q plain charges \<longleftrightarrow>
     is_heap te_deadline (tq_heap q) \<and>
     length (tq_heap q) + reserved_entries q \<le> TIMER_CAPACITY \<and>
     reserved_entries q = plain + length charges \<and>
     reserved_application_timer_entries q = length charges \<and>
     unat (application_timer_bytes q) = charge_sum q \<and>
     unat (reserved_application_timer_bytes q) = sum_list (map unat charges) \<and>
     charge_sum q + sum_list (map unat charges) \<le> unat (max_application_timer_bytes q)"

lemma not_application_charge [simp]: "\<not> is_application e \<Longrightarrow> entry_charge e = 0"
  by (auto simp: is_application_def entry_charge_def split: timer_payload.splits)

lemma push_entry_simps [simp]:
  "reserved_entries (push_entry e q) = reserved_entries q"
  "reserved_application_timer_entries (push_entry e q) = reserved_application_timer_entries q"
  "max_application_timer_bytes (push_entry e q) = max_application_timer_bytes q"
  "application_timer_bytes (push_entry e q) = application_timer_bytes q"
  "reserved_application_timer_bytes (push_entry e q) = reserved_application_timer_bytes q"
  "length (tq_heap (push_entry e q)) = Suc (length (tq_heap q))"
  "mset (tq_heap (push_entry e q)) = add_mset e (mset (tq_heap q))"
  by (simp_all add: push_entry_def std_heap.push_length std_heap.push_mset)

lemma charge_sum_push [simp]: "charge_sum (push_entry e q) = unat (entry_charge e) + charge_sum q"
  by (simp add: charge_sum_def)

lemma charge_sum_update [simp]:
  "charge_sum (q\<lparr>reserved_entries := a\<rparr>) = charge_sum q"
  "charge_sum (q\<lparr>reserved_application_timer_entries := a\<rparr>) = charge_sum q"
  "charge_sum (q\<lparr>application_timer_bytes := b\<rparr>) = charge_sum q"
  "charge_sum (q\<lparr>reserved_application_timer_bytes := b\<rparr>) = charge_sum q"
  "charge_sum (q\<lparr>max_application_timer_bytes := b\<rparr>) = charge_sum q"
  by (simp_all add: charge_sum_def)

lemma push_entry_heap [simp]: "is_heap te_deadline (tq_heap q) \<Longrightarrow> is_heap te_deadline (tq_heap (push_entry e q))"
  by (simp add: push_entry_def std_heap.push_heap)

lemma entry_room: "hasEntryCapacity q \<longleftrightarrow> length (tq_heap q) + reserved_entries q < TIMER_CAPACITY"
  by (auto simp: hasEntryCapacity_def)

lemma committed_room:
  "hasCommittedApplicationByteCapacity q c \<longleftrightarrow>
     unat (application_timer_bytes q) + unat c \<le> unat (max_application_timer_bytes q)"
  by (auto simp: hasCommittedApplicationByteCapacity_def word_le_nat_alt unat_sub_le)

lemma byte_room:
  "hasApplicationByteCapacity q c \<longleftrightarrow>
     unat (application_timer_bytes q) + unat (reserved_application_timer_bytes q) + unat c
       \<le> unat (max_application_timer_bytes q)"
proof (cases "application_timer_bytes q \<le> max_application_timer_bytes q")
  case True
  then have "unat (max_application_timer_bytes q - application_timer_bytes q) =
      unat (max_application_timer_bytes q) - unat (application_timer_bytes q)"
    by (rule unat_sub_le)
  with True show ?thesis
    by (auto simp: hasApplicationByteCapacity_def Let_def word_le_nat_alt word_less_nat_alt unat_sub_le not_less)
qed (auto simp: hasApplicationByteCapacity_def word_le_nat_alt word_less_nat_alt)

lemma sum_remove1:
  "c \<in> set cs \<Longrightarrow> sum_list (map unat (remove1 c cs)) + unat c = sum_list (map unat cs)" for c :: u64
  by (induction cs) auto

lemma bytes_add:
  "unat a + unat b \<le> unat m \<Longrightarrow> unat (a + b) = unat a + unat b" for a b m :: u64
  using unat_u64_lt [of m] by (intro unat_add_small) simp

section \<open>Every operation keeps the books\<close>

lemma trySchedule_inv:
  "timer_inv q plain charges \<Longrightarrow> timer_inv (snd (trySchedule q d p)) plain charges"
  by (auto simp: timer_inv_def trySchedule_def Let_def entry_room byte_room
      bytes_add [where m = "max_application_timer_bytes q"])

lemma tryScheduleApplicationTimer_is_trySchedule:
  "tryScheduleApplicationTimer q d t m = trySchedule q d (ApplicationTimer t m)"
  by (simp add: tryScheduleApplicationTimer_def trySchedule_def Let_def is_application_def entry_charge_def)

lemma tryReserve_inv:
  "timer_inv q plain charges \<Longrightarrow>
     (case tryReserve q of (ok, q') \<Rightarrow> timer_inv q' (if ok then Suc plain else plain) charges)"
  by (auto simp: timer_inv_def tryReserve_def entry_room)

lemma tryReserveApplicationTimer_inv:
  "timer_inv q plain charges \<Longrightarrow>
     (case tryReserveApplicationTimer q c of (ok, q') \<Rightarrow> timer_inv q' plain (if ok then c # charges else charges))"
  by (auto simp: timer_inv_def tryReserveApplicationTimer_def entry_room byte_room
      bytes_add [where m = "max_application_timer_bytes q"])

lemma releaseReservation_inv:
  "timer_inv q (Suc plain) charges \<Longrightarrow>
     (case releaseReservation q of None \<Rightarrow> False | Some q' \<Rightarrow> timer_inv q' plain charges)"
  by (auto simp: timer_inv_def releaseReservation_def)

lemma commitReserved_inv:
  "timer_inv q (Suc plain) charges \<Longrightarrow> \<not> is_application \<lparr>te_deadline = d, te_payload = p\<rparr> \<Longrightarrow>
     (case commitReserved q d p of None \<Rightarrow> False | Some q' \<Rightarrow> timer_inv q' plain charges)"
  by (auto simp: timer_inv_def commitReserved_def Let_def)

lemma held_bytes:
  assumes "timer_inv q plain charges" and "c \<in> set charges"
  shows "unat c \<le> unat (reserved_application_timer_bytes q)"
    "unat (application_timer_bytes q) + unat c \<le> unat (max_application_timer_bytes q)"
    "unat (reserved_application_timer_bytes q - c) = sum_list (map unat (remove1 c charges))"
    "length charges = Suc (length (remove1 c charges))"
  using assms sum_remove1 [OF assms(2)] length_pos_if_in_set [OF assms(2)]
  by (auto simp: timer_inv_def unat_sub_le word_le_nat_alt length_remove1)

lemma releaseApplication_inv:
  assumes "timer_inv q plain charges" and "c \<in> set charges"
  shows "case releaseApplicationTimerReservation q c of
    None \<Rightarrow> False | Some q' \<Rightarrow> timer_inv q' plain (remove1 c charges)"
  using assms(1) held_bytes [OF assms] sum_remove1 [OF assms(2)]
  by (auto simp: releaseApplicationTimerReservation_def word_le_nat_alt timer_inv_def)

lemma commitApplication_inv:
  assumes "timer_inv q plain charges" and "chargedBytes m \<in> set charges"
  shows "case commitReservedApplicationTimer q d t m (chargedBytes m) of
    None \<Rightarrow> False | Some q' \<Rightarrow> timer_inv q' plain (remove1 (chargedBytes m) charges)"
  using assms(1) held_bytes [OF assms] sum_remove1 [OF assms(2)]
  by (auto simp: commitReservedApplicationTimer_def word_le_nat_alt timer_inv_def committed_room entry_charge_def
      bytes_add [where m = "max_application_timer_bytes q"])

lemma erase_application_sum:
  "unat b = (\<Sum>e \<leftarrow> es. unat (entry_charge e)) \<Longrightarrow>
     \<exists>b'. erase_application es b = Some (filter (\<lambda>e. \<not> is_application e) es, b') \<and> unat b' = 0"
proof (induction es arbitrary: b)
  case (Cons e es)
  show ?case
  proof (cases "is_application e")
    case True
    with Cons(2) have "entry_charge e \<le> b" by (simp add: word_le_nat_alt)
    then have "unat (b - entry_charge e) = (\<Sum>e \<leftarrow> es. unat (entry_charge e))"
      using Cons(2) by (simp add: unat_sub_le)
    from Cons(1) [OF this] True \<open>entry_charge e \<le> b\<close> show ?thesis by simp
  next
    case False
    with Cons show ?thesis by fastforce
  qed
qed simp

lemma charge_sum_list: "charge_sum q = (\<Sum>e \<leftarrow> tq_heap q. unat (entry_charge e))"
  by (simp add: charge_sum_def flip: sum_mset_sum_list)

lemma no_application_charge:
  "charge_sum q = 0" if "\<forall>e \<in> set (tq_heap q). \<not> is_application e"
  using that by (simp add: charge_sum_def)

lemma cancelApplicationTimers_exact:
  assumes "timer_inv q plain charges"
  shows "\<exists>q'. cancelApplicationTimers q = Some (applicationTimerCount q, q') \<and> timer_inv q' plain charges \<and>
    mset (tq_heap q') = filter_mset (\<lambda>e. \<not> is_application e) (mset (tq_heap q)) \<and> application_timer_bytes q' = 0"
proof -
  let ?kept = "filter (\<lambda>e. \<not> is_application e) (tq_heap q)"
  define count where "count = length (tq_heap q) - length ?kept"
  define q' where "q' = q\<lparr>tq_heap := (if count > 0 then make_heap te_deadline ?kept else ?kept), application_timer_bytes := 0\<rparr>"
  have "unat (application_timer_bytes q) = (\<Sum>e \<leftarrow> tq_heap q. unat (entry_charge e))"
    using assms by (simp add: timer_inv_def charge_sum_list)
  then have erased: "erase_application (tq_heap q) (application_timer_bytes q) = Some (?kept, 0)"
    using erase_application_sum [of "application_timer_bytes q" "tq_heap q"] by (auto simp: unat_eq_0)
  have count: "count = applicationTimerCount q"
    using sum_length_filter_compl [of is_application "tq_heap q"] by (simp add: count_def applicationTimerCount_def)
  have "?kept = tq_heap q" if "\<not> count > 0"
  proof -
    have "filter is_application (tq_heap q) = []" using that count by (simp add: applicationTimerCount_def)
    then show ?thesis by (simp add: filter_empty_conv)
  qed
  then have heap: "is_heap te_deadline (tq_heap q')" "mset (tq_heap q') = mset ?kept"
    using assms by (auto simp: q'_def timer_inv_def std_heap.make_heap std_heap.make_mset simp del: mset_filter)
  have kept: "set (tq_heap q') = set ?kept" "length (tq_heap q') = length ?kept"
    using heap(2) by (metis set_mset_mset, metis size_mset)
  have "charge_sum q' = 0"
    by (rule no_application_charge) (simp add: kept)
  moreover have "length (tq_heap q') \<le> length (tq_heap q)"
    by (simp add: kept)
  moreover have "reserved_entries q' = reserved_entries q" "application_timer_bytes q' = 0"
    "reserved_application_timer_entries q' = reserved_application_timer_entries q"
    "reserved_application_timer_bytes q' = reserved_application_timer_bytes q"
    "max_application_timer_bytes q' = max_application_timer_bytes q"
    by (simp_all add: q'_def)
  ultimately have "timer_inv q' plain charges"
    using assms heap(1) by (simp add: timer_inv_def)
  moreover have "cancelApplicationTimers q = Some (count, q')"
    by (simp add: cancelApplicationTimers_def erased count_def [symmetric] q'_def Let_def)
  ultimately show ?thesis
    using heap count by (auto simp: q'_def mset_filter)
qed

section \<open>Expiry\<close>

definition due_entries :: "time_point \<Rightarrow> 'p timer_queue \<Rightarrow> 'p timer_entry multiset" where
  "due_entries now q = filter_mset (\<lambda>e. te_deadline e \<le> now) (mset (tq_heap q))"

lemma due_iff:
  assumes "timer_inv q plain charges"
  shows "due now q \<longleftrightarrow> due_entries now q \<noteq> {#}"
proof (cases "tq_heap q")
  case Nil
  then show ?thesis by (simp add: due_def due_entries_def)
next
  case (Cons e es)
  have "is_heap te_deadline (e # es)" using assms Cons by (simp add: timer_inv_def)
  then have "te_deadline e \<le> te_deadline x" if "x \<in> set es" for x
    using std_heap.heap_front [of te_deadline "e # es" x] that by simp
  then show ?thesis
    using Cons by (force simp: due_def due_entries_def filter_mset_eq_conv)
qed

text \<open>Room for one more entry: a slot and, for an application timer, its bytes.\<close>

definition room_for :: "'p timer_entry \<Rightarrow> 'p timer_queue \<Rightarrow> bool" where
  "room_for e q \<longleftrightarrow> hasEntryCapacity q \<and> hasApplicationByteCapacity q (entry_charge e)"

lemma room_for_payload: "room_for e q \<Longrightarrow> room_for \<lparr>te_deadline = d, te_payload = te_payload e\<rparr> q"
  by (simp add: room_for_def entry_charge_def)

lemma pop_entry_ok:
  assumes inv: "timer_inv q plain charges" and due: "due now q"
  shows "\<exists>e q1. pop_entry q = Some (e, q1) \<and> timer_inv q1 plain charges \<and> te_deadline e \<le> now \<and>
    mset (tq_heap q) = add_mset e (mset (tq_heap q1)) \<and> room_for e q1 \<and> (\<forall>x \<in># due_entries now q1. te_deadline e \<le> te_deadline x)"
proof -
  have ne: "tq_heap q \<noteq> []" and now: "te_deadline (hd (tq_heap q)) \<le> now"
    using due by (auto simp: due_def split: list.splits)
  let ?h = "pop_heap te_deadline (tq_heap q)"
  define e where "e = hd (tq_heap q)"
  define q1 where "q1 = q\<lparr>tq_heap := butlast ?h, application_timer_bytes := application_timer_bytes q - entry_charge e\<rparr>"
  have heap: "is_heap te_deadline (tq_heap q)" using inv by (simp add: timer_inv_def)
  have split: "mset (tq_heap q) = add_mset e (mset (tq_heap q1))"
    using std_heap.pop_split [OF ne] by (simp add: e_def q1_def)
  then have sum: "charge_sum q = unat (entry_charge e) + charge_sum q1"
    by (simp add: charge_sum_def)
  then have enough: "entry_charge e \<le> application_timer_bytes q"
    using inv by (simp add: timer_inv_def word_le_nat_alt)
  have "unat (application_timer_bytes q1) = charge_sum q1"
    using inv sum enough by (simp add: q1_def timer_inv_def unat_sub_le)
  moreover have "length (tq_heap q) = Suc (length (tq_heap q1))" using split by (metis size_add_mset size_mset)
  moreover have "is_heap te_deadline (tq_heap q1)" using std_heap.pop_heap [OF heap] by (simp add: q1_def)
  ultimately have "timer_inv q1 plain charges"
    using inv sum by (simp add: timer_inv_def) (simp add: q1_def)
  moreover have "pop_entry q = Some (e, q1)"
    using enough std_heap.pop_last [OF ne, of te_deadline]
    by (simp add: pop_entry_def Let_def e_def [symmetric] q1_def)
  moreover have "te_deadline e \<le> te_deadline x" if "x \<in># due_entries now q1" for x
    using std_heap.front_min [OF heap ne] that by (simp add: due_entries_def q1_def e_def)
  moreover have "room_for e q1"
    using inv sum \<open>unat (application_timer_bytes q1) = charge_sum q1\<close> \<open>length (tq_heap q) = Suc (length (tq_heap q1))\<close>
    by (simp add: room_for_def timer_inv_def entry_room byte_room) (simp add: q1_def)
  ultimately show ?thesis
    using now split by (auto simp: e_def)
qed

lemma due_entries_add:
  assumes "mset (tq_heap q') = mset (tq_heap q) + added" and "\<forall>x \<in># added. now < te_deadline x"
  shows "due_entries now q' = due_entries now q"
proof -
  have "filter_mset (\<lambda>e. te_deadline e \<le> now) added = {#}" using assms(2) by (auto simp: filter_mset_eq_conv)
  then show ?thesis using assms(1) by (simp add: due_entries_def)
qed

text \<open>
  What the caller's handler must respect when it uses the queue, given room for the timer it was handed:
  it keeps the books, takes no timer out and schedules only after \<open>now\<close>. \<open>logged\<close> records the payloads a
  handler is handed, and the entries it schedules.
\<close>

definition handler_ok :: "time_point \<Rightarrow> nat \<Rightarrow> u64 list \<Rightarrow> ('p, 'w) timer_handler \<Rightarrow> bool" where
  "handler_ok now plain charges h \<longleftrightarrow>
     (\<forall>p w q. timer_inv q plain charges \<longrightarrow> room_for \<lparr>te_deadline = now, te_payload = p\<rparr> q \<longrightarrow>
        timer_inv (snd (h p w q)) plain charges \<and>
        (\<exists>added. mset (tq_heap (snd (h p w q))) = mset (tq_heap q) + added \<and> (\<forall>x \<in># added. now < te_deadline x)))"

type_synonym ('p, 'w) timer_log = "'p timer_payload list \<times> 'p timer_entry multiset \<times> 'w"

definition logged :: "('p, 'w) timer_handler \<Rightarrow> ('p, ('p, 'w) timer_log) timer_handler" where
  "logged h p log q =
     (case log of (payloads, scheduled, w) \<Rightarrow> case h p w q of (w', q') \<Rightarrow>
        ((payloads @ [p], scheduled + (mset (tq_heap q') - mset (tq_heap q)), w'), q'))"

lemma ex_if: "P a x \<Longrightarrow> \<exists>y. P b y \<Longrightarrow> \<exists>y. P (if c then a else b) y"
  by auto

text \<open>
  \<open>expires \<dots> r q log out es\<close>: the loop returned after handling the entries \<open>es\<close> in deadline order, and every
  entry of \<open>q\<close> and every entry the handler scheduled is either among them or in the final queue.
\<close>

definition expires ::
  "time_point \<Rightarrow> count_time_budget \<Rightarrow> nat \<Rightarrow> u64 list \<Rightarrow> expire_result \<Rightarrow> 'p timer_queue \<Rightarrow> 'p timer_payload list \<Rightarrow>
     'p timer_entry multiset \<Rightarrow> (expire_result \<times> ('p, 'w) timer_log \<times> 'p timer_queue) option \<Rightarrow> 'p timer_entry list \<Rightarrow> bool" where
  "expires now budget plain charges r q log scheduled out es \<longleftrightarrow>
     (case out of
        None \<Rightarrow> False
      | Some (r', (log', scheduled', w'), q') \<Rightarrow>
          log' = log @ map te_payload es \<and> timer_inv q' plain charges \<and> sorted (map te_deadline es) \<and>
          list_all (\<lambda>e. te_deadline e \<le> now) es \<and> mset es \<subseteq># due_entries now q \<and>
          mset (tq_heap q) + scheduled' = mset es + mset (tq_heap q') + scheduled \<and>
          (\<exists>added. scheduled' = scheduled + added \<and> (\<forall>x \<in># added. now < te_deadline x)) \<and>
          er_expired r' = er_expired r + length es \<and> er_expired r' \<le> max_count budget \<and>
          (due_items_remain r' \<longrightarrow> due_items_remain r \<or> due_entries now q' \<noteq> {#}) \<and>
          (\<not> budget_exhausted r' \<longrightarrow> due_entries now q' = {#}))"

lemma expires_Cons:
  assumes rest: "expires now budget plain charges (r\<lparr>er_expired := er_expired r + 1\<rparr>) q2 (log @ [te_payload e])
      (scheduled + added) out es"
    and pop: "mset (tq_heap q) = add_mset e (mset (tq_heap q1))" and due: "te_deadline e \<le> now"
    and add: "mset (tq_heap q2) = mset (tq_heap q1) + added" "\<forall>x \<in># added. now < te_deadline x"
    and first: "\<forall>x \<in># due_entries now q1. te_deadline e \<le> te_deadline x"
  shows "expires now budget plain charges r q log scheduled out (e # es)"
proof -
  have q2: "due_entries now q2 = due_entries now q1" by (rule due_entries_add [OF add])
  have q: "due_entries now q = add_mset e (due_entries now q1)" using pop due by (simp add: due_entries_def)
  obtain r' log' scheduled' w' q' where out: "out = Some (r', (log', scheduled', w'), q')"
    using rest by (auto simp: expires_def split: option.splits prod.splits)
  obtain later where later: "scheduled' = scheduled + added + later" "\<forall>x \<in># later. now < te_deadline x"
    using rest by (auto simp: expires_def out)
  have "mset es \<subseteq># due_entries now q1" using rest q2 by (simp add: expires_def out)
  then have "\<forall>x \<in> set es. te_deadline e \<le> te_deadline x" using first by (auto dest: mset_subset_eqD)
  moreover have "mset (tq_heap q) + scheduled' = mset (e # es) + mset (tq_heap q') + scheduled"
    using rest pop add(1) later(1) by (simp add: expires_def out ac_simps)
  moreover have "\<forall>x \<in># added + later. now < te_deadline x" using add(2) later(2) by auto
  ultimately show ?thesis
    using rest due q q2 later(1) by (auto simp: expires_def out add.assoc intro!: exI [of _ "added + later"])
qed

lemma expires_stop:
  assumes "timer_inv q plain charges" and "er_expired r \<le> max_count budget"
    and "due_items_remain r' \<longrightarrow> due_items_remain r \<or> due now q" and "budget_exhausted r' \<or> \<not> due now q"
    and "er_expired r' = er_expired r"
  shows "expires now budget plain charges r q log scheduled (Some (r', (log, scheduled, w), q)) []"
  using assms due_iff [OF assms(1), of now] by (auto simp: expires_def)

lemma expire_loop_exact:
  assumes ok: "handler_ok now plain charges h"
  shows "timer_inv q plain charges \<Longrightarrow> er_expired r \<le> max_count budget \<Longrightarrow>
    \<exists>es. expires now budget plain charges r q log scheduled
      (expire_loop now budget clock (logged h) r (log, scheduled, w) q) es"
proof (induction "max_count budget - er_expired r" arbitrary: r log scheduled w q rule: less_induct)
  case less
  note step = expire_loop.simps [of now budget clock "logged h" r "(log, scheduled, w)" q]
  let ?r = "r\<lparr>er_expired := er_expired r + 1\<rparr>"
  show ?case
  proof (cases "due now q \<and> er_expired r < max_count budget")
    case False
    then show ?thesis
      using less(2,3) by (auto simp: step intro!: exI [of _ "[]"] expires_stop)
  next
    case True
    then obtain e q1 where pop: "pop_entry q = Some (e, q1)" "timer_inv q1 plain charges" "te_deadline e \<le> now"
      "mset (tq_heap q) = add_mset e (mset (tq_heap q1))" "room_for e q1" "\<forall>x \<in># due_entries now q1. te_deadline e \<le> te_deadline x"
      using pop_entry_ok [OF less(2)] by blast
    obtain w2 q2 where h: "h (te_payload e) w q1 = (w2, q2)" by fastforce
    obtain added where q2: "timer_inv q2 plain charges" "mset (tq_heap q2) = mset (tq_heap q1) + added"
        "\<forall>x \<in># added. now < te_deadline x"
      using ok [unfolded handler_ok_def, rule_format, OF pop(2) room_for_payload [OF pop(5)], of w] by (auto simp: h)
    let ?log = "log @ [te_payload e]" and ?sch = "scheduled + added"
    let ?stop = "er_expired ?r mod 64 = 0 \<and> clock (er_expired ?r) - clock 0 \<ge> max_duration budget"
    let ?last = "Some (?r\<lparr>budget_exhausted := True, due_items_remain := due now q2 \<or> due_items_remain ?r\<rparr>,
        (?log, ?sch, w2), q2)"
    let ?more = "expire_loop now budget clock (logged h) ?r (?log, ?sch, w2) q2"
    have dec: "max_count budget - er_expired ?r < max_count budget - er_expired r" "er_expired ?r \<le> max_count budget"
      using True by auto
    have stop: "expires now budget plain charges ?r q2 ?log ?sch ?last []"
      using q2(1) dec(2) by (intro expires_stop) auto
    have more: "\<exists>es. expires now budget plain charges ?r q2 ?log ?sch ?more es"
      by (rule less(1) [OF dec(1) q2(1) dec(2)])
    obtain es where "expires now budget plain charges ?r q2 ?log ?sch (if ?stop then ?last else ?more) es"
      using ex_if [of "expires now budget plain charges ?r q2 ?log ?sch", OF stop more, of ?stop] ..
    then have "expires now budget plain charges r q log scheduled (if ?stop then ?last else ?more) (e # es)"
      by (rule expires_Cons [OF _ pop(4,3) q2(2,3) pop(6)])
    moreover have "expire_loop now budget clock (logged h) r (log, scheduled, w) q = (if ?stop then ?last else ?more)"
      using True pop(1) q2(2) by (simp add: step logged_def h)
    ultimately show ?thesis by (intro exI [of _ "e # es"]) simp
  qed
qed

definition expire_start :: expire_result where
  "expire_start = \<lparr>er_expired = 0, due_items_remain = False, budget_exhausted = False\<rparr>"

lemma expire_started:
  assumes "timer_inv q plain charges" and "handler_ok now plain charges h"
  shows "\<exists>es. expires now budget plain charges expire_start q [] {#}
    (expire_loop now budget clock (logged h) expire_start ([], {#}, w) q) es"
  by (rule expire_loop_exact [OF assms(2,1)]) (simp add: expire_start_def)

text \<open>
  C39: Timers fire in deadline order and none is lost. Let the handler, when there is room for the timer it
  was handed, keep the books, take no timer out of the queue and schedule only after \<open>now\<close>. Then an expiry
  pass returns; it hands the handler due timers in the order of their deadlines, at most \<open>max_count\<close> of them;
  every timer that was in the queue or was scheduled by the handler is afterwards either among those
  handed over or still in the queue, and nothing else is; due timers are reported exactly when some remain;
  and when the budget was not exhausted none remains.
\<close>

theorem expire_in_deadline_order:
  assumes "timer_inv q plain charges" and "handler_ok now plain charges h"
  shows "\<exists>res log scheduled w' q' es.
    expire now budget clock (logged h) ([], {#}, w) q = Some (res, (log, scheduled, w'), q') \<and>
    log = map te_payload es \<and> sorted (map te_deadline es) \<and> length es \<le> max_count budget \<and>
    er_expired res = length es \<and> mset (tq_heap q) + scheduled = mset es + mset (tq_heap q') \<and>
    filter_mset (\<lambda>x. te_deadline x \<le> now) scheduled = {#} \<and> due_entries now q = mset es + due_entries now q' \<and>
    (due_items_remain res \<longleftrightarrow> due_entries now q' \<noteq> {#}) \<and>
    (budget_exhausted res \<or> due_entries now q' = {#}) \<and> timer_inv q' plain charges"
proof -
  obtain es where "expires now budget plain charges expire_start q [] {#}
      (expire_loop now budget clock (logged h) expire_start ([], {#}, w) q) es"
    using expire_started [OF assms] ..
  then obtain r' log scheduled w' q' where
      loop: "expire_loop now budget clock (logged h) expire_start ([], {#}, w) q = Some (r', (log, scheduled, w'), q')"
    and es: "log = map te_payload es" "timer_inv q' plain charges" "sorted (map te_deadline es)"
      "list_all (\<lambda>e. te_deadline e \<le> now) es" "er_expired r' = length es" "length es \<le> max_count budget"
      "due_items_remain r' \<longrightarrow> due_entries now q' \<noteq> {#}" "budget_exhausted r' \<or> due_entries now q' = {#}"
    and all: "mset (tq_heap q) + scheduled = mset es + mset (tq_heap q')" "\<forall>x \<in># scheduled. now < te_deadline x"
    by (auto simp: expires_def expire_start_def split: option.splits prod.splits)
  have none: "filter_mset (\<lambda>x. te_deadline x \<le> now) scheduled = {#}" using all(2) by (auto simp: filter_mset_eq_conv)
  have "filter_mset (\<lambda>x. te_deadline x \<le> now) (mset es) = mset es" using es(4) by (simp add: list_all_iff filter_mset_eq_conv)
  then have due: "due_entries now q = mset es + due_entries now q'"
    using arg_cong [OF all(1), of "filter_mset (\<lambda>x. te_deadline x \<le> now)"] none by (simp add: due_entries_def)
  show ?thesis
    using es due_iff [OF es(2), of now] loop all(1) none due
    by (intro exI [of _ "if due now q' then r'\<lparr>due_items_remain := True\<rparr> else r'"] exI [of _ log] exI [of _ scheduled]
        exI [of _ w'] exI [of _ q'] exI [of _ es]) (auto simp: expire_def expire_start_def [symmetric])
qed

text \<open>What a handler keeps of the books and of the caller's state, a whole pass keeps.\<close>

lemma expire_loop_keeps:
  assumes step: "\<And>p w q. timer_inv q plain charges \<Longrightarrow> room_for \<lparr>te_deadline = now, te_payload = p\<rparr> q \<Longrightarrow> J w \<Longrightarrow>
      timer_inv (snd (h p w q)) plain charges \<and> J (fst (h p w q))"
  shows "timer_inv q plain charges \<Longrightarrow> J w \<Longrightarrow>
    \<exists>r' w' q'. expire_loop now budget clock h r w q = Some (r', w', q') \<and> timer_inv q' plain charges \<and> J w'"
proof (induction "max_count budget - er_expired r" arbitrary: r w q rule: less_induct)
  case less
  note unfold = expire_loop.simps [of now budget clock h r w q]
  show ?case
  proof (cases "due now q \<and> er_expired r < max_count budget")
    case False
    then show ?thesis using less(2,3) by (auto simp: unfold)
  next
    case True
    then obtain e q1 where pop: "pop_entry q = Some (e, q1)" "timer_inv q1 plain charges" "room_for e q1"
      using pop_entry_ok [OF less(2)] by blast
    obtain w2 q2 where h: "h (te_payload e) w q1 = (w2, q2)" by fastforce
    have q2: "timer_inv q2 plain charges" "J w2" using step [OF pop(2) room_for_payload [OF pop(3)] less(3)] by (simp_all add: h)
    let ?r = "r\<lparr>er_expired := er_expired r + 1\<rparr>"
    have "max_count budget - er_expired ?r < max_count budget - er_expired r" using True by auto
    from less(1) [OF this q2] show ?thesis using True pop(1) q2 by (auto simp: unfold h Let_def)
  qed
qed

lemma expire_keeps:
  assumes "\<And>p w q. timer_inv q plain charges \<Longrightarrow> room_for \<lparr>te_deadline = now, te_payload = p\<rparr> q \<Longrightarrow> J w \<Longrightarrow>
      timer_inv (snd (h p w q)) plain charges \<and> J (fst (h p w q))"
    and "timer_inv q plain charges" and "J w"
  shows "\<exists>r' w' q'. expire now budget clock h w q = Some (r', w', q') \<and> timer_inv q' plain charges \<and> J w'"
proof -
  obtain r' w' q' where "expire_loop now budget clock h \<lparr>er_expired = 0, due_items_remain = False, budget_exhausted = False\<rparr> w q =
      Some (r', w', q')" "timer_inv q' plain charges" "J w'"
    using expire_loop_keeps [where J = J and h = h and now = now and plain = plain and charges = charges and q = q and w = w,
        OF assms(1) assms(2,3)] by blast
  then show ?thesis by (simp add: expire_def)
qed

section \<open>The reservation protocol\<close>

text \<open>
  The worker's calls on its queue. The handler it expires timers with puts an application timer whose
  mailbox is saturated back into the queue, one millisecond later (\<^verbatim>\<open>src/worker/worker.cpp\<close>); \<open>saturated\<close> says
  for which of the timers handed over this is the case, and the flag records that a timer could not be put
  back. A caller releases or commits a reservation only while it holds it, commits an application timer with
  the reserved charge, commits a plain reservation with a plain timer, and sets a byte limit no lower than
  what is in use; anything else is \<open>Misused\<close> and is not passed on. \<open>Terminated\<close> is a failed
  \<open>requireInvariant\<close> or the exception for a timer that could not be put back.
\<close>

definition onTimer_retry :: "time_point \<Rightarrow> ('p, bool list \<times> bool) timer_handler" where
  "onTimer_retry now payload w q =
     (case w of
        ([], failed) \<Rightarrow> (([], failed), q)
      | (saturated # rest, failed) \<Rightarrow>
          if saturated \<and> is_application \<lparr>te_deadline = now, te_payload = payload\<rparr>
          then case trySchedule q (after_ms now 1) payload of (scheduled, q') \<Rightarrow> ((rest, failed \<or> \<not> scheduled), q')
          else ((rest, failed), q))"

datatype 'p timer_call =
  CallSchedule time_point "'p timer_payload"
| CallReserve
| CallRelease
| CallCommit time_point "'p timer_payload"
| CallReserveApplication u64
| CallReleaseApplication u64
| CallCommitApplication time_point activation_ref "'p actor_envelope"
| CallCancel
| CallSetMaxBytes u64
| CallExpire time_point count_time_budget "nat \<Rightarrow> time_point" "bool list"

datatype timer_outcome = Done | Refused | Misused | Terminated

record 'p timer_client =
  tc_queue :: "'p timer_queue"
  tc_plain :: nat
  tc_charges :: "u64 list"

definition outcome_of :: "bool \<Rightarrow> timer_outcome" where
  "outcome_of ok = (if ok then Done else Refused)"

definition checked :: "'p timer_queue option \<Rightarrow> nat \<Rightarrow> u64 list \<Rightarrow> 'p timer_client \<Rightarrow> timer_outcome \<times> 'p timer_client" where
  "checked r plain charges c =
     (case r of None \<Rightarrow> (Terminated, c) | Some q \<Rightarrow> (Done, \<lparr>tc_queue = q, tc_plain = plain, tc_charges = charges\<rparr>))"

fun timer_client_step :: "'p timer_client \<Rightarrow> 'p timer_call \<Rightarrow> timer_outcome \<times> 'p timer_client" where
  "timer_client_step c (CallSchedule d p) =
     (let (ok, q) = trySchedule (tc_queue c) d p in (outcome_of ok, c\<lparr>tc_queue := q\<rparr>))"
| "timer_client_step c CallReserve =
     (let (ok, q) = tryReserve (tc_queue c)
      in (outcome_of ok, c\<lparr>tc_queue := q, tc_plain := (if ok then Suc (tc_plain c) else tc_plain c)\<rparr>))"
| "timer_client_step c CallRelease =
     (if tc_plain c = 0 then (Misused, c)
      else checked (releaseReservation (tc_queue c)) (tc_plain c - 1) (tc_charges c) c)"
| "timer_client_step c (CallCommit d p) =
     (if tc_plain c = 0 \<or> is_application \<lparr>te_deadline = d, te_payload = p\<rparr> then (Misused, c)
      else checked (commitReserved (tc_queue c) d p) (tc_plain c - 1) (tc_charges c) c)"
| "timer_client_step c (CallReserveApplication b) =
     (let (ok, q) = tryReserveApplicationTimer (tc_queue c) b
      in (outcome_of ok, c\<lparr>tc_queue := q, tc_charges := (if ok then b # tc_charges c else tc_charges c)\<rparr>))"
| "timer_client_step c (CallReleaseApplication b) =
     (if b \<notin> set (tc_charges c) then (Misused, c)
      else checked (releaseApplicationTimerReservation (tc_queue c) b) (tc_plain c) (remove1 b (tc_charges c)) c)"
| "timer_client_step c (CallCommitApplication d t m) =
     (if chargedBytes m \<notin> set (tc_charges c) then (Misused, c)
      else checked (commitReservedApplicationTimer (tc_queue c) d t m (chargedBytes m))
             (tc_plain c) (remove1 (chargedBytes m) (tc_charges c)) c)"
| "timer_client_step c CallCancel =
     checked (map_option snd (cancelApplicationTimers (tc_queue c))) (tc_plain c) (tc_charges c) c"
| "timer_client_step c (CallSetMaxBytes b) =
     (if charge_sum (tc_queue c) + sum_list (map unat (tc_charges c)) > unat b then (Misused, c)
      else checked (setMaxApplicationTimerBytes (tc_queue c) b) (tc_plain c) (tc_charges c) c)"
| "timer_client_step c (CallExpire now budget clock saturated) =
     (case expire now budget clock (onTimer_retry now) (saturated, False) (tc_queue c) of
        None \<Rightarrow> (Terminated, c)
      | Some (res, (rest, failed), q) \<Rightarrow> (if failed then Terminated else Done, c\<lparr>tc_queue := q\<rparr>))"

definition client_inv :: "'p timer_client \<Rightarrow> bool" where
  "client_inv c \<longleftrightarrow> timer_inv (tc_queue c) (tc_plain c) (tc_charges c)"

lemma checked_ok:
  "case r of None \<Rightarrow> False | Some q \<Rightarrow> timer_inv q plain charges \<Longrightarrow>
     client_inv (snd (checked r plain charges c)) \<and> fst (checked r plain charges c) \<noteq> Terminated"
  by (simp add: checked_def client_inv_def split: option.splits)

lemma trySchedule_room:
  assumes "room_for \<lparr>te_deadline = d, te_payload = p\<rparr> q"
  shows "fst (trySchedule q d' p) \<and>
    mset (tq_heap (snd (trySchedule q d' p))) = add_mset \<lparr>te_deadline = d', te_payload = p\<rparr> (mset (tq_heap q))"
  using assms by (auto simp: room_for_def trySchedule_def Let_def entry_charge_def)

text \<open>The worker's handler respects the queue, and there is always room to put a timer back.\<close>

lemma onTimer_retry_step:
  assumes "timer_inv q plain charges" and "room_for \<lparr>te_deadline = now, te_payload = p\<rparr> q" and "\<not> snd w"
  shows "timer_inv (snd (onTimer_retry now p w q)) plain charges \<and> \<not> snd (fst (onTimer_retry now p w q))"
  using assms trySchedule_inv [OF assms(1), of "after_ms now 1" p] trySchedule_room [OF assms(2), of "after_ms now 1"]
  by (cases w) (auto simp: onTimer_retry_def split: list.split prod.split)

lemma onTimer_retry_ok: "handler_ok now plain charges (onTimer_retry now)"
  unfolding handler_ok_def
proof (intro allI impI conjI)
  fix p w and q :: "'a timer_queue"
  assume q: "timer_inv q plain charges" and room: "room_for \<lparr>te_deadline = now, te_payload = p\<rparr> q"
  show "timer_inv (snd (onTimer_retry now p w q)) plain charges"
    using q trySchedule_inv [OF q, of "after_ms now 1" p]
    by (cases w) (auto simp: onTimer_retry_def split: list.split prod.split)
  have later: "now < after_ms now 1" by (simp add: after_ms_def)
  have "mset (tq_heap (snd (onTimer_retry now p w q))) \<in>
      {mset (tq_heap q) + {#}, mset (tq_heap q) + {#\<lparr>te_deadline = after_ms now 1, te_payload = p\<rparr>#}}"
    using trySchedule_room [OF room, of "after_ms now 1"]
    by (cases w) (auto simp: onTimer_retry_def split: list.split prod.split)
  then show "\<exists>added. mset (tq_heap (snd (onTimer_retry now p w q))) = mset (tq_heap q) + added \<and>
      (\<forall>x \<in># added. now < te_deadline x)"
    using later by (elim insertE emptyE) (fastforce intro: exI [of _ "{#}"])+
qed

lemma setMax_keeps:
  assumes "timer_inv q plain charges" and "charge_sum q + sum_list (map unat charges) \<le> unat b"
  shows "case setMaxApplicationTimerBytes q b of None \<Rightarrow> False | Some q' \<Rightarrow> timer_inv q' plain charges"
  using assms by (auto simp: setMaxApplicationTimerBytes_def timer_inv_def word_le_nat_alt unat_sub_le)

lemma cancel_keeps:
  assumes "timer_inv q plain charges"
  shows "case map_option snd (cancelApplicationTimers q) of None \<Rightarrow> False | Some q' \<Rightarrow> timer_inv q' plain charges"
  using cancelApplicationTimers_exact [OF assms] by auto

lemma timer_client_step_ok:
  assumes inv: "client_inv c"
  shows "client_inv (snd (timer_client_step c call)) \<and> fst (timer_client_step c call) \<noteq> Terminated"
proof -
  note q = inv [unfolded client_inv_def]
  show ?thesis
  proof (cases call)
    case (CallSchedule d p)
    then show ?thesis
      using trySchedule_inv [OF q, of d p] by (simp add: client_inv_def outcome_of_def case_prod_beta Let_def)
  next
    case CallReserve
    then show ?thesis
      using tryReserve_inv [OF q] by (simp add: client_inv_def outcome_of_def case_prod_beta Let_def)
  next
    case CallRelease
    then show ?thesis
    proof (cases "tc_plain c")
      case (Suc n)
      then show ?thesis
        using inv q CallRelease releaseReservation_inv [of "tc_queue c" n "tc_charges c"] by (simp add: checked_ok)
    qed (use inv in simp)
  next
    case (CallCommit d p)
    then show ?thesis
    proof (cases "tc_plain c")
      case (Suc n)
      then show ?thesis
        using inv q CallCommit commitReserved_inv [of "tc_queue c" n "tc_charges c" d p] by (simp add: checked_ok)
    qed (use inv in simp)
  next
    case (CallReserveApplication b)
    then show ?thesis
      using tryReserveApplicationTimer_inv [OF q, of b] by (simp add: client_inv_def outcome_of_def case_prod_beta Let_def)
  next
    case (CallReleaseApplication b)
    then show ?thesis using inv releaseApplication_inv [OF q, of b] by (simp add: checked_ok)
  next
    case (CallCommitApplication d t m)
    then show ?thesis using inv commitApplication_inv [OF q, of m d t] by (simp add: checked_ok)
  next
    case CallCancel
    then show ?thesis using checked_ok [OF cancel_keeps [OF q]] by simp
  next
    case (CallSetMaxBytes b)
    then show ?thesis using inv checked_ok [OF setMax_keeps [OF q, of b]] by simp
  next
    case (CallExpire now budget clock saturated)
    obtain r' w' q' where "expire now budget clock (onTimer_retry now) (saturated, False) (tc_queue c) = Some (r', w', q')"
        "timer_inv q' (tc_plain c) (tc_charges c)" "\<not> snd w'"
      using expire_keeps [where J = "\<lambda>w. \<not> snd w" and w = "(saturated, False)" and h = "onTimer_retry now" and now = now
          and plain = "tc_plain c" and charges = "tc_charges c" and budget = budget and clock = clock,
          OF onTimer_retry_step q] by auto
    then show ?thesis using CallExpire by (cases w') (simp add: client_inv_def)
  qed
qed

interpretation timers: invariant_machine timer_client_step "\<lambda>call. True" client_inv
  by unfold_locales (simp add: timer_client_step_ok)

definition fresh_client :: "u64 \<Rightarrow> 'p timer_client" where
  "fresh_client limit = \<lparr>tc_queue = make_timer_queue limit, tc_plain = 0, tc_charges = []\<rparr>"

lemma fresh_client_inv: "client_inv (fresh_client limit)"
  by (simp add: client_inv_def fresh_client_def timer_inv_def make_timer_queue_def charge_sum_def std_heap.heap_Nil)

text \<open>
  C40: The timer queue never terminates the process. Callers that use only reservations they hold
  run any sequence of calls, changes of the byte limit, cancellation and expiry included, without a failed
  \<open>requireInvariant\<close>; and during expiry the worker's handler can always put a timer back.
  Afterwards scheduled timers and reservations together fit the capacity, and the charges of the
  scheduled and reserved application timers together fit the byte limit.
\<close>

theorem timers_never_terminate:
  "case run timer_client_step (fresh_client limit) calls of
     (outcomes, c) \<Rightarrow>
       list_all (\<lambda>r. r \<noteq> Terminated) outcomes \<and>
       length (tq_heap (tc_queue c)) + tc_plain c + length (tc_charges c) \<le> TIMER_CAPACITY \<and>
       charge_sum (tc_queue c) + sum_list (map unat (tc_charges c)) \<le> unat (max_application_timer_bytes (tc_queue c))"
proof -
  have "list_all (\<lambda>r. r \<noteq> Terminated) (fst (run timer_client_step (fresh_client limit) calls))"
    by (rule run_all_steps [where J = client_inv]) (simp_all add: timer_client_step_ok fresh_client_inv)
  moreover have "client_inv (snd (run timer_client_step (fresh_client limit) calls))"
    by (rule timers.run_inv [OF fresh_client_inv]) (simp add: list_all_iff)
  ultimately show ?thesis by (simp add: client_inv_def timer_inv_def case_prod_beta)
qed

section \<open>Three timers\<close>

definition close_timer :: "nat \<Rightarrow> nat timer_payload" where
  "close_timer n = ConnectionCloseDeadline \<lparr>ch_id = of_nat n, ch_generation = 1\<rparr>"

definition three_timers :: "nat timer_client" where
  "three_timers = snd (run timer_client_step (fresh_client 1000)
     [CallSchedule 30 (close_timer 3), CallSchedule 10 (close_timer 1), CallSchedule 20 (close_timer 2)])"

definition small_budget :: count_time_budget where
  "small_budget = \<lparr>max_count = 8, max_duration = 1000\<rparr>"

lemma three_timers_inv: "timer_inv (tc_queue three_timers) (tc_plain three_timers) (tc_charges three_timers)"
  unfolding three_timers_def client_inv_def [symmetric]
  by (rule timers.run_inv [OF fresh_client_inv]) simp

theorem expire_in_deadline_order_witness:
  "(\<exists>res log scheduled w' q' es.
      expire 25 small_budget (\<lambda>k. 0) (logged (onTimer_retry 25)) ([], {#}, ([], False)) (tc_queue three_timers) =
      Some (res, (log, scheduled, w'), q') \<and>
    log = map te_payload es \<and> sorted (map te_deadline es) \<and> length es \<le> max_count small_budget \<and>
    er_expired res = length es \<and> mset (tq_heap (tc_queue three_timers)) + scheduled = mset es + mset (tq_heap q') \<and>
    filter_mset (\<lambda>x. te_deadline x \<le> 25) scheduled = {#} \<and>
    due_entries 25 (tc_queue three_timers) = mset es + due_entries 25 q' \<and>
    (due_items_remain res \<longleftrightarrow> due_entries 25 q' \<noteq> {#}) \<and> (budget_exhausted res \<or> due_entries 25 q' = {#}) \<and>
    timer_inv q' (tc_plain three_timers) (tc_charges three_timers)) \<and>
   map_option (\<lambda>(res, (log, scheduled, w), q). log)
     (expire 25 small_budget (\<lambda>k. 0) (logged (onTimer_retry 25)) ([], {#}, ([], False)) (tc_queue three_timers)) =
     Some [close_timer 1, close_timer 2]"
  by (rule conjI, rule expire_in_deadline_order [OF three_timers_inv onTimer_retry_ok], code_simp)

end
