(* ===== verification/Request_Sink.thy ===== *)
theory Request_Sink
  imports Messages Timer_Queue
begin

text \<open>
  The request sink of a worker, \<^verbatim>\<open>src/adapter/game_request_sink.cpp\<close>: it routes the frames of a
  connection to the actor of the player whose login was posted on it, and keeps telling that actor about the
  close of the connection until the notification is received. The results of the worker's calls are
  arguments: of \<open>tell\<close> its delivery result, of \<open>notifyActorConnectionClosed\<close> the receipt it
  delivers before it returns, if any; the clock is a parameter. What the sink asks of the worker is
  its list of effects.
\<close>

section \<open>State\<close>

datatype session_record_state = RecordFree | RecordTracked | RecordClosing

record session_record =
  sr_state :: session_record_state
  sr_connection :: connection_ref
  sr_player :: player_id

record session =
  se_generation :: connection_generation
  se_player :: player_id
  se_record_index :: nat

record request_sink =
  rs_worker :: worker_id
  rs_sessions :: "(connection_id, session) map"
  rs_live_sessions :: nat
  rs_records :: "session_record list"
  rs_pending_closes :: nat
  rs_cancelled_closes :: nat
  rs_next_retry_deadline :: "time_point option"
  rs_retry_cursor :: nat

definition MAX_TRACKED_SESSIONS :: nat where
  "MAX_TRACKED_SESSIONS = 1024"

definition no_connection :: connection_ref where
  "no_connection = \<lparr>cr_id = 0, cr_generation = 0, cr_owner = 0\<rparr>"

definition free_record :: session_record where
  "free_record = \<lparr>sr_state = RecordFree, sr_connection = no_connection, sr_player = 0\<rparr>"

definition GameRequestSink :: "worker_id \<Rightarrow> request_sink" where
  "GameRequestSink worker =
     \<lparr>rs_worker = worker, rs_sessions = (\<lambda>_. None), rs_live_sessions = 0,
      rs_records = replicate MAX_TRACKED_SESSIONS free_record, rs_pending_closes = 0, rs_cancelled_closes = 0,
      rs_next_retry_deadline = None, rs_retry_cursor = 0\<rparr>"

datatype request_post_result = PostAccepted | PostInvalid | PostRejected

datatype actor_connection_closed_result = MailboxAccepted | ActorAbsent

datatype sink_effect =
  TellActor actor_key game_message
| SendFrame connection_ref frame
| NotifyClosed actor_key connection_ref game_message

section \<open>Posting a frame\<close>

definition playerFor :: "request_sink \<Rightarrow> connection_ref \<Rightarrow> player_id option" where
  "playerFor s connection =
     (case rs_sessions s (cr_id connection) of
        None \<Rightarrow> None
      | Some session \<Rightarrow> if se_generation session \<noteq> cr_generation connection then None else Some (se_player session))"

definition post_result :: "delivery_result \<Rightarrow> request_post_result" where
  "post_result delivery = (if delivery = DeliveryAccepted then PostAccepted else PostRejected)"

definition authenticate_message :: "connection_ref \<Rightarrow> frame \<Rightarrow> player_id \<Rightarrow> game_message" where
  "authenticate_message connection f player =
     PlayerCommandMessage (Some connection) (frame_request_id f) (AuthenticateCommand player)"

definition first_index :: "('a \<Rightarrow> bool) \<Rightarrow> 'a list \<Rightarrow> nat option" where
  "first_index P xs = (let i = length (takeWhile (\<lambda>x. \<not> P x) xs) in if i < length xs then Some i else None)"

definition postAuthenticate ::
    "request_sink \<Rightarrow> connection_ref \<Rightarrow> frame \<Rightarrow> delivery_result \<Rightarrow>
     (request_post_result \<times> sink_effect list) \<times> request_sink" where
  "postAuthenticate s connection f delivery =
     (case decodePlayerId (frame_payload f) of
        None \<Rightarrow> ((PostInvalid, []), s)
      | Some player \<Rightarrow>
          (case rs_sessions s (cr_id connection) of
             Some session \<Rightarrow>
               if se_generation session \<noteq> cr_generation connection then ((PostInvalid, []), s)
               else if se_player session \<noteq> player then ((PostInvalid, []), s)
               else ((post_result delivery, [TellActor (playerKey player) (authenticate_message connection f player)]), s)
           | None \<Rightarrow>
               if \<exists>r \<in> set (rs_records s). sr_state r = RecordClosing \<and> sr_connection r = connection
               then ((PostInvalid, []), s)
               else case first_index (\<lambda>r. sr_state r = RecordFree) (rs_records s) of
                 None \<Rightarrow> ((PostRejected, []), s)
               | Some record_idx \<Rightarrow>
                   let s1 = s\<lparr>rs_records := (rs_records s)[record_idx :=
                          \<lparr>sr_state = RecordTracked, sr_connection = connection, sr_player = player\<rparr>],
                        rs_sessions := (rs_sessions s)(cr_id connection \<mapsto>
                          \<lparr>se_generation = cr_generation connection, se_player = player, se_record_index = record_idx\<rparr>),
                        rs_live_sessions := rs_live_sessions s + 1\<rparr>;
                      effects = [TellActor (playerKey player) (authenticate_message connection f player)]
                   in if delivery \<noteq> DeliveryAccepted
                      then ((PostRejected, effects),
                            s1\<lparr>rs_sessions := (rs_sessions s1)(cr_id connection := None),
                              rs_records := (rs_records s1)[record_idx := free_record],
                              rs_live_sessions := rs_live_sessions s1 - 1\<rparr>)
                      else ((PostAccepted, effects), s1)))"

definition postPing ::
    "request_sink \<Rightarrow> connection_ref \<Rightarrow> frame \<Rightarrow> delivery_result \<Rightarrow> request_post_result \<times> sink_effect list" where
  "postPing s connection f delivery =
     (case playerFor s connection of
        None \<Rightarrow> (PostAccepted, [SendFrame connection \<lparr>frame_type = message_code MtPong,
                  frame_request_id = frame_request_id f, frame_payload = frame_payload f\<rparr>])
      | Some player \<Rightarrow> (post_result delivery,
          [TellActor (playerKey player) (PingMessage connection (frame_request_id f) (frame_payload f))]))"

definition postPlayerCommand ::
    "request_sink \<Rightarrow> connection_ref \<Rightarrow> frame \<Rightarrow> (bytes \<Rightarrow> player_command option) \<Rightarrow> delivery_result \<Rightarrow>
     request_post_result \<times> sink_effect list" where
  "postPlayerCommand s connection f decoder delivery =
     (case playerFor s connection of
        None \<Rightarrow> (PostInvalid, [])
      | Some player \<Rightarrow> (case decoder (frame_payload f) of
          None \<Rightarrow> (PostInvalid, [])
        | Some command \<Rightarrow> (post_result delivery,
            [TellActor (playerKey player) (PlayerCommandMessage (Some connection) (frame_request_id f) command)])))"

definition postZoneRequest ::
    "request_sink \<Rightarrow> connection_ref \<Rightarrow> frame \<Rightarrow> (bytes \<Rightarrow> zone_request option) \<Rightarrow> delivery_result \<Rightarrow>
     request_post_result \<times> sink_effect list" where
  "postZoneRequest s connection f decoder delivery =
     (case playerFor s connection of
        None \<Rightarrow> (PostInvalid, [])
      | Some player \<Rightarrow> (case decoder (frame_payload f) of
          None \<Rightarrow> (PostInvalid, [])
        | Some request \<Rightarrow> (post_result delivery,
            [TellActor (playerKey player) (PlayerZoneRequestMessage connection (frame_request_id f) request)])))"

definition postRoomRequest ::
    "request_sink \<Rightarrow> connection_ref \<Rightarrow> frame \<Rightarrow> (bytes \<Rightarrow> room_request option) \<Rightarrow> delivery_result \<Rightarrow>
     request_post_result \<times> sink_effect list" where
  "postRoomRequest s connection f decoder delivery =
     (case playerFor s connection of
        None \<Rightarrow> (PostInvalid, [])
      | Some player \<Rightarrow> (case decoder (frame_payload f) of
          None \<Rightarrow> (PostInvalid, [])
        | Some request \<Rightarrow> (post_result delivery,
            [TellActor (playerKey player) (PlayerRoomRequestMessage connection (frame_request_id f) request)])))"

definition tryPost ::
    "request_sink \<Rightarrow> connection_ref \<Rightarrow> frame \<Rightarrow> delivery_result \<Rightarrow>
     (request_post_result \<times> sink_effect list) \<times> request_sink" where
  "tryPost s connection f delivery =
     (if frame_type f = message_code MtAuthenticate then postAuthenticate s connection f delivery
      else (
        if frame_type f = message_code MtPing then postPing s connection f delivery
        else if frame_type f = message_code MtPurchase then postPlayerCommand s connection f decodePurchase delivery
        else if frame_type f = message_code MtEquipSkill then postPlayerCommand s connection f decodeEquipSkill delivery
        else if frame_type f = message_code MtEnterZone then postZoneRequest s connection f decodeEnterZone delivery
        else if frame_type f = message_code MtMove then postZoneRequest s connection f decodeMove delivery
        else if frame_type f = message_code MtLeaveZone then postZoneRequest s connection f decodeLeave delivery
        else if frame_type f = message_code MtRoomJoin then postRoomRequest s connection f decodeRoomJoin delivery
        else if frame_type f = message_code MtBattleStart then postRoomRequest s connection f decodeBattleStart delivery
        else if frame_type f = message_code MtRoomLeave then postRoomRequest s connection f decodeRoomLeave delivery
        else if frame_type f = message_code MtUseSkill then postRoomRequest s connection f decodeUseSkill delivery
        else if frame_type f = message_code MtSetMoveIntent then postRoomRequest s connection f decodeSetMoveIntent delivery
        else (PostInvalid, []), s))"

section \<open>Closing a connection\<close>

definition onActorConnectionClosedReceipt ::
    "request_sink \<Rightarrow> actor_key \<Rightarrow> connection_ref \<Rightarrow> actor_connection_closed_result \<Rightarrow> request_sink" where
  "onActorConnectionClosedReceipt s key connection result =
     (if cr_owner connection \<noteq> rs_worker s then s
      else if result \<noteq> MailboxAccepted \<and> result \<noteq> ActorAbsent then s
      else case first_index (\<lambda>r. sr_state r = RecordClosing \<and> sr_connection r = connection \<and> playerKey (sr_player r) = key)
          (rs_records s) of
        None \<Rightarrow> s
      | Some i \<Rightarrow>
          s\<lparr>rs_records := (rs_records s)[i := free_record], rs_pending_closes := rs_pending_closes s - 1,
            rs_next_retry_deadline := (if rs_pending_closes s - 1 = 0 then None else rs_next_retry_deadline s)\<rparr>)"

text \<open>
  A call of \<open>notifyActorConnectionClosed\<close>: when the actor lives on this worker, its receipt comes back
  before the call returns; otherwise it comes later, or the call was refused.
\<close>

definition notify_closed ::
    "request_sink \<Rightarrow> player_id \<Rightarrow> connection_ref \<Rightarrow> actor_connection_closed_result option \<Rightarrow> sink_effect \<times> request_sink" where
  "notify_closed s player connection receipt =
     (NotifyClosed (playerKey player) connection (PlayerConnectionClosedMessage connection),
      case receipt of None \<Rightarrow> s | Some result \<Rightarrow> onActorConnectionClosedReceipt s (playerKey player) connection result)"

definition onConnectionClosed ::
    "request_sink \<Rightarrow> connection_ref \<Rightarrow> close_reason \<Rightarrow> time_point \<Rightarrow> actor_connection_closed_result option \<Rightarrow>
     sink_effect list \<times> request_sink" where
  "onConnectionClosed s connection reason now receipt =
     (if cr_owner connection \<noteq> rs_worker s then ([], s)
      else case rs_sessions s (cr_id connection) of
        None \<Rightarrow> ([], s)
      | Some session \<Rightarrow>
          if se_generation session \<noteq> cr_generation connection then ([], s)
          else if se_record_index session \<ge> MAX_TRACKED_SESSIONS then ([], s)
          else let r = rs_records s ! se_record_index session
            in if sr_state r \<noteq> RecordTracked \<or> sr_connection r \<noteq> connection \<or> sr_player r \<noteq> se_player session
               then ([], s)
               else let pass_deadline = after_ms now 10;
                   s1 = s\<lparr>rs_records := (rs_records s)[se_record_index session := r\<lparr>sr_state := RecordClosing\<rparr>],
                     rs_pending_closes := rs_pending_closes s + 1,
                     rs_next_retry_deadline := Some (case rs_next_retry_deadline s of
                       None \<Rightarrow> pass_deadline | Some d \<Rightarrow> min d pass_deadline),
                     rs_sessions := (rs_sessions s)(cr_id connection := None),
                     rs_live_sessions := rs_live_sessions s - 1\<rparr>
                 in case notify_closed s1 (sr_player r) (sr_connection r) receipt of (e, s2) \<Rightarrow> ([e], s2))"

definition nextActorConnectionCloseRetryDeadline :: "request_sink \<Rightarrow> time_point option" where
  "nextActorConnectionCloseRetryDeadline s =
     (if rs_pending_closes s = 0 then None else rs_next_retry_deadline s)"

text \<open>
  The scan of a retry pass: \<open>n\<close> records are left to scan and \<open>scanned\<close> have been; \<open>clock k\<close> is the
  reading before the record number \<open>k\<close> of the pass and \<open>receipts k\<close> what its notification returned.
\<close>

fun retry_scan ::
    "nat \<Rightarrow> nat \<Rightarrow> count_time_budget \<Rightarrow> time_point \<Rightarrow> (nat \<Rightarrow> time_point) \<Rightarrow> (nat \<Rightarrow> actor_connection_closed_result option) \<Rightarrow>
     request_sink \<Rightarrow> sink_effect list \<times> request_sink" where
  "retry_scan 0 scanned budget start_time clock receipts s = ([], s)"
| "retry_scan (Suc n) scanned budget start_time clock receipts s =
     (if rs_pending_closes s = 0 then ([], s)
      else if scanned > 0 \<and> clock scanned - start_time \<ge> max_duration budget then ([], s)
      else let r = rs_records s ! rs_retry_cursor s;
               s1 = s\<lparr>rs_retry_cursor := (rs_retry_cursor s + 1) mod MAX_TRACKED_SESSIONS\<rparr>
        in if sr_state r = RecordClosing
           then case notify_closed s1 (sr_player r) (sr_connection r) (receipts scanned) of (e, s2) \<Rightarrow>
             (case retry_scan n (scanned + 1) budget start_time clock receipts s2 of (es, s3) \<Rightarrow> (e # es, s3))
           else retry_scan n (scanned + 1) budget start_time clock receipts s1)"

definition retryActorConnectionClosed ::
    "request_sink \<Rightarrow> time_point \<Rightarrow> count_time_budget \<Rightarrow> time_point \<Rightarrow> (nat \<Rightarrow> time_point) \<Rightarrow>
     (nat \<Rightarrow> actor_connection_closed_result option) \<Rightarrow> time_point \<Rightarrow> sink_effect list \<times> request_sink" where
  "retryActorConnectionClosed s now budget start_time clock receipts finished_at =
     (if rs_pending_closes s = 0 then ([], s)
      else if (case rs_next_retry_deadline s of None \<Rightarrow> True | Some d \<Rightarrow> d > now) then ([], s)
      else let scan_limit = min (max_count budget) MAX_TRACKED_SESSIONS;
               (effects, s1) = (if max_count budget > 0 \<and> max_duration budget > 0
                 then retry_scan scan_limit 0 budget start_time clock receipts s else ([], s))
        in (effects, s1\<lparr>rs_next_retry_deadline :=
              (if rs_pending_closes s1 > 0 then Some (after_ms (max now finished_at) 10) else None)\<rparr>))"

definition cancelConnectionCloseRetries :: "request_sink \<Rightarrow> request_sink" where
  "cancelConnectionCloseRetries s =
     s\<lparr>rs_cancelled_closes := rs_cancelled_closes s + rs_pending_closes s,
       rs_records := replicate MAX_TRACKED_SESSIONS free_record, rs_sessions := (\<lambda>_. None), rs_live_sessions := 0,
       rs_pending_closes := 0, rs_next_retry_deadline := None, rs_retry_cursor := 0\<rparr>"

section \<open>The machine\<close>

datatype sink_event =
  PostFrame connection_ref frame delivery_result
| ConnectionClosed connection_ref close_reason time_point "actor_connection_closed_result option"
| ClosedReceipt actor_key connection_ref actor_connection_closed_result
| RetryPass time_point count_time_budget time_point "nat \<Rightarrow> time_point" "nat \<Rightarrow> actor_connection_closed_result option" time_point
| CancelRetries

fun sink_step :: "request_sink \<Rightarrow> sink_event \<Rightarrow> (request_post_result option \<times> sink_effect list) \<times> request_sink" where
  "sink_step s (PostFrame connection f delivery) =
     (case tryPost s connection f delivery of ((result, effects), s') \<Rightarrow> ((Some result, effects), s'))"
| "sink_step s (ConnectionClosed connection reason now receipt) =
     (case onConnectionClosed s connection reason now receipt of (effects, s') \<Rightarrow> ((None, effects), s'))"
| "sink_step s (ClosedReceipt key connection result) =
     ((None, []), onActorConnectionClosedReceipt s key connection result)"
| "sink_step s (RetryPass now budget start_time clock receipts finished_at) =
     (case retryActorConnectionClosed s now budget start_time clock receipts finished_at of (effects, s') \<Rightarrow>
        ((None, effects), s'))"
| "sink_step s CancelRetries = ((None, []), cancelConnectionCloseRetries s)"

section \<open>Invariant\<close>

definition in_state :: "session_record_state \<Rightarrow> request_sink \<Rightarrow> nat" where
  "in_state st s = length (filter (\<lambda>r. sr_state r = st) (rs_records s))"

definition tracks :: "session_record \<Rightarrow> nat \<Rightarrow> session \<Rightarrow> bool" where
  "tracks r i session \<longleftrightarrow> sr_state r = RecordTracked \<and> se_record_index session = i \<and>
     se_generation session = cr_generation (sr_connection r) \<and> se_player session = sr_player r"

definition sink_inv :: "request_sink \<Rightarrow> bool" where
  "sink_inv s \<longleftrightarrow> length (rs_records s) = MAX_TRACKED_SESSIONS \<and> rs_retry_cursor s < MAX_TRACKED_SESSIONS \<and>
     rs_live_sessions s = in_state RecordTracked s \<and> rs_pending_closes s = in_state RecordClosing s \<and>
     (rs_next_retry_deadline s = None \<longleftrightarrow> rs_pending_closes s = 0) \<and>
     (\<forall>c session. rs_sessions s c = Some session \<longrightarrow> se_record_index session < MAX_TRACKED_SESSIONS \<and>
        cr_id (sr_connection (rs_records s ! se_record_index session)) = c \<and>
        tracks (rs_records s ! se_record_index session) (se_record_index session) session) \<and>
     (\<forall>i < MAX_TRACKED_SESSIONS. sr_state (rs_records s ! i) = RecordTracked \<longrightarrow>
        (\<exists>session. rs_sessions s (cr_id (sr_connection (rs_records s ! i))) = Some session \<and> tracks (rs_records s ! i) i session)) \<and>
     (\<forall>i < MAX_TRACKED_SESSIONS. \<forall>j < MAX_TRACKED_SESSIONS. i \<noteq> j \<longrightarrow>
        sr_state (rs_records s ! i) \<noteq> RecordFree \<longrightarrow> sr_state (rs_records s ! j) \<noteq> RecordFree \<longrightarrow>
        sr_connection (rs_records s ! i) \<noteq> sr_connection (rs_records s ! j))"

lemma sink_sessionD:
  assumes "sink_inv s" and "rs_sessions s c = Some session"
  shows "se_record_index session < MAX_TRACKED_SESSIONS" "cr_id (sr_connection (rs_records s ! se_record_index session)) = c"
    "tracks (rs_records s ! se_record_index session) (se_record_index session) session"
  using assms by (simp_all add: sink_inv_def)

lemma sink_trackedD:
  assumes "sink_inv s" and "i < MAX_TRACKED_SESSIONS" and "sr_state (rs_records s ! i) = RecordTracked"
  obtains session where "rs_sessions s (cr_id (sr_connection (rs_records s ! i))) = Some session" "tracks (rs_records s ! i) i session"
  using assms by (auto simp: sink_inv_def)

lemma sink_length: "sink_inv s \<Longrightarrow> length (rs_records s) = MAX_TRACKED_SESSIONS"
  by (simp add: sink_inv_def)

lemma filter_update_count:
  "i < length xs \<Longrightarrow> length (filter P (xs[i := y])) + (if P (xs ! i) then 1 else 0) =
     length (filter P xs) + (if P y then 1 else 0)"
  by (subst (3) id_take_nth_drop, assumption) (simp add: upd_conv_take_nth_drop)

lemma first_index_Some:
  "first_index P xs = Some i \<Longrightarrow> i < length xs \<and> P (xs ! i)"
  using nth_length_takeWhile [of "\<lambda>x. \<not> P x" xs] by (auto simp: first_index_def Let_def split: if_splits)

lemma first_index_None: "first_index P xs = None \<longleftrightarrow> (\<forall>x \<in> set xs. \<not> P x)"
proof -
  have "length (takeWhile (\<lambda>x. \<not> P x) xs) < length xs \<longleftrightarrow> (\<exists>x \<in> set xs. P x)"
    by (induction xs) auto
  then show ?thesis by (auto simp: first_index_def Let_def)
qed

text \<open>Changing one record: how the counters move, with the facts of the invariant about the others.\<close>

lemma sink_invI:
  assumes inv: "sink_inv s" and i: "i < MAX_TRACKED_SESSIONS"
    and records: "rs_records s' = (rs_records s)[i := r]" and cursor: "rs_retry_cursor s' = rs_retry_cursor s"
    and live: "rs_live_sessions s' + (if sr_state (rs_records s ! i) = RecordTracked then 1 else 0) =
       rs_live_sessions s + (if sr_state r = RecordTracked then 1 else 0)"
    and pending: "rs_pending_closes s' + (if sr_state (rs_records s ! i) = RecordClosing then 1 else 0) =
       rs_pending_closes s + (if sr_state r = RecordClosing then 1 else 0)"
    and deadline: "rs_next_retry_deadline s' = None \<longleftrightarrow> rs_pending_closes s' = 0"
    and sessions: "\<And>c session. rs_sessions s' c = Some session \<Longrightarrow>
       (se_record_index session = i \<and> cr_id (sr_connection r) = c \<and> tracks r i session) \<or>
       (se_record_index session \<noteq> i \<and> rs_sessions s c = Some session)"
    and tracked: "\<And>j. j < MAX_TRACKED_SESSIONS \<Longrightarrow> j \<noteq> i \<Longrightarrow> sr_state (rs_records s ! j) = RecordTracked \<Longrightarrow>
       rs_sessions s' (cr_id (sr_connection (rs_records s ! j))) = rs_sessions s (cr_id (sr_connection (rs_records s ! j)))"
    and mine: "sr_state r = RecordTracked \<Longrightarrow> \<exists>session. rs_sessions s' (cr_id (sr_connection r)) = Some session \<and> tracks r i session"
    and fresh: "\<And>j. sr_state r \<noteq> RecordFree \<Longrightarrow> j < MAX_TRACKED_SESSIONS \<Longrightarrow> j \<noteq> i \<Longrightarrow>
       sr_state (rs_records s ! j) \<noteq> RecordFree \<Longrightarrow> sr_connection (rs_records s ! j) \<noteq> sr_connection r"
  shows "sink_inv s'"
proof -
  note I = inv [unfolded sink_inv_def]
  have len: "length (rs_records s) = MAX_TRACKED_SESSIONS" using I by blast
  have nth: "rs_records s' ! j = (if j = i then r else rs_records s ! j)" if "j < MAX_TRACKED_SESSIONS" for j
    using that len i records by simp
  have count: "in_state st s' + (if sr_state (rs_records s ! i) = st then 1 else 0) =
      in_state st s + (if sr_state r = st then 1 else 0)" for st
    using filter_update_count [of i "rs_records s" "\<lambda>r. sr_state r = st" r] len i records by (simp add: in_state_def)
  have "rs_live_sessions s' = in_state RecordTracked s'" using live count [of RecordTracked] I by (auto split: if_splits)
  moreover have "rs_pending_closes s' = in_state RecordClosing s'"
    using pending count [of RecordClosing] I by (auto split: if_splits)
  moreover have "se_record_index session < MAX_TRACKED_SESSIONS \<and>
      cr_id (sr_connection (rs_records s' ! se_record_index session)) = c \<and>
      tracks (rs_records s' ! se_record_index session) (se_record_index session) session"
    if "rs_sessions s' c = Some session" for c session
    using sessions [OF that] I nth i by auto
  moreover have "\<exists>session. rs_sessions s' (cr_id (sr_connection (rs_records s' ! j))) = Some session \<and>
      tracks (rs_records s' ! j) j session"
    if "j < MAX_TRACKED_SESSIONS" "sr_state (rs_records s' ! j) = RecordTracked" for j
    using that nth [OF that(1)] mine tracked [OF that(1)] I by (cases "j = i") auto
  moreover have "sr_connection (rs_records s' ! j) \<noteq> sr_connection (rs_records s' ! k)"
    if "j < MAX_TRACKED_SESSIONS" "k < MAX_TRACKED_SESSIONS" "j \<noteq> k"
      "sr_state (rs_records s' ! j) \<noteq> RecordFree" "sr_state (rs_records s' ! k) \<noteq> RecordFree" for j k
  proof (cases "j = i \<or> k = i")
    case True
    then show ?thesis using that nth fresh [of j] fresh [of k] by (auto split: if_splits)
  next
    case False
    then show ?thesis using that nth I by auto
  qed
  ultimately show ?thesis using I records cursor deadline len unfolding sink_inv_def by simp
qed

lemma receipt_inv:
  assumes inv: "sink_inv s"
  shows "sink_inv (onActorConnectionClosedReceipt s key connection result)"
proof (cases "cr_owner connection \<noteq> rs_worker s \<or>
    first_index (\<lambda>r. sr_state r = RecordClosing \<and> sr_connection r = connection \<and> playerKey (sr_player r) = key)
      (rs_records s) = None")
  case True
  then show ?thesis using inv by (auto simp: onActorConnectionClosedReceipt_def)
next
  case False
  then obtain i where found: "first_index (\<lambda>r. sr_state r = RecordClosing \<and> sr_connection r = connection \<and>
      playerKey (sr_player r) = key) (rs_records s) = Some i" by auto
  note I = inv [unfolded sink_inv_def]
  have i: "i < MAX_TRACKED_SESSIONS" "sr_state (rs_records s ! i) = RecordClosing"
    using first_index_Some [OF found] I by auto
  have "0 < in_state RecordClosing s" unfolding in_state_def using i I by (auto simp: filter_empty_conv intro!: nth_mem)
  then have pending: "0 < rs_pending_closes s" using I by simp
  define s' where "s' = onActorConnectionClosedReceipt s key connection result"
  have s': "rs_records s' = (rs_records s)[i := free_record]" "rs_pending_closes s' = rs_pending_closes s - 1"
      "rs_next_retry_deadline s' = (if rs_pending_closes s - 1 = 0 then None else rs_next_retry_deadline s)"
      "rs_sessions s' = rs_sessions s" "rs_live_sessions s' = rs_live_sessions s" "rs_retry_cursor s' = rs_retry_cursor s"
    using False found by (cases result; simp add: s'_def onActorConnectionClosedReceipt_def)+
  have other: "se_record_index session \<noteq> i" if "rs_sessions s c = Some session" for c session
    using that I i(2) by (auto simp: tracks_def)
  have "sink_inv s'"
    using pending i I other by (intro sink_invI [OF inv i(1) s'(1)]) (auto simp: s' free_record_def)
  then show ?thesis by (simp add: s'_def)
qed

lemma notify_inv: "sink_inv s \<Longrightarrow> sink_inv (snd (notify_closed s player connection receipt))"
  by (simp add: notify_closed_def receipt_inv split: option.split)

lemma fresh_records_inv:
  assumes "rs_records s = replicate MAX_TRACKED_SESSIONS free_record" and "rs_sessions s = (\<lambda>_. None)"
    and "rs_live_sessions s = 0" and "rs_pending_closes s = 0" and "rs_next_retry_deadline s = None" and "rs_retry_cursor s = 0"
  shows "sink_inv s"
  using assms by (auto simp: sink_inv_def in_state_def free_record_def MAX_TRACKED_SESSIONS_def)

text \<open>What an authentication that is not refused at once does to the sink.\<close>

lemma authenticate_cases:
  assumes "snd (postAuthenticate s connection f delivery) \<noteq> s"
  obtains player i s' where "s' = snd (postAuthenticate s connection f delivery)"
    "rs_sessions s (cr_id connection) = None"
    "\<not> (\<exists>r \<in> set (rs_records s). sr_state r = RecordClosing \<and> sr_connection r = connection)"
    "i < length (rs_records s)" "sr_state (rs_records s ! i) = RecordFree" "decodePlayerId (frame_payload f) = Some player"
    "rs_records s' = (rs_records s)[i := if delivery = DeliveryAccepted
       then \<lparr>sr_state = RecordTracked, sr_connection = connection, sr_player = player\<rparr> else free_record]"
    "rs_sessions s' = (if delivery = DeliveryAccepted then (rs_sessions s)(cr_id connection \<mapsto>
       \<lparr>se_generation = cr_generation connection, se_player = player, se_record_index = i\<rparr>) else rs_sessions s)"
    "rs_live_sessions s' = (if delivery = DeliveryAccepted then rs_live_sessions s + 1 else rs_live_sessions s)"
    "rs_pending_closes s' = rs_pending_closes s" "rs_next_retry_deadline s' = rs_next_retry_deadline s"
    "rs_retry_cursor s' = rs_retry_cursor s"
proof -
  obtain player i where new: "rs_sessions s (cr_id connection) = None"
      "\<not> (\<exists>r \<in> set (rs_records s). sr_state r = RecordClosing \<and> sr_connection r = connection)"
      "first_index (\<lambda>r. sr_state r = RecordFree) (rs_records s) = Some i" "decodePlayerId (frame_payload f) = Some player"
    using assms by (auto simp: postAuthenticate_def split: option.splits if_splits)
  show thesis
    by (rule that [OF refl new(1,2) _ _ new(4), of i])
      (use new first_index_Some [OF new(3)] in \<open>auto simp: postAuthenticate_def Let_def\<close>)
qed

lemma authenticate_told:
  assumes "snd (postAuthenticate s connection f delivery) \<noteq> s" and "decodePlayerId (frame_payload f) = Some player"
  shows "delivery = DeliveryAccepted \<Longrightarrow> fst (postAuthenticate s connection f delivery) =
    (PostAccepted, [TellActor (playerKey player) (authenticate_message connection f player)])"
  using assms by (auto simp: postAuthenticate_def Let_def split: option.splits if_splits)

lemma authenticate_inv:
  assumes inv: "sink_inv s"
  shows "sink_inv (snd (postAuthenticate s connection f delivery))"
proof (cases "snd (postAuthenticate s connection f delivery) = s")
  case True
  then show ?thesis using inv by simp
next
  case False
  note I = inv [unfolded sink_inv_def]
  from authenticate_cases [OF False] obtain player i s' where s': "s' = snd (postAuthenticate s connection f delivery)"
    and new: "rs_sessions s (cr_id connection) = None"
      "\<not> (\<exists>r \<in> set (rs_records s). sr_state r = RecordClosing \<and> sr_connection r = connection)"
    and free: "i < length (rs_records s)" "sr_state (rs_records s ! i) = RecordFree"
    and fields: "rs_records s' = (rs_records s)[i := if delivery = DeliveryAccepted
       then \<lparr>sr_state = RecordTracked, sr_connection = connection, sr_player = player\<rparr> else free_record]"
      "rs_sessions s' = (if delivery = DeliveryAccepted then (rs_sessions s)(cr_id connection \<mapsto>
       \<lparr>se_generation = cr_generation connection, se_player = player, se_record_index = i\<rparr>) else rs_sessions s)"
      "rs_live_sessions s' = (if delivery = DeliveryAccepted then rs_live_sessions s + 1 else rs_live_sessions s)"
      "rs_pending_closes s' = rs_pending_closes s" "rs_next_retry_deadline s' = rs_next_retry_deadline s"
      "rs_retry_cursor s' = rs_retry_cursor s"
    by metis
  have i: "i < MAX_TRACKED_SESSIONS" using free(1) I by simp
  have other: "se_record_index session \<noteq> i" if "rs_sessions s c = Some session" for c session
    using that I free(2) by (auto simp: tracks_def)
  have tracked: "cr_id (sr_connection (rs_records s ! j)) \<noteq> cr_id connection"
    if "j < MAX_TRACKED_SESSIONS" "sr_state (rs_records s ! j) = RecordTracked" for j
    using I that new(1) by fastforce
  have unused: "sr_connection (rs_records s ! j) \<noteq> connection"
    if "j < MAX_TRACKED_SESSIONS" "sr_state (rs_records s ! j) \<noteq> RecordFree" for j
    using that tracked new(2) I by (cases "sr_state (rs_records s ! j)") (auto dest: nth_mem)
  have deadline: "rs_next_retry_deadline s = None \<longleftrightarrow> rs_pending_closes s = 0" using I by blast
  have "sink_inv s'"
    by (rule sink_invI [OF inv i fields(1,6)])
      (use deadline other unused tracked in \<open>auto simp: fields free_record_def tracks_def free(2) split: if_splits\<close>)
  then show ?thesis by (simp add: s')
qed

lemma tryPost_inv: "sink_inv s \<Longrightarrow> sink_inv (snd (tryPost s connection f delivery))"
  by (simp add: tryPost_def authenticate_inv)

lemma close_inv:
  assumes inv: "sink_inv s"
  shows "sink_inv (snd (onConnectionClosed s connection reason now receipt))"
proof (cases "snd (onConnectionClosed s connection reason now receipt) = s")
  case True
  then show ?thesis using inv by simp
next
  case False
  note I = inv [unfolded sink_inv_def]
  obtain session where session: "rs_sessions s (cr_id connection) = Some session"
    using False by (auto simp: onConnectionClosed_def split: option.splits if_splits)
  define i where "i = se_record_index session"
  define r where "r = rs_records s ! i"
  have i: "i < MAX_TRACKED_SESSIONS" and r: "sr_state r = RecordTracked" "cr_id (sr_connection r) = cr_id connection"
    using I session by (auto simp: i_def r_def tracks_def)
  define s1 where "s1 = s\<lparr>rs_records := (rs_records s)[i := r\<lparr>sr_state := RecordClosing\<rparr>],
     rs_pending_closes := rs_pending_closes s + 1,
     rs_next_retry_deadline := Some (case rs_next_retry_deadline s of None \<Rightarrow> after_ms now 10 | Some d \<Rightarrow> min d (after_ms now 10)),
     rs_sessions := (rs_sessions s)(cr_id connection := None), rs_live_sessions := rs_live_sessions s - 1\<rparr>"
  have step: "snd (onConnectionClosed s connection reason now receipt) = snd (notify_closed s1 (sr_player r) (sr_connection r) receipt)"
    using False session by (auto simp: onConnectionClosed_def s1_def i_def r_def Let_def split: if_splits prod.splits)
  have "rs_live_sessions s \<noteq> 0"
    using I i r unfolding in_state_def r_def by (auto simp: filter_empty_conv intro: nth_mem)
  moreover have "se_record_index session' \<noteq> i" if "rs_sessions s c = Some session'" "c \<noteq> cr_id connection" for c session'
    using that I r unfolding r_def by metis
  moreover have "cr_id (sr_connection (rs_records s ! j)) \<noteq> cr_id connection"
    if "j < MAX_TRACKED_SESSIONS" "j \<noteq> i" "sr_state (rs_records s ! j) = RecordTracked" for j
    using that I session by (force simp: tracks_def i_def)
  moreover have "sr_connection (rs_records s ! j) \<noteq> sr_connection r"
    if "j < MAX_TRACKED_SESSIONS" "j \<noteq> i" "sr_state (rs_records s ! j) \<noteq> RecordFree" for j
    using that i r I unfolding r_def by (metis session_record_state.distinct(1))
  ultimately have "sink_inv s1"
    by (intro sink_invI [OF inv i, where r = "r\<lparr>sr_state := RecordClosing\<rparr>"])
      (auto simp: s1_def r r_def [symmetric] split: if_splits)
  then show ?thesis unfolding step by (rule notify_inv)
qed

lemma retry_scan_inv: "sink_inv s \<Longrightarrow> sink_inv (snd (retry_scan n scanned budget start_time clock receipts s))"
proof (induction n arbitrary: scanned s)
  case (Suc n)
  let ?s1 = "s\<lparr>rs_retry_cursor := (rs_retry_cursor s + 1) mod MAX_TRACKED_SESSIONS\<rparr>"
  have "sink_inv ?s1" using Suc.prems by (auto simp: sink_inv_def in_state_def MAX_TRACKED_SESSIONS_def)
  then show ?case
    using Suc notify_inv [of ?s1] by (auto simp: Let_def split: prod.split) (metis snd_conv)+
qed simp

lemma retry_inv:
  assumes "sink_inv s"
  shows "sink_inv (snd (retryActorConnectionClosed s now budget start_time clock receipts finished_at))"
proof -
  define pass where "pass = (if max_count budget > 0 \<and> max_duration budget > 0
     then retry_scan (min (max_count budget) MAX_TRACKED_SESSIONS) 0 budget start_time clock receipts s else ([], s))"
  have "sink_inv (snd pass)" using assms by (simp add: pass_def retry_scan_inv)
  then have "sink_inv ((snd pass)\<lparr>rs_next_retry_deadline := (if rs_pending_closes (snd pass) > 0 then Some d else None)\<rparr>)" for d
    by (auto simp: sink_inv_def in_state_def)
  then show ?thesis
    using assms unfolding retryActorConnectionClosed_def Let_def pass_def [symmetric] by (simp add: split_beta)
qed

lemma sink_step_inv: "sink_inv s \<Longrightarrow> sink_inv (snd (sink_step s e))"
  by (cases e) (simp_all add: split_beta tryPost_inv close_inv receipt_inv retry_inv fresh_records_inv
      cancelConnectionCloseRetries_def)

interpretation sink: invariant_machine sink_step "\<lambda>_. True" sink_inv
  by unfold_locales (rule sink_step_inv)

lemma sink_run_inv: "sink_inv (snd (run sink_step (GameRequestSink worker) es))"
  by (rule sink.run_inv) (auto simp: GameRequestSink_def list_all_iff intro: fresh_records_inv)

section \<open>Sessions\<close>

lemma receipt_sessions [simp]:
  "rs_sessions (onActorConnectionClosedReceipt s key connection result) = rs_sessions s"
  "rs_worker (onActorConnectionClosedReceipt s key connection result) = rs_worker s"
  "rs_retry_cursor (onActorConnectionClosedReceipt s key connection result) = rs_retry_cursor s"
  by (auto simp: onActorConnectionClosedReceipt_def split: option.splits)

lemma receipt_records:
  "rs_records (onActorConnectionClosedReceipt s key connection result) = rs_records s \<or>
   (\<exists>i < length (rs_records s). sr_state (rs_records s ! i) = RecordClosing \<and> sr_connection (rs_records s ! i) = connection \<and>
     rs_records (onActorConnectionClosedReceipt s key connection result) = (rs_records s)[i := free_record])"
  using first_index_Some [of "\<lambda>r. sr_state r = RecordClosing \<and> sr_connection r = connection \<and> playerKey (sr_player r) = key" "rs_records s"]
  by (auto simp: onActorConnectionClosedReceipt_def split: option.splits)

lemma notify_sessions [simp]:
  "rs_sessions (snd (notify_closed s player connection receipt)) = rs_sessions s"
  "rs_worker (snd (notify_closed s player connection receipt)) = rs_worker s"
  "rs_retry_cursor (snd (notify_closed s player connection receipt)) = rs_retry_cursor s"
  by (simp_all add: notify_closed_def split: option.split)

text \<open>The record at an index is kept when it is tracked, or closing a connection other than the notified one.\<close>

lemma notify_keeps:
  "sr_state (rs_records s ! j) = RecordTracked \<or> sr_connection (rs_records s ! j) \<noteq> connection \<Longrightarrow>
   rs_records (snd (notify_closed s player connection receipt)) ! j = rs_records s ! j"
  using receipt_records [of s "playerKey player" connection]
  by (auto simp: notify_closed_def nth_list_update split: option.split) (metis nth_list_update_neq session_record_state.distinct(5))+

lemma retry_scan_keeps:
  "rs_sessions (snd (retry_scan n scanned budget start_time clock receipts s)) = rs_sessions s \<and>
   rs_worker (snd (retry_scan n scanned budget start_time clock receipts s)) = rs_worker s \<and>
   (sr_state (rs_records s ! j) = RecordTracked \<longrightarrow>
     rs_records (snd (retry_scan n scanned budget start_time clock receipts s)) ! j = rs_records s ! j)"
proof (induction n arbitrary: scanned s)
  case (Suc n)
  define s1 where "s1 = s\<lparr>rs_retry_cursor := (rs_retry_cursor s + 1) mod MAX_TRACKED_SESSIONS\<rparr>"
  define r where "r = rs_records s ! rs_retry_cursor s"
  define s2 where "s2 = snd (notify_closed s1 (sr_player r) (sr_connection r) (receipts scanned))"
  have s1: "rs_sessions s1 = rs_sessions s" "rs_worker s1 = rs_worker s" "rs_records s1 = rs_records s" by (simp_all add: s1_def)
  then have s2: "rs_sessions s2 = rs_sessions s" "rs_worker s2 = rs_worker s"
      "sr_state (rs_records s ! j) = RecordTracked \<longrightarrow> rs_records s2 ! j = rs_records s ! j"
    using notify_keeps [of s1 j] by (simp_all add: s2_def)
  have "snd (retry_scan (Suc n) scanned budget start_time clock receipts s) \<in>
      {s, snd (retry_scan n (scanned + 1) budget start_time clock receipts s1),
       snd (retry_scan n (scanned + 1) budget start_time clock receipts s2)}"
    unfolding retry_scan.simps Let_def s1_def [symmetric] r_def [symmetric] by (simp add: split_beta s2_def)
  then show ?case
    using Suc.IH [of "scanned + 1" s1] Suc.IH [of "scanned + 1" s2] s1 s2 by (elim insertE emptyE) simp_all
qed simp

lemma retry_keeps:
  "rs_sessions (snd (retryActorConnectionClosed s now budget start_time clock receipts finished_at)) = rs_sessions s \<and>
   rs_worker (snd (retryActorConnectionClosed s now budget start_time clock receipts finished_at)) = rs_worker s \<and>
   (sr_state (rs_records s ! j) = RecordTracked \<longrightarrow>
     rs_records (snd (retryActorConnectionClosed s now budget start_time clock receipts finished_at)) ! j = rs_records s ! j)"
  using retry_scan_keeps [of _ _ budget start_time clock receipts s j]
  by (simp add: retryActorConnectionClosed_def Let_def split_beta)

text \<open>
  A session goes back to a login posted on its connection: an Authenticate frame that names the player, passed
  on to the actor of that player and accepted by its mailbox. Whether the actor then binds the connection is
  the actor's decision, which the sink does not wait for.
\<close>

definition login_posted :: "request_sink \<Rightarrow> sink_event \<Rightarrow> connection_ref \<Rightarrow> player_id \<Rightarrow> bool" where
  "login_posted s e connection player \<longleftrightarrow> (\<exists>f. e = PostFrame connection f DeliveryAccepted \<and>
     frame_type f = message_code MtAuthenticate \<and> decodePlayerId (frame_payload f) = Some player \<and>
     fst (sink_step s e) = (Some PostAccepted, [TellActor (playerKey player) (authenticate_message connection f player)]))"

definition ends_session :: "worker_id \<Rightarrow> connection_ref \<Rightarrow> sink_event \<Rightarrow> bool" where
  "ends_session worker connection e \<longleftrightarrow> e = CancelRetries \<or>
     (cr_owner connection = worker \<and> (\<exists>reason now receipt. e = ConnectionClosed connection reason now receipt))"

definition session_of :: "request_sink \<Rightarrow> connection_ref \<Rightarrow> player_id \<Rightarrow> bool" where
  "session_of s connection player \<longleftrightarrow> (\<exists>session. rs_sessions s (cr_id connection) = Some session \<and>
     se_player session = player \<and> sr_connection (rs_records s ! se_record_index session) = connection)"

lemma sink_step_worker: "rs_worker (snd (sink_step s e)) = rs_worker s"
  using retry_keeps [of s]
  by (cases e) (auto simp: split_beta tryPost_def postAuthenticate_def Let_def onConnectionClosed_def
      cancelConnectionCloseRetries_def split: option.splits)

lemma post_session:
  assumes inv: "sink_inv s" and after: "session_of (snd (tryPost s connection' f delivery)) connection player"
  shows "session_of s connection player \<or> login_posted s (PostFrame connection' f delivery) connection player"
proof (cases "snd (tryPost s connection' f delivery) = s")
  case False
  note I = inv [unfolded sink_inv_def]
  have auth: "frame_type f = message_code MtAuthenticate" "snd (postAuthenticate s connection' f delivery) \<noteq> s"
    "snd (tryPost s connection' f delivery) = snd (postAuthenticate s connection' f delivery)"
    using False by (auto simp: tryPost_def split: if_splits)
  from authenticate_cases [OF auth(2)] obtain player' i s' where s': "s' = snd (postAuthenticate s connection' f delivery)"
    and free: "i < length (rs_records s)" "sr_state (rs_records s ! i) = RecordFree"
    and player: "decodePlayerId (frame_payload f) = Some player'"
    and fields: "rs_records s' = (rs_records s)[i := if delivery = DeliveryAccepted
       then \<lparr>sr_state = RecordTracked, sr_connection = connection', sr_player = player'\<rparr> else free_record]"
      "rs_sessions s' = (if delivery = DeliveryAccepted then (rs_sessions s)(cr_id connection' \<mapsto>
       \<lparr>se_generation = cr_generation connection', se_player = player', se_record_index = i\<rparr>) else rs_sessions s)"
    by metis
  note told = authenticate_told [OF auth(2) player]
  have other: "se_record_index session \<noteq> i" if "rs_sessions s c = Some session" for c session
    using that I free(2) by (auto simp: tracks_def)
  obtain session where session: "rs_sessions s' (cr_id connection) = Some session" "se_player session = player"
      "sr_connection (rs_records s' ! se_record_index session) = connection"
    using after auth(3) s' unfolding session_of_def by metis
  show ?thesis
  proof (cases "delivery = DeliveryAccepted \<and> cr_id connection = cr_id connection'")
    case True
    then have "session = \<lparr>se_generation = cr_generation connection', se_player = player', se_record_index = i\<rparr>"
      using session(1) fields(2) by simp
    then have "connection = connection'" "player = player'" using session(2,3) fields(1) free(1) True by simp_all
    then show ?thesis using True auth(1) player told by (simp add: login_posted_def tryPost_def split_beta)
  next
    case False
    then have old: "rs_sessions s (cr_id connection) = Some session" using session(1) fields(2) by (simp split: if_splits)
    then have "rs_records s' ! se_record_index session = rs_records s ! se_record_index session"
      using other [OF old] unfolding fields(1) by simp
    then show ?thesis using old session(2,3) by (simp add: session_of_def)
  qed
qed (use after in simp)

lemma close_session:
  assumes inv: "sink_inv s" and after: "session_of (snd (onConnectionClosed s connection' reason now receipt)) connection player"
  shows "session_of s connection player \<and> (cr_owner connection = rs_worker s \<longrightarrow> connection' \<noteq> connection)"
proof (cases "snd (onConnectionClosed s connection' reason now receipt) = s")
  case True
  then obtain session where session: "rs_sessions s (cr_id connection) = Some session" "se_player session = player"
      "sr_connection (rs_records s ! se_record_index session) = connection"
    using after by (auto simp: session_of_def)
  have "tracks (rs_records s ! se_record_index session) (se_record_index session) session"
      "se_record_index session < MAX_TRACKED_SESSIONS"
    using inv session(1) by (auto simp: sink_inv_def)
  moreover have "rs_sessions (snd (notify_closed s1 p c receipt)) (cr_id connection) = None"
    if "rs_sessions s1 = (rs_sessions s)(cr_id connection := None)" for s1 p c
    using that by simp
  ultimately have "cr_owner connection = rs_worker s \<Longrightarrow>
      rs_sessions (snd (onConnectionClosed s connection reason now receipt)) (cr_id connection) = None"
    using session by (simp add: onConnectionClosed_def tracks_def Let_def split_beta)
  then show ?thesis using after True session(1) by (auto simp: session_of_def)
next
  case False
  note I = inv [unfolded sink_inv_def]
  obtain session' where session': "rs_sessions s (cr_id connection') = Some session'"
    using False by (auto simp: onConnectionClosed_def split: option.splits if_splits)
  define i where "i = se_record_index session'"
  define r where "r = rs_records s ! i"
  define s1 where "s1 = s\<lparr>rs_records := (rs_records s)[i := r\<lparr>sr_state := RecordClosing\<rparr>],
     rs_pending_closes := rs_pending_closes s + 1,
     rs_next_retry_deadline := Some (case rs_next_retry_deadline s of None \<Rightarrow> after_ms now 10 | Some d \<Rightarrow> min d (after_ms now 10)),
     rs_sessions := (rs_sessions s)(cr_id connection' := None), rs_live_sessions := rs_live_sessions s - 1\<rparr>"
  define s2 where "s2 = snd (notify_closed s1 (sr_player r) (sr_connection r) receipt)"
  have step: "snd (onConnectionClosed s connection' reason now receipt) = s2"
    using False session' by (auto simp: onConnectionClosed_def s2_def s1_def i_def r_def Let_def split: if_splits prod.splits)
  have sessions: "rs_sessions s2 = (rs_sessions s)(cr_id connection' := None)" by (simp add: s2_def s1_def)
  obtain session where session: "rs_sessions s (cr_id connection) = Some session" "se_player session = player"
      "cr_id connection \<noteq> cr_id connection'" "sr_connection (rs_records s2 ! se_record_index session) = connection"
    using after step sessions by (auto simp: session_of_def split: if_splits)
  have ids: "cr_id (sr_connection (rs_records s ! se_record_index session)) = cr_id connection"
      "cr_id (sr_connection (rs_records s ! i)) = cr_id connection'"
    using inv session(1) session' by (auto simp: sink_inv_def i_def)
  then have "se_record_index session \<noteq> i" using session(3) by auto
  moreover have "sr_state (rs_records s ! se_record_index session) = RecordTracked" using I session(1) by (auto simp: tracks_def)
  ultimately have "rs_records s2 ! se_record_index session = rs_records s ! se_record_index session"
    using notify_keeps [of s1 "se_record_index session"] by (simp add: s2_def s1_def)
  then show ?thesis using session by (auto simp: session_of_def)
qed

lemma sink_step_session:
  assumes inv: "sink_inv s" and after: "session_of (snd (sink_step s e)) connection player"
  shows "(session_of s connection player \<and> \<not> ends_session (rs_worker s) connection e) \<or> login_posted s e connection player"
proof -
  have keeps: "session_of s connection player"
    if k: "rs_sessions s' = rs_sessions s" "session_of s' connection player"
      "\<And>j. sr_state (rs_records s ! j) = RecordTracked \<Longrightarrow> rs_records s' ! j = rs_records s ! j" for s'
  proof -
    obtain session where session: "rs_sessions s (cr_id connection) = Some session" "se_player session = player"
        "sr_connection (rs_records s' ! se_record_index session) = connection"
      using k(1,2) by (auto simp: session_of_def)
    then have "sr_state (rs_records s ! se_record_index session) = RecordTracked"
      using inv by (simp add: sink_inv_def tracks_def)
    then show ?thesis using session k(3) by (simp add: session_of_def)
  qed
  show ?thesis
  proof (cases e)
    case (PostFrame c f d)
    then show ?thesis using post_session [OF inv, of c f d connection player] after by (simp add: split_beta ends_session_def)
  next
    case (ConnectionClosed c reason now receipt)
    then show ?thesis
      using close_session [OF inv, of c reason now receipt connection player] after by (auto simp: split_beta ends_session_def)
  next
    case (ClosedReceipt key c result)
    have "rs_records (onActorConnectionClosedReceipt s key c result) ! j = rs_records s ! j"
      if "sr_state (rs_records s ! j) = RecordTracked" for j
      using receipt_records [of s key c result] that by (auto simp: nth_list_update)
    then have "session_of s connection player" using ClosedReceipt after by (intro keeps [of "snd (sink_step s e)"]) simp_all
    then show ?thesis using ClosedReceipt by (simp add: ends_session_def)
  next
    case (RetryPass now budget start clock receipts finished)
    then have "session_of s connection player"
      using after retry_keeps [of s now budget start clock receipts finished]
      by (intro keeps [of "snd (sink_step s e)"]) (simp_all add: split_beta)
    then show ?thesis using RetryPass by (simp add: ends_session_def)
  next
    case CancelRetries
    then show ?thesis using after by (simp add: cancelConnectionCloseRetries_def session_of_def)
  qed
qed

lemma session_origin:
  assumes "session_of (snd (run sink_step (GameRequestSink worker) es)) connection player"
  shows "\<exists>es1 e es2. es = es1 @ e # es2 \<and>
    login_posted (snd (run sink_step (GameRequestSink worker) es1)) e connection player \<and>
    list_all (\<lambda>e. \<not> ends_session worker connection e) es2"
  using assms
proof (induction es rule: rev_induct)
  case Nil
  then show ?case by (simp add: session_of_def GameRequestSink_def)
next
  case (snoc e es)
  let ?s = "snd (run sink_step (GameRequestSink worker) es)"
  have worker: "rs_worker (snd (run sink_step s xs)) = rs_worker s" for s xs
    by (induction xs arbitrary: s) (simp_all add: sink_step_worker)
  have "(session_of ?s connection player \<and> \<not> ends_session worker connection e) \<or> login_posted ?s e connection player"
    using sink_step_session [OF sink_run_inv [of worker es], of e connection player] snoc.prems
    by (simp add: run_append worker GameRequestSink_def split_beta)
  then show ?case
  proof
    assume "session_of ?s connection player \<and> \<not> ends_session worker connection e"
    with snoc.IH obtain es1 e' es2 where "es = es1 @ e' # es2"
        "login_posted (snd (run sink_step (GameRequestSink worker) es1)) e' connection player"
        "list_all (\<lambda>e. \<not> ends_session worker connection e) (es2 @ [e])" by auto
    then show ?thesis by (intro exI [of _ es1] exI [of _ e'] exI [of _ "es2 @ [e]"]) simp
  next
    assume "login_posted ?s e connection player"
    then show ?thesis by (intro exI [of _ es] exI [of _ e] exI [of _ "[]"]) simp
  qed
qed


lemma playerFor_session_of:
  assumes "sink_inv s" and "playerFor s connection = Some player"
  obtains connection' where "session_of s connection' player" "cr_id connection' = cr_id connection"
    "cr_generation connection' = cr_generation connection"
proof -
  obtain session where "rs_sessions s (cr_id connection) = Some session" "se_generation session = cr_generation connection"
      "se_player session = player"
    using assms(2) by (auto simp: playerFor_def split: option.splits if_splits)
  then show thesis
    using assms(1) by (intro that [of "sr_connection (rs_records s ! se_record_index session)"])
      (auto simp: session_of_def sink_inv_def tracks_def)
qed

lemma authenticate_tells:
  assumes "frame_type f = message_code MtAuthenticate"
    and "TellActor key m \<in> set (snd (fst (tryPost s connection f delivery)))"
  shows "\<exists>player. key = playerKey player \<and> decodePlayerId (frame_payload f) = Some player \<and>
    m = authenticate_message connection f player \<and> playerFor s connection \<in> {None, Some player}"
  using assms by (auto simp: tryPost_def postAuthenticate_def playerFor_def Let_def
      split: if_splits option.splits)

lemma tell_needs_session:
  assumes "frame_type f \<noteq> message_code MtAuthenticate"
    and "TellActor key m \<in> set (snd (fst (tryPost s connection f delivery)))"
  shows "\<exists>player. key = playerKey player \<and> playerFor s connection = Some player"
  using assms by (auto simp: tryPost_def postPing_def postPlayerCommand_def postZoneRequest_def postRoomRequest_def
      split: if_splits option.splits)

section \<open>Retrying\<close>

lemma notified_stays:
  assumes inv: "sink_inv s" and k: "k < MAX_TRACKED_SESSIONS" "sr_state (rs_records s ! k) = RecordClosing"
    and j: "j < MAX_TRACKED_SESSIONS" "j \<noteq> k" "sr_state (rs_records s ! j) = RecordClosing"
  shows "rs_records (snd (notify_closed s player (sr_connection (rs_records s ! k)) receipt)) ! j = rs_records s ! j"
proof -
  have "sr_connection (rs_records s ! j) \<noteq> sr_connection (rs_records s ! k)" using inv k j by (simp add: sink_inv_def)
  then show ?thesis by (simp add: notify_keeps)
qed

lemma closing_pending:
  assumes inv: "sink_inv s" and j: "j < MAX_TRACKED_SESSIONS" "sr_state (rs_records s ! j) = RecordClosing"
  shows "rs_pending_closes s \<noteq> 0"
proof -
  have "rs_records s ! j \<in> set (rs_records s)" using inv j(1) by (simp add: sink_inv_def)
  then have "filter (\<lambda>r. sr_state r = RecordClosing) (rs_records s) \<noteq> []" using j(2) by (auto simp: filter_empty_conv)
  then show ?thesis using inv by (simp add: sink_inv_def in_state_def)
qed

lemma retry_scan_notifies:
  assumes "sink_inv s" and "m < n" and "m < MAX_TRACKED_SESSIONS" and "j = (rs_retry_cursor s + m) mod MAX_TRACKED_SESSIONS"
    and "rs_records s ! j = r" and "sr_state r = RecordClosing" and "\<forall>k. clock k - start_time < max_duration budget"
  shows "NotifyClosed (playerKey (sr_player r)) (sr_connection r) (PlayerConnectionClosedMessage (sr_connection r)) \<in>
    set (fst (retry_scan n scanned budget start_time clock receipts s))"
  using assms
proof (induction n arbitrary: m scanned s)
  case (Suc n)
  define c where "c = rs_retry_cursor s"
  define v where "v = rs_records s ! c"
  define s1 where "s1 = s\<lparr>rs_retry_cursor := (c + 1) mod MAX_TRACKED_SESSIONS\<rparr>"
  define s2 where "s2 = snd (notify_closed s1 (sr_player v) (sr_connection v) (receipts scanned))"
  have pos: "0 < MAX_TRACKED_SESSIONS" by (simp add: MAX_TRACKED_SESSIONS_def)
  have c: "c < MAX_TRACKED_SESSIONS" and j: "j < MAX_TRACKED_SESSIONS" using Suc.prems(1,4) pos by (simp_all add: c_def sink_inv_def)
  have inv1: "sink_inv s1" using Suc.prems(1) pos by (simp add: s1_def sink_inv_def in_state_def)
  have inv2: "sink_inv s2" unfolding s2_def by (rule notify_inv [OF inv1])
  have records1: "rs_records s1 = rs_records s" by (simp add: s1_def)
  have "rs_pending_closes s \<noteq> 0" using closing_pending [OF Suc.prems(1) j] Suc.prems(5,6) by simp
  moreover have "clock scanned - start_time < max_duration budget" using Suc.prems(7) by blast
  ultimately have scan: "fst (retry_scan (Suc n) scanned budget start_time clock receipts s) =
      (if sr_state v = RecordClosing
       then NotifyClosed (playerKey (sr_player v)) (sr_connection v) (PlayerConnectionClosedMessage (sr_connection v)) #
         fst (retry_scan n (scanned + 1) budget start_time clock receipts s2)
       else fst (retry_scan n (scanned + 1) budget start_time clock receipts s1))"
    unfolding retry_scan.simps Let_def c_def [symmetric] v_def [symmetric] s1_def [symmetric] s2_def
    by (simp add: split_beta) (simp add: notify_closed_def)
  show ?case
  proof (cases m)
    case 0
    then have "v = r" using Suc.prems(4,5) c by (simp add: v_def c_def)
    then show ?thesis using Suc.prems(6) scan by simp
  next
    case (Suc m')
    have cursor: "rs_retry_cursor s1 = (c + 1) mod MAX_TRACKED_SESSIONS" "rs_retry_cursor s2 = (c + 1) mod MAX_TRACKED_SESSIONS"
      by (simp_all add: s1_def s2_def)
    have j': "j = ((c + 1) mod MAX_TRACKED_SESSIONS + m') mod MAX_TRACKED_SESSIONS"
      using Suc.prems(4) Suc by (simp add: c_def mod_add_left_eq)
    have "j \<noteq> c"
      using Suc.prems(3,4) Suc c by (simp add: c_def MAX_TRACKED_SESSIONS_def mod_if) arith
    then have kept: "rs_records s2 ! j = r" if "sr_state v = RecordClosing"
      using notified_stays [OF inv1, of c j] that c j Suc.prems(5,6) records1 unfolding s2_def v_def by simp
    have m': "m' < n" "m' < MAX_TRACKED_SESSIONS" using Suc.prems(2,3) Suc by simp_all
    show ?thesis
      using Suc.IH [OF inv1 m', unfolded cursor, OF j'] Suc.IH [OF inv2 m', unfolded cursor, OF j'] kept scan Suc.prems(5-7) records1
      by (cases "sr_state v = RecordClosing") simp_all
  qed
qed simp


section \<open>Properties\<close>

text \<open>
  C27: The sessions of a worker stay consistent under every sequence of frames, closes, receipts, retry
  passes and cancellations: the counters of live sessions and pending closes are the numbers of tracked
  and closing records, together at most 1024; a retry is scheduled exactly while a close is pending; and
  a connection has a player exactly when a tracked record holds that connection, with its generation,
  for that player.
\<close>

theorem sink_sessions_consistent:
  "let s = snd (run sink_step (GameRequestSink worker) es) in
   rs_live_sessions s = in_state RecordTracked s \<and> rs_pending_closes s = in_state RecordClosing s \<and>
   rs_live_sessions s + rs_pending_closes s \<le> MAX_TRACKED_SESSIONS \<and>
   (nextActorConnectionCloseRetryDeadline s = None \<longleftrightarrow> rs_pending_closes s = 0) \<and>
   (playerFor s connection = Some player \<longleftrightarrow>
     (\<exists>r \<in> set (rs_records s). sr_state r = RecordTracked \<and> cr_id (sr_connection r) = cr_id connection \<and>
        cr_generation (sr_connection r) = cr_generation connection \<and> sr_player r = player))"
proof -
  define s where "s = snd (run sink_step (GameRequestSink worker) es)"
  have inv: "sink_inv s" unfolding s_def by (rule sink_run_inv)
  note I = inv [unfolded sink_inv_def]
  have "length (filter (\<lambda>r. sr_state r = RecordClosing) rs) \<le> length (filter (\<lambda>r. sr_state r \<noteq> RecordTracked) rs)" for rs
    by (induction rs) auto
  from this [of "rs_records s"] have "in_state RecordTracked s + in_state RecordClosing s \<le> MAX_TRACKED_SESSIONS"
    using I sum_length_filter_compl [of "\<lambda>r. sr_state r = RecordTracked" "rs_records s"] by (simp add: in_state_def)
  moreover have "playerFor s connection = Some player \<longleftrightarrow>
     (\<exists>r \<in> set (rs_records s). sr_state r = RecordTracked \<and> cr_id (sr_connection r) = cr_id connection \<and>
        cr_generation (sr_connection r) = cr_generation connection \<and> sr_player r = player)" (is "?l \<longleftrightarrow> ?r")
  proof
    assume ?l
    then obtain session where "rs_sessions s (cr_id connection) = Some session"
        "se_generation session = cr_generation connection" "se_player session = player"
      by (auto simp: playerFor_def split: option.splits if_splits)
    moreover from this sink_length [OF inv] have "rs_records s ! se_record_index session \<in> set (rs_records s)"
      using sink_sessionD(1) [OF inv] by (intro nth_mem) simp
    ultimately show ?r using sink_sessionD(2,3) [OF inv, of "cr_id connection" session] by (auto simp: tracks_def)
  next
    assume ?r
    then obtain r where r: "r \<in> set (rs_records s)" "sr_state r = RecordTracked" "cr_id (sr_connection r) = cr_id connection"
        "cr_generation (sr_connection r) = cr_generation connection" "sr_player r = player" by blast
    then obtain i where i: "i < MAX_TRACKED_SESSIONS" "rs_records s ! i = r" using sink_length [OF inv] by (metis in_set_conv_nth)
    then obtain session where "rs_sessions s (cr_id connection) = Some session" "tracks r i session"
      using sink_trackedD [OF inv i(1)] r by metis
    then show ?l using r by (simp add: playerFor_def tracks_def)
  qed
  ultimately show ?thesis
    using I by (simp add: s_def [symmetric] nextActorConnectionCloseRetryDeadline_def)
qed

text \<open>
  C26: Which actor a frame of a connection goes to. An Authenticate frame goes to the actor of the player it
  names, as that player's login, and only when the connection has no session or one of the same player. Any
  other frame goes to the actor of the player of an earlier Authenticate frame with the connection's
  identifier and generation, which the sink passed on to that actor and its mailbox accepted, and since then
  neither was that connection closed nor the sink reset. The sink goes by the mailbox: the actor may still
  refuse the login when it handles it, and the session lasts until the close of the connection.
\<close>

theorem frames_follow_login:
  assumes "s = snd (run sink_step (GameRequestSink worker) es)"
    and "TellActor key m \<in> set (snd (fst (sink_step s (PostFrame connection f delivery))))"
  shows "\<exists>player. key = playerKey player \<and>
    (if frame_type f = message_code MtAuthenticate
     then decodePlayerId (frame_payload f) = Some player \<and> m = authenticate_message connection f player \<and>
       playerFor s connection \<in> {None, Some player}
     else \<exists>connection' es1 e es2. es = es1 @ e # es2 \<and>
       cr_id connection' = cr_id connection \<and> cr_generation connection' = cr_generation connection \<and>
       login_posted (snd (run sink_step (GameRequestSink worker) es1)) e connection' player \<and>
       list_all (\<lambda>e. \<not> ends_session worker connection' e) es2)"
proof (cases "frame_type f = message_code MtAuthenticate")
  case True
  then show ?thesis using authenticate_tells [OF True, of key m s connection delivery] assms(2) by (auto simp: split_beta)
next
  case False
  obtain player where player: "key = playerKey player" "playerFor s connection = Some player"
    using tell_needs_session [OF False, of key m s connection delivery] assms(2) by (auto simp: split_beta)
  obtain connection' where session: "session_of s connection' player" "cr_id connection' = cr_id connection"
      "cr_generation connection' = cr_generation connection"
    using playerFor_session_of [OF sink_run_inv [of worker es, folded assms(1)] player(2)] .
  obtain es1 e es2 where "es = es1 @ e # es2"
      "login_posted (snd (run sink_step (GameRequestSink worker) es1)) e connection' player"
      "list_all (\<lambda>e. \<not> ends_session worker connection' e) es2"
    using session_origin [OF session(1) [unfolded assms(1)]] by blast
  with False player(1) session(2,3) show ?thesis by auto
qed

text \<open>
  C28: No closed connection is forgotten: a retry pass that is due, may scan all records and is not cut
  short by the clock sends the close notification of every record that is still closing to the actor of
  its player, also when receipts arrive during the pass.
\<close>

theorem retry_pass_notifies_all:
  assumes "s = snd (run sink_step (GameRequestSink worker) es)" and "r \<in> set (rs_records s)" and "sr_state r = RecordClosing"
    and "rs_next_retry_deadline s = Some deadline" and "deadline \<le> now"
    and "MAX_TRACKED_SESSIONS \<le> max_count budget" and "\<forall>k. clock k - start_time < max_duration budget"
    and "0 < max_duration budget"
  shows "NotifyClosed (playerKey (sr_player r)) (sr_connection r) (PlayerConnectionClosedMessage (sr_connection r)) \<in>
    set (fst (retryActorConnectionClosed s now budget start_time clock receipts finished_at))"
proof -
  have inv: "sink_inv s" unfolding assms(1) by (rule sink_run_inv)
  then have len: "length (rs_records s) = MAX_TRACKED_SESSIONS" and cursor: "rs_retry_cursor s < MAX_TRACKED_SESSIONS"
    by (simp_all add: sink_inv_def)
  obtain j where j: "j < MAX_TRACKED_SESSIONS" "rs_records s ! j = r" using assms(2) len by (metis in_set_conv_nth)
  have pending: "rs_pending_closes s \<noteq> 0" using closing_pending [OF inv j(1)] j(2) assms(3) by simp
  define m where "m = (if rs_retry_cursor s \<le> j then j - rs_retry_cursor s else j + MAX_TRACKED_SESSIONS - rs_retry_cursor s)"
  have m: "m < MAX_TRACKED_SESSIONS" "j = (rs_retry_cursor s + m) mod MAX_TRACKED_SESSIONS"
    using j(1) cursor by (auto simp: m_def)
  have "0 < max_count budget" using assms(6) by (simp add: MAX_TRACKED_SESSIONS_def)
  then show ?thesis
    using retry_scan_notifies [OF inv m(1) m j(2) assms(3,7), of 0 receipts] pending assms(4-6,8)
    by (simp add: retryActorConnectionClosed_def Let_def split_beta min_absorb2)
qed


section \<open>Witnesses\<close>

definition visitor :: connection_ref where
  "visitor = \<lparr>cr_id = 3, cr_generation = 8, cr_owner = 0\<rparr>"

definition login :: sink_event where
  "login = PostFrame visitor \<lparr>frame_type = message_code MtAuthenticate, frame_request_id = 1, frame_payload = append_u64 42\<rparr>
     DeliveryAccepted"

lemma login_decoded: "decodePlayerId (append_u64 42) = Some 42"
  by (simp add: decodePlayerId_def fold_player_id Let_def)

lemma free_state: "sr_state free_record = RecordFree"
  by (simp add: free_record_def)

lemma fresh_index: "first_index (\<lambda>r. sr_state r = RecordFree) (replicate MAX_TRACKED_SESSIONS free_record) = Some 0"
  by (simp add: first_index_def free_record_def MAX_TRACKED_SESSIONS_def numeral_eq_Suc)

lemma login_sessions:
  "rs_sessions (snd (sink_step (GameRequestSink 0) login)) 3 = Some \<lparr>se_generation = 8, se_player = 42, se_record_index = 0\<rparr>"
  "rs_records (snd (sink_step (GameRequestSink 0) login)) =
     (replicate MAX_TRACKED_SESSIONS free_record)[0 := \<lparr>sr_state = RecordTracked, sr_connection = visitor, sr_player = 42\<rparr>]"
  "rs_worker (snd (sink_step (GameRequestSink 0) login)) = 0"
  "rs_next_retry_deadline (snd (sink_step (GameRequestSink 0) login)) = None"
  by (simp_all add: login_def visitor_def tryPost_def postAuthenticate_def login_decoded GameRequestSink_def fresh_index Let_def
      free_state)

theorem frames_follow_login_witness:
  "let s = snd (run sink_step (GameRequestSink 0) [login]);
       f = \<lparr>frame_type = message_code MtRoomLeave, frame_request_id = 2, frame_payload = []\<rparr> in
   TellActor (playerKey 42) (PlayerRoomRequestMessage visitor 2 RoomLeaveRequest) \<in>
     set (snd (fst (sink_step s (PostFrame visitor f DeliveryAccepted)))) \<and>
   (\<exists>player connection' es1 e es2. playerKey 42 = playerKey player \<and> [login] = es1 @ e # es2 \<and>
     cr_id connection' = cr_id visitor \<and> cr_generation connection' = cr_generation visitor \<and>
     login_posted (snd (run sink_step (GameRequestSink 0) es1)) e connection' player \<and>
     list_all (\<lambda>e. \<not> ends_session 0 connection' e) es2)"
proof -
  let ?f = "\<lparr>frame_type = message_code MtRoomLeave, frame_request_id = 2, frame_payload = []\<rparr>"
  let ?s = "snd (run sink_step (GameRequestSink 0) [login])"
  have "playerFor ?s visitor = Some 42" by (simp add: playerFor_def login_sessions) (simp add: visitor_def login_sessions)
  then have tell: "TellActor (playerKey 42) (PlayerRoomRequestMessage visitor 2 RoomLeaveRequest) \<in>
      set (snd (fst (sink_step ?s (PostFrame visitor ?f DeliveryAccepted))))"
    by (simp add: tryPost_def postRoomRequest_def decodeRoomLeave_def)
  have type: "frame_type ?f \<noteq> message_code MtAuthenticate" by simp
  have "\<exists>player. playerKey 42 = playerKey player \<and> (\<exists>connection' es1 e es2. [login] = es1 @ e # es2 \<and>
     cr_id connection' = cr_id visitor \<and> cr_generation connection' = cr_generation visitor \<and>
     login_posted (snd (run sink_step (GameRequestSink 0) es1)) e connection' player \<and>
     list_all (\<lambda>e. \<not> ends_session 0 connection' e) es2)"
    using frames_follow_login [OF refl tell, unfolded if_not_P [OF type]] .
  then obtain player connection' es1 e es2 where "playerKey 42 = playerKey player" "[login] = es1 @ e # es2"
      "cr_id connection' = cr_id visitor" "cr_generation connection' = cr_generation visitor"
      "login_posted (snd (run sink_step (GameRequestSink 0) es1)) e connection' player"
      "list_all (\<lambda>e. \<not> ends_session 0 connection' e) es2" by blast
  with tell show ?thesis unfolding Let_def by blast
qed

theorem retry_pass_notifies_all_witness:
  "let s = snd (run sink_step (GameRequestSink 0) [login, ConnectionClosed visitor PeerClosed 0 None]);
       budget = \<lparr>max_count = 1024, max_duration = 1000\<rparr> in
   NotifyClosed (playerKey 42) visitor (PlayerConnectionClosedMessage visitor) \<in>
     set (fst (retryActorConnectionClosed s 10000000 budget 0 (\<lambda>_. 5) (\<lambda>_. None) 7))"
proof -
  let ?s = "snd (run sink_step (GameRequestSink 0) [login, ConnectionClosed visitor PeerClosed 0 None])"
  let ?r = "\<lparr>sr_state = RecordClosing, sr_connection = visitor, sr_player = 42\<rparr>"
  have first: "(replicate MAX_TRACKED_SESSIONS free_record)[0 := x] ! 0 = x" "0 < MAX_TRACKED_SESSIONS" for x
    by (simp_all add: MAX_TRACKED_SESSIONS_def)
  have closed: "rs_records ?s = (replicate MAX_TRACKED_SESSIONS free_record)[0 := ?r]" "rs_next_retry_deadline ?s = Some 10000000"
    using login_sessions first by (simp_all add: visitor_def onConnectionClosed_def Let_def notify_closed_def after_ms_def split_beta)
  then have "?r \<in> set (rs_records ?s)" using first by (metis length_list_update length_replicate nth_mem)
  then show ?thesis
    using retry_pass_notifies_all [OF refl, of ?r 0 "[login, ConnectionClosed visitor PeerClosed 0 None]" 10000000 10000000
        "\<lparr>max_count = 1024, max_duration = 1000\<rparr>" "\<lambda>_. 5" 0 "\<lambda>_. None" 7] closed(2)
    by (simp add: Let_def MAX_TRACKED_SESSIONS_def)
qed

end
