(* ===== verification/Spec2Isabelle.thy ===== *)
theory Spec2Isabelle
  imports Arena Skills Player Room_Requests Zone Frame_Codec Connection_Table Inbox Load_Client Request_Sink
begin

text \<open>
  A verification of SnF, a game server in C++20. Clients connect over TCP and exchange frames; every
  connection, player, zone and battle room is owned by one worker thread, and workers talk only through
  bounded inboxes and actor mailboxes. Paths below are relative to \<^verbatim>\<open>src/\<close>.

  \<^bold>\<open>The parts and how they interact.\<close> Bytes from a socket pass the frame decoder; a frame is routed by the
  request sink of the worker to the actor of the player logged in on the connection; the player's
  commands and the requests it makes of zones and rooms change the game state; results are encoded into
  frames again, wait in the write buffer of the connection and reach the peer. Timers drive zone and room
  ticks; inbox lanes carry what crosses worker threads. The load client is the peer at the other end.

  \<^bold>\<open>Theories.\<close>
  \<^item> \<open>SnF_Prelude\<close>: word and time types, sorted tables, and the machine \<open>run\<close> that executes a list of
    commands, with the locales \<open>invariant_machine\<close> and \<open>absorbing_machine\<close> its clients interpret.
  \<^item> \<open>Arena\<close> (\<^verbatim>\<open>src/game/arena.cpp\<close>): positions, distances and movement. Range tests equal the exact ones over
    the integers, movement stays inside the arena, homing movement arrives.
  \<^item> \<open>Skills\<close> (\<^verbatim>\<open>skill_catalog.cppm\<close>, \<^verbatim>\<open>skill_loadout.cpp\<close>, \<^verbatim>\<open>street_progression.cpp\<close>, \<^verbatim>\<open>product_catalog.cpp\<close>):
    well-formed loadouts, and levels and stats that never wrap.
  \<^item> \<open>Player\<close> (\<^verbatim>\<open>src/game/player.cpp\<close>): commands, dirty tracking and snapshots. Money is accounted for,
    purchases are idempotent, and every saved column but the command count changes only with its dirty bit.
  \<^item> \<open>Room_Model\<close>, \<open>Room_Steps\<close>, \<open>Room_Inv\<close>, \<open>Room_Battle\<close>, \<open>Room\<close>, \<open>Room_Props\<close>, \<open>Room_Requests\<close>
    (\<^verbatim>\<open>src/game/room.cpp\<close>): the battle, one definition per method. The invariant holds in every reachable state;
    a battle is decided once, rewards are granted once, digests are numbered consecutively.
  \<^item> \<open>Zone\<close> (\<^verbatim>\<open>src/game/zone.cpp\<close>): occupants, visibility and the single outstanding tick.
  \<^item> \<open>Frame_Codec\<close> (\<^verbatim>\<open>src/protocol/frame_codec.cpp\<close>): encoding and incremental decoding. Frames survive any
    segmentation; malformed streams give the same error however they are cut.
  \<^item> \<open>Wire\<close> (\<^verbatim>\<open>src/adapter/protocol_encoder.cpp\<close>, the decoders of \<^verbatim>\<open>game_request_sink.cpp\<close>,
    \<^verbatim>\<open>src/server/message_dispatcher.cpp\<close>): payloads of replies and requests.
  \<^item> \<open>Identity\<close> (\<^verbatim>\<open>include/snf/worker/identity.hpp\<close>, \<^verbatim>\<open>poll_token.hpp\<close>, \<^verbatim>\<open>stale.hpp\<close>): identifiers, placement and
    the locale \<open>generational\<close>, by which a stale handle stays stale.
  \<^item> \<open>Connection\<close>, \<open>Connection_Table\<close> (\<^verbatim>\<open>src/worker/connection.cpp\<close>, \<^verbatim>\<open>connection_table.cpp\<close>): write buffers and slots.
    Accepted frames reach the peer; released handles never find a connection again.
  \<^item> \<open>Queues\<close> (\<^verbatim>\<open>connection_work_queue.cpp\<close>, \<^verbatim>\<open>bounded_queue.hpp\<close>, the ready queue of \<^verbatim>\<open>actor_table.cpp\<close>) with
    the locale \<open>bounded_fifo\<close>.
  \<^item> \<open>Inbox_Lane\<close>, \<open>Inbox\<close> (\<^verbatim>\<open>include/snf/worker/inbox.hpp\<close>, \<^verbatim>\<open>src/worker/inbox.cpp\<close>): the lock-free lane as two threads
    whose atomic accesses interleave in every order, and the budgeted drain, with the pushes of the other
    workers taking effect between its pops and between the looks of its final scan.
  \<^item> \<open>Std_Heap\<close>, \<open>Timer_Queue\<close> (\<^verbatim>\<open>include/snf/worker/timer_queue.hpp\<close>): the heap algorithms of the standard library
    and the timers built on them, with the handler of the worker (\<^verbatim>\<open>src/worker/worker.cpp\<close>) that schedules again
    from within an expiry pass.
  \<^item> \<open>Messages\<close>, \<open>Request_Sink\<close> (\<^verbatim>\<open>include/snf/adapter/game_payloads.hpp\<close>, \<^verbatim>\<open>src/adapter/game_request_sink.cpp\<close>):
    the messages between actors; sessions, routing and the retried notification of closed connections. A login is
    posted when the mailbox of the player's actor accepts it; the actor's own decision to bind the connection
    is part of the player actor adapter and not of this model.
  \<^item> \<open>Load_Client\<close> (\<^verbatim>\<open>src/load/client_connection.cpp\<close>): the scripted peer, put together with the codecs of the
    server. This theory adds the composition of the room, the digest encoder and the client.

  \<^bold>\<open>Conventions.\<close> A class is a record and a method a function on it; machine integers are words of their
  width, \<open>std::size_t\<close> counts are natural numbers, time points are integers in nanoseconds. An exception, a
  refused call and a failed \<open>requireInvariant\<close> are values. Results of calls that leave the modelled code
  (sockets, the worker's delivery, the clock) are arguments, so a theorem holds for all of them. Hash maps
  are finite maps or association lists; no modelled result depends on their iteration order.

  \<^bold>\<open>Bounds and fuel.\<close> Loops are structural recursions or have a termination proof; none runs on fuel. The
  scan of a retry pass recurses on the number of records left to scan, which the code bounds by the budget
  and by 1024. Capacities (1024 records and lane slots, payloads of 65530 bytes) are those of the code. The
  composition with the client assumes a room that reserves at most 1985 events, because an event takes at most
  33 bytes of a payload; the default configuration reserves 1220.

  \<^bold>\<open>Not modelled.\<close> The turn loop of the worker (\<^verbatim>\<open>src/worker/worker.cpp\<close>, but for its timer handler), actor slots and the workflows of the player
  actor adapter, which move players between zones and rooms, are not modelled yet: the structures they use
  are. The first server (\<^verbatim>\<open>src/server\<close>, \<^verbatim>\<open>src/runtime\<close>) is built from C++ coroutines and mutexes, for whose
  suspension the functions used here have no counterpart; of it only the dispatcher and the bounded queue are
  modelled. Pollers, wakeups, sockets, signals and the database client call the operating system or the MySQL
  library. Thread scheduling is modelled for the inbox lane only, with sequentially consistent accesses:
  weaker memory orders are not represented. The Python play client is a second peer and is left out.
\<close>

section \<open>A battle as its audience sees it\<close>

text \<open>The digest frames of a sequence of results, as they are pushed to the participants.\<close>

definition digest_frames :: "room_result list \<Rightarrow> frame list" where
  "digest_frames results = List.map_filter (\<lambda>res. encodeBattleDigest res UNSOLICITED_REQUEST_ID) results"

lemma digest_frame_fields:
  assumes "encodeBattleDigest res UNSOLICITED_REQUEST_ID = Some f"
  shows "frame_request_id f = UNSOLICITED_REQUEST_ID \<and> frame_type f = message_code MtBattleDigest \<and>
    DIGEST_HEADER_SIZE \<le> length (frame_payload f) \<and>
    (\<exists>d. rr_digest res = Some d \<and> decodeBigEndian (frame_payload f) 0 8 = digest_sequence d)"
  using assms
  by (auto simp: encodeBattleDigest_def decode_u64_first DIGEST_HEADER_SIZE_def split: option.splits if_splits)

lemma digest_frames_numbers:
  assumes "list_all (\<lambda>res. rr_digest res \<noteq> None \<longrightarrow> encodeBattleDigest res UNSOLICITED_REQUEST_ID \<noteq> None) results"
  shows "map (\<lambda>f. decodeBigEndian (frame_payload f) 0 8) (digest_frames results) = map digest_sequence (digests results)"
  using assms
proof (induction results)
  case (Cons res results)
  have none: "rr_digest res = None \<Longrightarrow> encodeBattleDigest res UNSOLICITED_REQUEST_ID = None"
    by (simp add: encodeBattleDigest_def)
  show ?case
  proof (cases "encodeBattleDigest res UNSOLICITED_REQUEST_ID")
    case None
    then show ?thesis using Cons by (auto simp: digest_frames_def map_filter_simps digests_Cons)
  next
    case (Some f)
    then show ?thesis
      using Cons digest_frame_fields [OF Some] by (auto simp: digest_frames_def map_filter_simps digests_Cons)
  qed
qed (simp add: digest_frames_def digests_def map_filter_simps)

text \<open>An event takes at most 33 bytes, so 1985 of them fit in one frame.\<close>

lemma digest_encodable:
  assumes "rr_digest res = Some d" and "length (digest_events d) \<le> 1985"
  shows "encodeBattleDigest res request_id \<noteq> None"
proof -
  have event: "length (append_event e) \<le> 33" for e by (cases e) (simp_all add: encoded_event_size_exact)
  have "length (concat (map append_event es)) \<le> length es * 33" for es
  proof (induction es)
    case (Cons e es)
    then show ?case using event [of e] by simp
  qed simp
  from this [of "digest_events d"]
  have "DIGEST_HEADER_SIZE + length (concat (map append_event (digest_events d))) \<le> unat MAX_PAYLOAD_SIZE"
    using assms(2) by (simp add: DIGEST_HEADER_SIZE_def MAX_PAYLOAD_SIZE_nat)
  from digest_size_total [OF this] assms show ?thesis by (auto simp: encodeBattleDigest_def)
qed

lemma run_digests_encodable:
  assumes "make_room room rc = Inr r" and "event_reserve rc \<le> 1985"
  shows "list_all (\<lambda>res. rr_digest res \<noteq> None \<longrightarrow> encodeBattleDigest res request_id \<noteq> None) (fst (run room_step r cs))"
proof -
  note M = make_room_inv [OF assms(1)]
  have "encodeBattleDigest res request_id \<noteq> None"
    if res: "res \<in> set (fst (run room_step r cs))" "rr_digest res = Some d" for res d
  proof -
    from run_results [OF M(1) res(1)] obtain s s' where "good_step s res s'" "config s = config r" .
    then have "length (digest_events d) \<le> unat (event_reserve rc)"
      using res(2) M(2) by (simp add: good_step_def digest_ok_def)
    moreover have "unat (event_reserve rc) \<le> 1985" using assms(2) by (simp add: word_le_nat_alt)
    ultimately show ?thesis using digest_encodable [OF res(2)] by simp
  qed
  then show ?thesis by (auto simp: list_all_iff)
qed

text \<open>
  C35: A client that has seen no digest yet and receives the pushed digests of a battle from its start follows
  all of it: whatever commands the room executes, if its configuration reserves at most 1985 events (the
  default one reserves fewer) and it publishes fewer than $2^{64}$ digests, then every digest fits in a
  frame, the client records every one of them without a gap error, and the last sequence it has seen is the
  number of digests published. The bound on the events is needed: a digest that does not fit in a frame is
  not encoded, and the server closes the connections it was meant for.
\<close>

theorem client_follows_battle:
  assumes "make_room room rc = Inr r" and "results = fst (run room_step r cs)" and "event_reserve rc \<le> 1985"
    and "length (digests results) < 2 ^ 64" and "length (digests results) \<le> length readings"
    and "cl_last_digest_sequence c = None"
  shows "case process_frames c (digest_frames results) readings seen of (e, seen', c') \<Rightarrow>
     e = None \<and> rd_battle_digest_frames seen' = rd_battle_digest_frames seen + length (digests results) \<and>
     (digests results \<noteq> [] \<longrightarrow> cl_last_digest_sequence c' = Some (of_nat (length (digests results))))"
proof -
  have numbers: "map (\<lambda>f. decodeBigEndian (frame_payload f) 0 8) (digest_frames results) =
      map digest_sequence (digests results)"
    by (rule digest_frames_numbers) (use run_digests_encodable [OF assms(1,3)] assms(2) in blast)
  then have len: "length (digest_frames results) = length (digests results)" by (metis length_map)
  have seq: "map (\<lambda>f. decodeBigEndian (frame_payload f) 0 8) (digest_frames results) =
      map (\<lambda>k. 0 + of_nat k :: u64) [1 ..< Suc (length (digest_frames results))]"
    using numbers digests_numbered [OF make_room_inv(1) [OF assms(1)], of cs] make_room_inv(3) [OF assms(1)] assms(2) len
    by (simp del: upt_Suc)
  have frames: "\<forall>f \<in> set (digest_frames results). frame_request_id f = UNSOLICITED_REQUEST_ID \<and>
      frame_type f = message_code MtBattleDigest \<and> DIGEST_HEADER_SIZE \<le> length (frame_payload f)"
    using digest_frame_fields by (force simp: digest_frames_def List.map_filter_def)
  have nonzero: "\<forall>k \<in> {1 .. length (digest_frames results)}. 0 + of_nat k \<noteq> (0 :: u64)"
  proof
    fix k assume "k \<in> {1 .. length (digest_frames results)}"
    then have "0 < k" "k < 2 ^ 64" using len assms(4) by auto
    then show "0 + of_nat k \<noteq> (0 :: u64)" by (auto simp: word_of_nat_eq_0_iff dest: nat_dvd_not_less)
  qed
  have "digest_frames results = [] \<longleftrightarrow> digests results = []" using len by (metis length_0_conv)
  then show ?thesis
    using digest_frames_followed [of "digest_frames results" readings 0 c seen] assms(5,6) len seq frames nonzero
    by (simp add: split_beta del: upt_Suc)
qed

theorem client_follows_battle_witness:
  "let results = fst (run room_step duel_room duel_commands) in
   length (digests results) = 3 \<and>
   (case process_frames fighter (digest_frames results) [1, 2, 3] no_reads of (e, seen', c') \<Rightarrow>
     e = None \<and> rd_battle_digest_frames seen' = 3 \<and> cl_last_digest_sequence c' = Some 3)"
proof -
  define results where "results = fst (run room_step duel_room duel_commands)"
  have three: "length (digests results) = 3" unfolding results_def by (rule duel_digests)
  have reserve: "event_reserve duel_config \<le> 1985"
    by (simp add: event_reserve_def duel_config_def default_room_config_def MAX_EVENTS_PER_ENEMY_def MAX_EVENTS_PER_PROJECTILE_def)
  have fresh: "cl_last_digest_sequence fighter = None" "rd_battle_digest_frames no_reads = 0"
    by (simp_all add: fighter_def ClientConnection_def no_reads_def)
  have "digests results \<noteq> []" using three by auto
  then show ?thesis
    unfolding results_def [symmetric] Let_def
    using client_follows_battle [OF duel_room_made results_def reserve, of "[1, 2, 3]" fighter no_reads] three fresh
    by (simp add: split_beta)
qed

end
